(* ===== verification/Vrrp_Prelude.thy ===== *)
theory Vrrp_Prelude
  imports Main "HOL-Library.Word"
begin

text \<open>
  Shared vocabulary of the development: the machine integers of the C code
  (LP64, little-endian host), raw byte buffers and their 16-bit loads and stores,
  the outcome type of code that may exit or touch invalid memory, and decimal
  printing (the \<open>%d\<close> conversion).  The collections \<open>byte_simps\<close> and
  \<open>run_simps\<close> gather the rewriting facts the component theories use.
\<close>

unbundle bit_operations_syntax

section \<open>Types of the C code\<close>

type_synonym u8 = "8 word"
type_synonym u16 = "16 word"
type_synonym u32 = "32 word"
type_synonym u64 = "64 word"
type_synonym bytes = "8 word list"

named_theorems byte_simps \<open>loads, stores and lengths of byte buffers\<close>
named_theorems run_simps \<open>evaluation of outcomes\<close>

section \<open>Outcomes\<close>

text \<open>
  \<open>Ret\<close>: the function returns; \<open>Exit\<close>: the process called \<open>exit(EXIT_FAILURE)\<close>;
  \<open>Undef\<close>: the C code has undefined behaviour (a read or write through an invalid
  pointer or out of bounds); \<open>Diverge\<close>: a loop of the code does not end.
\<close>

datatype 'a run = Ret 'a | Exit | Undef | Diverge

fun bind_run :: "'a run \<Rightarrow> ('a \<Rightarrow> 'b run) \<Rightarrow> 'b run" where
  "bind_run (Ret x) f = f x"
| "bind_run Exit f = Exit"
| "bind_run Undef f = Undef"
| "bind_run Diverge f = Diverge"

definition run_opt :: "'a option \<Rightarrow> 'a run" where
  "run_opt x = (case x of None \<Rightarrow> Undef | Some y \<Rightarrow> Ret y)"

section \<open>Bytes and 16-bit words in memory\<close>

text \<open>A 16-bit load and store on the little-endian host, and \<open>htons\<close>/\<open>ntohs\<close>.\<close>

definition le16 :: "u8 \<Rightarrow> u8 \<Rightarrow> u16" where
  "le16 a b = ucast a + 256 * ucast b"

definition store16 :: "u16 \<Rightarrow> bytes" where
  "store16 x = [ucast x, ucast (drop_bit 8 x)]"

definition load16 :: "bytes \<Rightarrow> nat \<Rightarrow> u16" where
  "load16 bs i = le16 (bs ! i) (bs ! Suc i)"

definition htons :: "u16 \<Rightarrow> u16" where
  "htons x = le16 (ucast (drop_bit 8 x)) (ucast x)"

definition be32 :: "bytes \<Rightarrow> u32" where
  "be32 bs = push_bit 24 (ucast (bs ! 0)) + push_bit 16 (ucast (bs ! 1))
           + push_bit 8 (ucast (bs ! 2)) + ucast (bs ! 3)"

text \<open>
  \<open>write_at buf i bs\<close> is \<open>memcpy(buf + i, bs, length bs)\<close>: the copy is defined only
  inside the buffer.
\<close>

definition write_at :: "bytes \<Rightarrow> nat \<Rightarrow> bytes \<Rightarrow> bytes option" where
  "write_at buf i bs =
     (if i + length bs \<le> length buf
      then Some (take i buf @ bs @ drop (i + length bs) buf) else None)"

definition of_string :: "string \<Rightarrow> bytes" where
  "of_string s = map of_char s"

section \<open>Decimal printing\<close>

fun nat_str :: "nat \<Rightarrow> string" where
  "nat_str n = (if n < 10 then [char_of (48 + n)]
                else nat_str (n div 10) @ [char_of (48 + n mod 10)])"

declare nat_str.simps [simp del]

section \<open>Facts on outcomes\<close>

lemma bind_run_Ret_iff [run_simps]:
  "bind_run m f = Ret y \<longleftrightarrow> (\<exists>x. m = Ret x \<and> f x = Ret y)"
  by (cases m) auto

lemma bind_run_assoc: "bind_run (bind_run m f) g = bind_run m (\<lambda>x. bind_run (f x) g)"
  by (cases m) auto

lemma bind_run_cong [fundef_cong]:
  "m = m' \<Longrightarrow> (\<And>x. m' = Ret x \<Longrightarrow> f x = f' x) \<Longrightarrow> bind_run m f = bind_run m' f'"
  by (cases m') auto

lemma run_opt_simps [simp, run_simps]:
  "run_opt None = Undef" "run_opt (Some x) = Ret x"
  by (simp_all add: run_opt_def)

lemma run_opt_Ret_iff [run_simps]: "run_opt x = Ret y \<longleftrightarrow> x = Some y"
  by (cases x) simp_all

text \<open>A property of every leaf of a cascade of tests.\<close>

lemma if_both: "P x \<Longrightarrow> P y \<Longrightarrow> P (if b then x else y)"
  by simp

section \<open>Facts on bytes\<close>

lemma unat_u8_less [simp]: "unat (x :: u8) < 256"
  using unsigned_less [of x, where ?'a = nat] by simp

lemma unat_u16_less [simp]: "unat (x :: u16) < 65536"
  using unsigned_less [of x, where ?'a = nat] by simp

lemma unat_u32_less [simp]: "unat (x :: u32) < 4294967296"
  using unsigned_less [of x, where ?'a = nat] by simp

lemma unat_ucast_up [simp]:
  "unat (ucast (x :: u8) :: u16) = unat x"
  "unat (ucast (x :: u8) :: u32) = unat x"
  "unat (ucast (y :: u16) :: u32) = unat y"
  using unat_u8_less [of x] unat_u16_less [of y]
  by (simp_all only: unsigned_ucast_eq take_bit_eq_mod) (simp_all del: unat_u8_less unat_u16_less)

lemma unat_ucast_down [simp]:
  "unat (ucast (y :: u16) :: u8) = unat y mod 256"
  "unat (ucast (z :: u32) :: u16) = unat z mod 65536"
  by (simp_all add: unsigned_ucast_eq take_bit_eq_mod)

lemma unat_drop_bit_8 [simp]: "unat (drop_bit 8 (y :: u16)) = unat y div 256"
  by (simp add: drop_bit_eq_div unat_div)

lemma unat_drop_bit_16 [simp]: "unat (drop_bit 16 (z :: u32)) = unat z div 65536"
  by (simp add: drop_bit_eq_div unat_div)

lemma unat_le16: "unat (le16 a b) = unat a + 256 * unat b"
proof -
  have "unat a + 256 * unat b < 65536"
    using unat_u8_less [of a] unat_u8_less [of b] by linarith
  then show ?thesis
    by (simp add: le16_def unat_word_ariths)
qed

lemma u16_eq_unatI: "unat (x :: u16) = unat y \<Longrightarrow> x = y"
  by (simp add: word_unat_eq_iff)

lemma u8_eq_unatI: "unat (x :: u8) = unat y \<Longrightarrow> x = y"
  by (simp add: word_unat_eq_iff)

lemma ucast_le16_lo [simp]: "ucast (le16 a b) = a"
  by (rule u8_eq_unatI) (simp add: unat_le16)

lemma ucast_le16_hi [simp]: "ucast (drop_bit 8 (le16 a b)) = b"
  by (rule u8_eq_unatI) (simp add: unat_le16)

lemma le16_ucast [simp]: "le16 (ucast x) (ucast (drop_bit 8 x)) = x"
proof (rule u16_eq_unatI)
  have "unat x div 256 mod 256 = unat x div 256"
    using unat_u16_less [of x] by (intro mod_less) (simp del: unat_u16_less)
  then show "unat (le16 (ucast x) (ucast (drop_bit 8 x))) = unat x"
    by (simp add: unat_le16)
qed

lemma le16_inject [simp]: "le16 a b = le16 c d \<longleftrightarrow> a = c \<and> b = d"
  by (metis ucast_le16_hi ucast_le16_lo)

lemma length_store16 [simp, byte_simps]: "length (store16 x) = 2"
  by (simp add: store16_def)

lemma store16_le16 [simp, byte_simps]: "store16 (le16 a b) = [a, b]"
  by (simp add: store16_def)

lemma store16_inject [simp]: "store16 x = store16 y \<longleftrightarrow> x = y"
  by (metis le16_ucast list.inject store16_def)

lemma htons_le16 [simp, byte_simps]: "htons (le16 a b) = le16 b a"
  by (simp add: htons_def)

lemma htons_htons [simp]: "htons (htons x) = x"
  by (simp add: htons_def)

lemma store16_htons [byte_simps]: "store16 (htons x) = [ucast (drop_bit 8 x), ucast x]"
  by (simp add: htons_def)

lemma load16_store16 [simp, byte_simps]: "load16 (store16 x @ bs) 0 = x"
  by (simp add: load16_def store16_def)

lemma length_of_string [simp, byte_simps]: "length (of_string s) = length s"
  by (simp add: of_string_def)

lemma write_at_Some_length [byte_simps]:
  "write_at buf i bs = Some buf' \<Longrightarrow> length buf' = length buf"
  by (auto simp: write_at_def split: if_splits)

lemma write_at_append [byte_simps]:
  "length a = i \<Longrightarrow> length b = length bs \<Longrightarrow> write_at (a @ b @ c) i bs = Some (a @ bs @ c)"
  by (simp add: write_at_def)

end
