(* ===== verification/Vrrp_Types.thy ===== *)
theory Vrrp_Types
  imports Vrrp_Prelude
begin

text \<open>
  The data of the daemon: the structures of \<^verbatim>\<open>vrrp.h\<close>, \<^verbatim>\<open>vrrp_net.h\<close>,
  \<^verbatim>\<open>vrrp_ipx.h\<close>, \<^verbatim>\<open>vrrp_rfc.h\<close>, \<^verbatim>\<open>vrrp_timer.h\<close>, \<^verbatim>\<open>vrrp_ctrl.h\<close> and
  \<^verbatim>\<open>vrrp_state.h\<close> as records and datatypes, and the operating system the code calls as
  the record \<open>os\<close> of its answers.  An answer is indexed by the number of system
  calls made so far (\<open>tick\<close>), so it may change from call to call; nothing is assumed
  about it here.  Fields that occur in several structures carry a prefix
  (\<open>net_vrid\<close> is \<open>vnet->vrid\<close>).
\<close>

section \<open>The operating system\<close>

record timespec =
  tv_sec :: int
  tv_nsec :: int

text \<open>
  \<open>pselect\<close> unblocks every signal: either it returns the readiness of the VRRP socket
  and of the control fifo (both false: timeout), or handlers ran for the listed
  signals and it fails with \<open>EINTR\<close>, or it fails otherwise.
\<close>

datatype pselect_result = Sel_ready bool bool | Sel_signals "int list" | Sel_error
datatype fifo_read = Fifo_data string | Fifo_wouldblock | Fifo_error
datatype fork_result = Fork_error | Fork_child | Fork_parent
datatype wait_result = Wait_status int | Wait_eintr | Wait_error

record recvmsg_result =
  rm_src :: bytes
  rm_data :: bytes
  rm_cmsgs :: "(int \<times> int \<times> bytes) list"

text \<open>
  \<open>os_malloc\<close> and \<open>os_stack\<close> give the old contents of allocated memory and of an
  uninitialised local buffer; \<open>os_ifaddrs\<close> is the list \<open>getifaddrs\<close> returns and
  \<open>os_mtu\<close> the answer of the \<open>SIOCGIFMTU\<close> request.  \<open>os_read\<close> is \<open>read\<close> on the raw IPv4 socket, \<open>os_pton\<close>
  and \<open>os_ntop\<close> are \<open>inet_pton\<close> and \<open>inet_ntop\<close>.  \<open>os_call\<close> and \<open>os_errno\<close> give the return value
  and \<open>errno\<close> of the calls that only succeed or fail (\<open>open\<close>, \<open>fcntl\<close>, \<open>mkfifo\<close>, \<open>daemon\<close>,
  \<open>sched_setscheduler\<close>, ...), \<open>os_locked\<close> whether \<open>F_GETLK\<close> finds a lock, \<open>os_script\<close> and
  \<open>os_pathrun\<close> are the build-time constants \<open>VRRP_SCRIPT\<close> and \<open>PATHRUN\<close>, \<open>os_arg_max\<close> is
  \<open>sysconf(_SC_ARG_MAX)\<close> and \<open>os_pid\<close> the process id.
\<close>

record os =
  os_clock :: "nat \<Rightarrow> timespec option"
  os_pselect :: "nat \<Rightarrow> pselect_result"
  os_read :: "nat \<Rightarrow> bytes option"
  os_recvmsg :: "nat \<Rightarrow> recvmsg_result option"
  os_fifo :: "nat \<Rightarrow> fifo_read"
  os_stack :: "nat \<Rightarrow> nat \<Rightarrow> u8"
  os_malloc :: "nat \<Rightarrow> (nat \<Rightarrow> u8) option"
  os_ifindex :: "nat \<Rightarrow> string \<Rightarrow> int"
  os_sendmsg :: "nat \<Rightarrow> bool"
  os_stat :: "nat \<Rightarrow> string \<Rightarrow> u32 option"
  os_fork :: "nat \<Rightarrow> fork_result"
  os_waitpid :: "nat \<Rightarrow> wait_result"
  os_socket :: "nat \<Rightarrow> int"
  os_setsockopt :: "nat \<Rightarrow> bool"
  os_ifaddrs :: "nat \<Rightarrow> (string \<times> (int \<times> bytes) option) list option"
  os_mtu :: "nat \<Rightarrow> string \<Rightarrow> int option"
  os_pton :: "int \<Rightarrow> string \<Rightarrow> bytes option"
  os_ntop :: "int \<Rightarrow> bytes \<Rightarrow> string"
  os_call :: "nat \<Rightarrow> int"
  os_errno :: "nat \<Rightarrow> int"
  os_locked :: "nat \<Rightarrow> bool"
  os_script :: string
  os_pathrun :: string
  os_arg_max :: int
  os_pid :: nat

text \<open>What an observer of the process sees, in order.  \<open>File op path\<close> is an operation on the file system,
  \<open>Overwrite old new\<close> a change of an argument in the memory \<open>ps\<close> shows.\<close>

datatype out_event = Sent bytes | Join bytes | Exec string "string list" | Notice string
  | File string string | Stdout string | Stderr string | Overwrite string string

record world =
  reg :: u64
  tick :: nat
  trace :: "out_event list"

definition syscall :: "world \<Rightarrow> world" where
  "syscall w = w\<lparr>tick := Suc (tick w)\<rparr>"

definition emit :: "out_event \<Rightarrow> world \<Rightarrow> world" where
  "emit e w = w\<lparr>trace := trace w @ [e]\<rparr>"

section \<open>Enumerations and constants\<close>

text \<open>\<open>vrrp_version\<close>: the enumerators 2, 2 and 3.\<close>

definition RFC2338 :: int where "RFC2338 = 2"
definition RFC3768 :: int where "RFC3768 = 2"
definition RFC5798 :: int where "RFC5798 = 3"

lemmas version_defs [simp] = RFC2338_def RFC3768_def RFC5798_def

datatype vrrp_authtype = NOAUTH | SIMPLE | HMAC

primrec authtype_val :: "vrrp_authtype \<Rightarrow> u8" where
  "authtype_val NOAUTH = 0"
| "authtype_val SIMPLE = 1"
| "authtype_val HMAC = 2"

datatype vrrp_state = INIT | BACKUP | MASTER

datatype vrrp_event = VRID_MISMATCH | INVALID | PKT | SIGNAL | CTRL_FIFO | TIMER

definition STR_STATE :: "vrrp_state \<Rightarrow> string" where
  "STR_STATE s = (if s = INIT then ''init'' else if s = BACKUP then ''backup'' else ''master'')"

definition STR_PREEMPT :: "bool \<Rightarrow> string" where
  "STR_PREEMPT s = (if s then ''true'' else ''false'')"

definition VRRP_PRIO_MAX :: nat where "VRRP_PRIO_MAX = 255"
definition PRIO_DFL :: u8 where "PRIO_DFL = 100"
definition PRIO_OWNER :: u8 where "PRIO_OWNER = 255"
definition IPPROTO_VRRP :: u8 where "IPPROTO_VRRP = 112"
definition VRRP_TTL :: int where "VRRP_TTL = 255"
definition AF_INET :: int where "AF_INET = 2"
definition AF_INET6 :: int where "AF_INET6 = 10"
definition IP_MAXPACKET :: nat where "IP_MAXPACKET = 65535"
definition CTRL_MAXCHAR :: nat where "CTRL_MAXCHAR = 64"
definition CTRL_CMD_NTOKEN :: nat where "CTRL_CMD_NTOKEN = 3"

lemmas family_defs = AF_INET_def AF_INET6_def

text \<open>Sizes: \<open>struct vrrphdr\<close> is packed, 8 bytes; \<open>iphdr\<close> 20, \<open>ip6_hdr\<close> 40.\<close>

definition VRRP_PKTHDR_SIZE :: nat where "VRRP_PKTHDR_SIZE = 8"
definition VRRP_AUTH_SIZE :: nat where "VRRP_AUTH_SIZE = 2 * 4"
definition VRRP_VIPMAX_SIZE :: nat where "VRRP_VIPMAX_SIZE = 255 * 4"
definition VRRP_PKT_MINSIZE :: nat where "VRRP_PKT_MINSIZE = VRRP_PKTHDR_SIZE + 4"
definition VRRP_PKT_MAXSIZE :: nat where
  "VRRP_PKT_MAXSIZE = VRRP_PKTHDR_SIZE + VRRP_VIPMAX_SIZE + VRRP_AUTH_SIZE"
definition IPHDR_SIZE :: nat where "IPHDR_SIZE = 20"

lemmas size_defs = VRRP_PKTHDR_SIZE_def VRRP_AUTH_SIZE_def VRRP_VIPMAX_SIZE_def
  VRRP_PKT_MINSIZE_def VRRP_PKT_MAXSIZE_def IPHDR_SIZE_def

section \<open>Structures\<close>

record vrrp_timer =
  ts :: timespec
  delta :: timespec

text \<open>A \<open>char *\<close> of the command array: into the message buffer, null, or uninitialised.\<close>

datatype wptr = Null | At nat | Wild

record vrrp_ctrl =
  ctrl_fd :: int
  msg :: string
  cmd :: "wptr list"

record vrrp =
  version :: int
  vrid :: u8
  priority :: u8
  naddr :: u8
  adv_int :: u16
  start_delay :: u16
  master_adv_int :: u16
  auth_type :: vrrp_authtype
  auth_data :: "string option"
  state :: vrrp_state
  preempt :: bool
  scriptname :: "string option"
  argv :: "string list option"
  ctrl :: vrrp_ctrl
  adv_timer :: vrrp_timer
  masterdown_timer :: vrrp_timer

text \<open>
  \<open>union vrrp_ipx_addr\<close> is 16 bytes; the IPv4 member is the first four.  An
  \<open>iovec\<close> with null base is \<open>None\<close>.
\<close>

type_synonym ipx_addr = bytes

record iovec =
  iov_base :: "bytes option"
  iov_len :: nat

record vrrp_ip =
  ipx :: ipx_addr
  netmask :: u8
  topology :: "iovec list"

record vrrp_if =
  ifname :: "string option"
  mtu :: int
  vif_ipx :: ipx_addr

record vrrp_ipx_header =
  hdr_len :: int
  hdr_proto :: int
  hdr_totlen :: int
  hdr_ttl :: int

record vrrp_recv =
  s_ipx :: ipx_addr
  d_ipx :: ipx_addr
  header :: vrrp_ipx_header
  adv :: bytes

text \<open>The two instances of \<open>struct vrrp_ipx\<close> a \<open>vnet->ipx_helper\<close> can point to.\<close>

datatype vrrp_ipx = VRRP_IP4 | VRRP_IP6

record vrrp_net =
  net_vrid :: u8
  vif :: vrrp_if
  vip_list :: "vrrp_ip list"
  family :: int
  net_naddr :: u8
  sock :: int
  xmit :: int
  pkt :: vrrp_recv
  adv_iov :: "iovec list"
  ipx_helper :: "vrrp_ipx option"

section \<open>Advertisement header in memory (\<open>struct vrrphdr\<close>)\<close>

text \<open>
  The packed structure at its byte offsets.  Bytes 4 and 5 are the union: \<open>auth_type\<close>
  and \<open>adv_int\<close> in VRRPv2, the 16-bit \<open>max_adv_int\<close> in VRRPv3.
\<close>

definition h_version_type :: "bytes \<Rightarrow> u8" where "h_version_type p = p ! 0"
definition h_vrid :: "bytes \<Rightarrow> u8" where "h_vrid p = p ! 1"
definition h_priority :: "bytes \<Rightarrow> u8" where "h_priority p = p ! 2"
definition h_naddr :: "bytes \<Rightarrow> u8" where "h_naddr p = p ! 3"
definition h_auth_type :: "bytes \<Rightarrow> u8" where "h_auth_type p = p ! 4"
definition h_adv_int :: "bytes \<Rightarrow> u8" where "h_adv_int p = p ! 5"
definition h_max_adv_int :: "bytes \<Rightarrow> u16" where "h_max_adv_int p = load16 p 4"
definition h_chksum :: "bytes \<Rightarrow> u16" where "h_chksum p = load16 p 6"

definition set_h_priority :: "u8 \<Rightarrow> bytes \<Rightarrow> bytes" where "set_h_priority x p = p[2 := x]"
definition set_h_chksum :: "u16 \<Rightarrow> bytes \<Rightarrow> bytes" where
  "set_h_chksum c p = p[6 := ucast c, 7 := ucast (drop_bit 8 c)]"

lemmas h_defs = h_version_type_def h_vrid_def h_priority_def h_naddr_def h_auth_type_def
  h_adv_int_def h_max_adv_int_def h_chksum_def set_h_priority_def set_h_chksum_def

lemma length_set_h [simp, byte_simps]:
  "length (set_h_priority x p) = length p" "length (set_h_chksum c p) = length p"
  by (simp_all add: h_defs)

text \<open>
  A concrete environment for examples: a clock at 5 s, nothing to read, sending and
  forking succeed, memory is zeroed.
\<close>

definition quiet_os :: os where
  "quiet_os = \<lparr>os_clock = (\<lambda>_. Some \<lparr>tv_sec = 5, tv_nsec = 0\<rparr>),
     os_pselect = (\<lambda>_. Sel_ready False False), os_read = (\<lambda>_. None),
     os_recvmsg = (\<lambda>_. None), os_fifo = (\<lambda>_. Fifo_wouldblock), os_stack = (\<lambda>_ _. 0),
     os_malloc = (\<lambda>_. Some (\<lambda>_. 0)), os_ifindex = (\<lambda>_ _. 2), os_sendmsg = (\<lambda>_. True),
     os_stat = (\<lambda>_ _. Some 0x81ed), os_fork = (\<lambda>_. Fork_parent),
     os_waitpid = (\<lambda>_. Wait_status 0), os_socket = (\<lambda>_. 5), os_setsockopt = (\<lambda>_. True),
     os_ifaddrs = (\<lambda>_. Some [(''eth0'', Some (2, [10, 0, 0, 1]))]),
     os_mtu = (\<lambda>_ _. Some 1500), os_pton = (\<lambda>f _. Some (if f = 2 then [10, 0, 0, 254] else replicate 16 1)),
     os_ntop = (\<lambda>_ _. ''10.0.0.254''), os_call = (\<lambda>_. 0), os_errno = (\<lambda>_. 0),
     os_locked = (\<lambda>_. False), os_script = ''/etc/uvrrpd/vrrp_switch.sh'', os_pathrun = ''/var/run'',
     os_arg_max = 2097152, os_pid = 77\<rparr>"

definition world0 :: world where
  "world0 = \<lparr>reg = 0, tick = 0, trace = []\<rparr>"

text \<open>A VRRPv3 backup of priority 100 on one IPv4 address, advertisements every second.\<close>

definition vrrp0 :: vrrp where
  "vrrp0 = \<lparr>version = 3, vrid = 42, priority = 100, naddr = 1, adv_int = 100, start_delay = 0,
     master_adv_int = 100, auth_type = NOAUTH, auth_data = None, state = BACKUP, preempt = True,
     scriptname = None, argv = Some (replicate 9 []),
     ctrl = \<lparr>ctrl_fd = 4, msg = replicate 64 (CHR 0x00), cmd = [Null, Null, Null]\<rparr>,
     adv_timer = \<lparr>ts = \<lparr>tv_sec = 0, tv_nsec = 0\<rparr>, delta = \<lparr>tv_sec = 0, tv_nsec = 0\<rparr>\<rparr>,
     masterdown_timer = \<lparr>ts = \<lparr>tv_sec = 9, tv_nsec = 0\<rparr>, delta = \<lparr>tv_sec = 0, tv_nsec = 0\<rparr>\<rparr>\<rparr>"

definition vnet0 :: vrrp_net where
  "vnet0 = \<lparr>net_vrid = 42,
     vif = \<lparr>ifname = Some ''eth0'', mtu = 1500, vif_ipx = [10, 0, 0, 1] @ replicate 12 0\<rparr>,
     vip_list = [\<lparr>ipx = [10, 0, 0, 254] @ replicate 12 0, netmask = 0, topology = []\<rparr>],
     family = AF_INET, net_naddr = 1, sock = 5, xmit = 6,
     pkt = \<lparr>s_ipx = replicate 16 0, d_ipx = replicate 16 0,
            header = \<lparr>hdr_len = 0, hdr_proto = 0, hdr_totlen = 0, hdr_ttl = 0\<rparr>,
            adv = replicate 8 0\<rparr>,
     adv_iov = replicate 3 \<lparr>iov_base = None, iov_len = 0\<rparr>,
     ipx_helper = Some VRRP_IP4\<rparr>"

lemmas example_defs = quiet_os_def world0_def vrrp0_def vnet0_def

lemma syscall_simps [simp]:
  "tick (syscall w) = Suc (tick w)" "trace (syscall w) = trace w" "reg (syscall w) = reg w"
  by (simp_all add: syscall_def)

lemma emit_simps [simp]:
  "tick (emit e w) = tick w" "trace (emit e w) = trace w @ [e]" "reg (emit e w) = reg w"
  by (simp_all add: emit_def)

lemma family_distinct [simp]: "AF_INET \<noteq> AF_INET6" "AF_INET6 \<noteq> AF_INET"
  by (simp_all add: family_defs)

end
