(* ===== verification/Vrrp_Timer.thy ===== *)
theory Vrrp_Timer
  imports Vrrp_Types
begin

text \<open>
  \<^verbatim>\<open>vrrp_timer.c\<close> and the timer macros of \<^verbatim>\<open>vrrp_timer.h\<close>.  \<open>time_t\<close> and \<open>long\<close> are
  64-bit and signed, where overflow is undefined; the times here are mathematical
  integers, which is exact for every date the clock can show.  The
  locale \<open>deadline_timer\<close> is what the state machine relies on.
\<close>

section \<open>Timers (\<open>vrrp_timer.c\<close>)\<close>

definition NANOUL :: int where "NANOUL = 1000000000"
definition CENTUL :: int where "CENTUL = 10000000"

definition timespec_zero :: timespec where
  "timespec_zero = \<lparr>tv_sec = 0, tv_nsec = 0\<rparr>"

text \<open>
  \<open>timespec_substract\<close> returns whether the difference is negative, the difference,
  and \<open>y\<close> as the carries have rewritten it.  The divisions are on positive operands.
\<close>

definition carry_borrow :: "timespec \<Rightarrow> timespec \<Rightarrow> timespec" where
  "carry_borrow x y =
     (if tv_nsec x < tv_nsec y
      then let nsec = (tv_nsec y - tv_nsec x) div NANOUL + 1
           in \<lparr>tv_sec = tv_sec y + nsec, tv_nsec = tv_nsec y - NANOUL * nsec\<rparr>
      else y)"

definition carry_excess :: "timespec \<Rightarrow> timespec \<Rightarrow> timespec" where
  "carry_excess x y =
     (if tv_nsec x - tv_nsec y > NANOUL
      then let nsec = (tv_nsec x - tv_nsec y) div NANOUL
           in \<lparr>tv_sec = tv_sec y - nsec, tv_nsec = tv_nsec y + NANOUL * nsec\<rparr>
      else y)"

definition timespec_substract :: "timespec \<Rightarrow> timespec \<Rightarrow> bool \<times> timespec \<times> timespec" where
  "timespec_substract x y =
     (let y' = carry_excess x (carry_borrow x y)
      in (tv_sec x < tv_sec y',
          \<lparr>tv_sec = tv_sec x - tv_sec y', tv_nsec = tv_nsec x - tv_nsec y'\<rparr>, y'))"

definition clock_gettime :: "os \<Rightarrow> world \<Rightarrow> timespec option \<times> world" where
  "clock_gettime os w = (os_clock os (tick w), syscall w)"

definition vrrp_timer_set ::
    "os \<Rightarrow> vrrp_timer \<Rightarrow> int \<Rightarrow> int \<Rightarrow> world \<Rightarrow> int \<times> vrrp_timer \<times> world" where
  "vrrp_timer_set os t delay delay_cs w =
     (case clock_gettime os w of
        (None, w') \<Rightarrow> (-1, t, w')
      | (Some now, w') \<Rightarrow>
          (0, \<lparr>ts = \<lparr>tv_sec = tv_sec now + delay, tv_nsec = tv_nsec now + delay_cs * CENTUL\<rparr>,
               delta = timespec_zero\<rparr>, w'))"

definition vrrp_timer_clear :: "vrrp_timer option \<Rightarrow> vrrp_timer option" where
  "vrrp_timer_clear t =
     (case t of None \<Rightarrow> None | Some _ \<Rightarrow> Some \<lparr>ts = timespec_zero, delta = timespec_zero\<rparr>)"

text \<open>The call on the address of a member of \<open>struct vrrp\<close>, which is never null.\<close>

definition clear_member :: "vrrp_timer \<Rightarrow> vrrp_timer" where
  "clear_member t = (case vrrp_timer_clear (Some t) of None \<Rightarrow> t | Some t' \<Rightarrow> t')"

definition vrrp_timer_is_running :: "vrrp_timer \<Rightarrow> bool" where
  "vrrp_timer_is_running t \<longleftrightarrow> tv_sec (ts t) \<noteq> 0 \<or> tv_nsec (ts t) \<noteq> 0"

definition vrrp_timer_update :: "os \<Rightarrow> vrrp_timer \<Rightarrow> world \<Rightarrow> int \<times> vrrp_timer \<times> world" where
  "vrrp_timer_update os t w =
     (case clock_gettime os w of
        (None, w') \<Rightarrow> (-1, t, w')
      | (Some now, w') \<Rightarrow>
          (case timespec_substract (ts t) now of (neg, d, now') \<Rightarrow>
             if neg then (1, t\<lparr>delta := d\<rparr>, w')
             else (0, \<lparr>ts = \<lparr>tv_sec = tv_sec now' + tv_sec d, tv_nsec = tv_nsec now' + tv_nsec d\<rparr>,
                       delta = d\<rparr>, w')))"

definition vrrp_timer_is_expired :: "os \<Rightarrow> vrrp_timer \<Rightarrow> world \<Rightarrow> bool \<times> vrrp_timer \<times> world" where
  "vrrp_timer_is_expired os t w =
     (case vrrp_timer_update os t w of (r, t', w') \<Rightarrow>
        (r \<noteq> 0 \<or> (tv_sec (ts t') \<le> 0 \<and> tv_nsec (ts t') \<le> 0), t', w'))"

section \<open>VRRP intervals (macros of \<open>vrrp_timer.h\<close>)\<close>

text \<open>\<open>uint8_t\<close> and \<open>uint16_t\<close> operands are promoted to \<open>int\<close>; the quotient truncates.\<close>

definition SKEW_TIME :: "vrrp \<Rightarrow> int" where
  "SKEW_TIME v =
     (256 - uint (priority v)) * (if version v = 3 then uint (master_adv_int v) else 1) div 256"

definition MASTERDOWN_INT :: "vrrp \<Rightarrow> int" where
  "MASTERDOWN_INT v = 3 * uint (master_adv_int v) + SKEW_TIME v"

definition VRRP_SET_ADV_TIMER :: "os \<Rightarrow> vrrp \<Rightarrow> world \<Rightarrow> vrrp \<times> world" where
  "VRRP_SET_ADV_TIMER os v w =
     (case vrrp_timer_set os (adv_timer v)
         (if version v = 3 then 0 else uint (adv_int v))
         (if version v = 3 then uint (master_adv_int v) else 0) w of
        (_, t, w') \<Rightarrow> (v\<lparr>adv_timer := t\<rparr>, w'))"

definition VRRP_SET_MASTERDOWN_TIMER :: "os \<Rightarrow> vrrp \<Rightarrow> world \<Rightarrow> vrrp \<times> world" where
  "VRRP_SET_MASTERDOWN_TIMER os v w =
     (case vrrp_timer_set os (masterdown_timer v)
         (if version v = 3 then 0 else MASTERDOWN_INT v)
         (if version v = 3 then MASTERDOWN_INT v else 0) w of
        (_, t, w') \<Rightarrow> (v\<lparr>masterdown_timer := t\<rparr>, w'))"

definition VRRP_SET_SKEW_TIME :: "os \<Rightarrow> vrrp \<Rightarrow> world \<Rightarrow> vrrp \<times> world" where
  "VRRP_SET_SKEW_TIME os v w =
     (case vrrp_timer_set os (masterdown_timer v)
         (if version v = 3 then 0 else SKEW_TIME v)
         (if version v = 3 then SKEW_TIME v else 0) w of
        (_, t, w') \<Rightarrow> (v\<lparr>masterdown_timer := t\<rparr>, w'))"

definition VRRP_SET_STARTDELAY_TIMER :: "os \<Rightarrow> vrrp \<Rightarrow> world \<Rightarrow> vrrp \<times> world" where
  "VRRP_SET_STARTDELAY_TIMER os v w =
     (case vrrp_timer_set os (masterdown_timer v)
         (if version v = 3 then 0 else uint (start_delay v))
         (if version v = 3 then uint (start_delay v) else 0) w of
        (_, t, w') \<Rightarrow> (v\<lparr>masterdown_timer := t\<rparr>, w'))"

section \<open>Time in nanoseconds\<close>

definition nanos :: "timespec \<Rightarrow> int" where
  "nanos t = tv_sec t * NANOUL + tv_nsec t"

text \<open>
  A reading of \<open>CLOCK_MONOTONIC_RAW\<close>: normalised, and after the boot (so not 0).
\<close>

definition clock_reading :: "timespec \<Rightarrow> bool" where
  "clock_reading t \<longleftrightarrow> 0 < tv_sec t \<and> 0 \<le> tv_nsec t \<and> tv_nsec t < NANOUL"

lemma NANOUL_pos: "0 < NANOUL"
  by (simp add: NANOUL_def)

lemma carry_up:
  fixes a b :: int
  assumes "a < b"
  defines "n \<equiv> (b - a) div NANOUL + 1"
  shows "0 < a - (b - NANOUL * n)" and "a - (b - NANOUL * n) \<le> NANOUL"
proof -
  have "NANOUL * n = (b - a) - (b - a) mod NANOUL + NANOUL"
    by (simp add: n_def distrib_left minus_mod_eq_mult_div)
  moreover have "0 \<le> (b - a) mod NANOUL" "(b - a) mod NANOUL < NANOUL"
    using NANOUL_pos by simp_all
  ultimately show "0 < a - (b - NANOUL * n)" and "a - (b - NANOUL * n) \<le> NANOUL"
    by linarith+
qed

lemma carry_down:
  fixes a b :: int
  defines "n \<equiv> (a - b) div NANOUL"
  shows "0 \<le> a - (b + NANOUL * n)" and "a - (b + NANOUL * n) < NANOUL"
proof -
  have "NANOUL * n = (a - b) - (a - b) mod NANOUL"
    by (simp add: n_def minus_mod_eq_mult_div)
  moreover have "0 \<le> (a - b) mod NANOUL" "(a - b) mod NANOUL < NANOUL"
    using NANOUL_pos by simp_all
  ultimately show "0 \<le> a - (b + NANOUL * n)" and "a - (b + NANOUL * n) < NANOUL"
    by linarith+
qed

lemma carry_nanos [simp]:
  "nanos (carry_borrow x y) = nanos y" "nanos (carry_excess x y) = nanos y"
  by (simp_all add: carry_borrow_def carry_excess_def nanos_def Let_def algebra_simps)

lemma carry_borrow_le: "tv_nsec (carry_borrow x y) \<le> tv_nsec x"
  using carry_up(1) [of "tv_nsec x" "tv_nsec y"] by (auto simp: carry_borrow_def Let_def)

lemma carry_excess_range:
  assumes "tv_nsec y \<le> tv_nsec x"
  shows "0 \<le> tv_nsec x - tv_nsec (carry_excess x y)"
    and "tv_nsec x - tv_nsec (carry_excess x y) \<le> NANOUL"
  using assms carry_down [of "tv_nsec x" "tv_nsec y"] by (simp_all add: carry_excess_def Let_def)

lemma substract_nanos:
  assumes "timespec_substract x y = (neg, d, y')"
  shows "nanos d = nanos x - nanos y"
    and "0 \<le> tv_nsec d" and "tv_nsec d \<le> NANOUL"
    and "tv_sec y' + tv_sec d = tv_sec x" and "tv_nsec y' + tv_nsec d = tv_nsec x"
    and "neg \<longleftrightarrow> tv_sec d < 0"
proof -
  have y': "y' = carry_excess x (carry_borrow x y)"
    and d: "d = \<lparr>tv_sec = tv_sec x - tv_sec y', tv_nsec = tv_nsec x - tv_nsec y'\<rparr>"
    and neg: "neg \<longleftrightarrow> tv_sec x < tv_sec y'"
    using assms by (auto simp: timespec_substract_def Let_def)
  have "nanos y' = nanos y" by (simp add: y')
  then show "nanos d = nanos x - nanos y" by (simp add: d nanos_def algebra_simps)
  show "0 \<le> tv_nsec d" "tv_nsec d \<le> NANOUL"
    using carry_excess_range [OF carry_borrow_le, of x y] by (simp_all add: d y')
  show "tv_sec y' + tv_sec d = tv_sec x" "tv_nsec y' + tv_nsec d = tv_nsec x"
    and "neg \<longleftrightarrow> tv_sec d < 0"
    by (simp_all add: d neg)
qed

section \<open>The contract of a deadline timer\<close>

text \<open>
  \<open>good\<close> says that the clock can be read.  A cleared timer is not running, a set timer
  is, and an update does not change that.
\<close>

locale deadline_timer =
  fixes good :: "'o \<Rightarrow> bool"
    and set_t :: "'o \<Rightarrow> 't \<Rightarrow> int \<Rightarrow> int \<Rightarrow> 'w \<Rightarrow> int \<times> 't \<times> 'w"
    and clear_t :: "'t \<Rightarrow> 't"
    and running_t :: "'t \<Rightarrow> bool"
    and update_t :: "'o \<Rightarrow> 't \<Rightarrow> 'w \<Rightarrow> int \<times> 't \<times> 'w"
  assumes clear_stops: "\<not> running_t (clear_t t)"
    and set_starts: "good o1 \<Longrightarrow> 0 \<le> d \<Longrightarrow> 0 \<le> c \<Longrightarrow> set_t o1 t d c w = (r, t', w') \<Longrightarrow> running_t t'"
    and update_keeps: "update_t o1 t w = (r, t', w') \<Longrightarrow> running_t t' = running_t t"
begin

text \<open>Handing over from one timer to the other leaves exactly one running.\<close>

lemma handover:
  assumes "good o1" and "0 \<le> d" and "0 \<le> c" and "set_t o1 t d c w = (r, t', w')"
  shows "running_t t' \<and> \<not> running_t (clear_t u)"
  using assms clear_stops set_starts by blast

lemma update_running: "running_t t \<Longrightarrow> running_t (fst (snd (update_t o1 t w)))"
  by (metis fst_conv prod_cases3 snd_conv update_keeps)

end

definition clock_ok :: "os \<Rightarrow> bool" where
  "clock_ok os \<longleftrightarrow> (\<forall>n. case os_clock os n of None \<Rightarrow> False | Some t \<Rightarrow> clock_reading t)"

lemma clock_okE:
  assumes "clock_ok os"
  obtains t where "os_clock os n = Some t" and "clock_reading t"
  using assms by (auto simp: clock_ok_def split: option.splits)

lemma clear_member_simp [simp]: "clear_member t = \<lparr>ts = timespec_zero, delta = timespec_zero\<rparr>"
  by (simp add: clear_member_def vrrp_timer_clear_def)

lemma update_ts: "vrrp_timer_update os t w = (r, t', w') \<Longrightarrow> ts t' = ts t"
  by (auto simp: vrrp_timer_update_def clock_gettime_def substract_nanos
      split: option.splits prod.splits if_splits)

interpretation vt: deadline_timer clock_ok vrrp_timer_set clear_member vrrp_timer_is_running
  vrrp_timer_update
proof
  show "\<not> vrrp_timer_is_running (clear_member t)" for t
    by (simp add: vrrp_timer_is_running_def timespec_zero_def)
next
  fix os t d c w r t' w'
  assume "clock_ok os" "0 \<le> d" "0 \<le> c" and set: "vrrp_timer_set os t d c w = (r, t', w')"
  then obtain now where "os_clock os (tick w) = Some now" "clock_reading now"
    by (blast elim: clock_okE)
  with set \<open>0 \<le> d\<close> show "vrrp_timer_is_running t'"
    by (auto simp: vrrp_timer_set_def clock_gettime_def vrrp_timer_is_running_def clock_reading_def)
next
  fix os t w r t' w'
  assume "vrrp_timer_update os t w = (r, t', w')"
  then show "vrrp_timer_is_running t' = vrrp_timer_is_running t"
    by (simp add: vrrp_timer_is_running_def update_ts)
qed

section \<open>Set and update on a readable clock\<close>

lemma set_deadline:
  assumes "os_clock os (tick w) = Some now" and "vrrp_timer_set os t d c w = (r, t', w')"
  shows "nanos (ts t') = nanos now + d * NANOUL + c * CENTUL"
    and "ts t' = \<lparr>tv_sec = tv_sec now + d, tv_nsec = tv_nsec now + c * CENTUL\<rparr>"
    and "r = 0" and "w' = syscall w"
  using assms by (auto simp: vrrp_timer_set_def clock_gettime_def nanos_def algebra_simps)

lemma update_world: "vrrp_timer_update os t w = (r, t', w') \<Longrightarrow> w' = syscall w"
  by (auto simp: vrrp_timer_update_def clock_gettime_def split: option.splits prod.splits if_splits)

lemma update_result:
  assumes "os_clock os (tick w) = Some now" and "vrrp_timer_update os t w = (r, t', w')"
  shows "r = (if tv_sec (delta t') < 0 then 1 else 0)"
    and "nanos (delta t') = nanos (ts t) - nanos now"
    and "0 \<le> tv_nsec (delta t')" and "tv_nsec (delta t') \<le> NANOUL"
  using assms substract_nanos [of "ts t" now]
  by (auto simp: vrrp_timer_update_def clock_gettime_def split: prod.splits if_splits)

section \<open>Properties\<close>

text \<open>
  \<open>vrrp_timer_update\<close> is exact: on any timer and any clock reading it keeps the
  deadline, stores the signed time that remains (in nanoseconds), returns 1 only when
  the deadline has been reached and 0 only when it has not passed.
\<close>

lemma vrrp_timer_update_exact:
  assumes "os_clock os (tick w) = Some now"
    and "vrrp_timer_update os t w = (r, t', w')"
  shows "ts t' = ts t \<and> nanos (delta t') = nanos (ts t) - nanos now
    \<and> 0 \<le> tv_nsec (delta t') \<and> tv_nsec (delta t') \<le> NANOUL
    \<and> (r = 1 \<and> nanos (ts t) \<le> nanos now \<or> r = 0 \<and> nanos now \<le> nanos (ts t))
    \<and> w' = syscall w"
proof -
  note d = update_result [OF assms]
  have "tv_sec (delta t') < 0 \<Longrightarrow> nanos (delta t') \<le> 0"
    and "\<not> tv_sec (delta t') < 0 \<Longrightarrow> 0 \<le> nanos (delta t')"
    using d(3,4) by (auto simp: nanos_def NANOUL_def)
  with d update_ts [OF assms(2)] update_world [OF assms(2)] show ?thesis by auto
qed

text \<open>
  C24. A timer fires at its deadline and not before: after \<open>vrrp_timer_set\<close> at one clock
  reading, \<open>vrrp_timer_is_expired\<close> at a second reading answers true when the delay has
  passed and false when it has not.
\<close>

theorem timer_fires_at_deadline:
  assumes "os_clock os (tick w) = Some n0" and "clock_reading n0" and "0 \<le> d" and "0 \<le> c"
    and "vrrp_timer_set os t d c w = (r, t', w')"
    and "os_clock os (tick w2) = Some n1"
    and "vrrp_timer_is_expired os t' w2 = (e, t'', w3)"
  shows "(nanos n0 + d * NANOUL + c * CENTUL < nanos n1 \<longrightarrow> e)
    \<and> (nanos n1 < nanos n0 + d * NANOUL + c * CENTUL \<longrightarrow> \<not> e)"
proof -
  obtain q u where upd: "vrrp_timer_update os t' w2 = (q, t'', u)"
    and e: "e \<longleftrightarrow> q \<noteq> 0 \<or> (tv_sec (ts t'') \<le> 0 \<and> tv_nsec (ts t'') \<le> 0)"
    using assms(7) by (auto simp: vrrp_timer_is_expired_def split: prod.splits)
  have pos: "0 < tv_sec (ts t'')"
    using set_deadline(2) [OF assms(1,5)] update_ts [OF upd] assms(2,3)
    by (simp add: clock_reading_def)
  note d = update_result [OF assms(6) upd] set_deadline(1) [OF assms(1,5)]
  have "nanos (delta t'') < 0 \<Longrightarrow> q = 1" and "0 < nanos (delta t'') \<Longrightarrow> q = 0"
    using d(1,3,4) by (auto simp: nanos_def NANOUL_def split: if_splits)
  with d(2,5) e pos show ?thesis by auto
qed

theorem timer_fires_at_deadline_witness:
  "case vrrp_timer_set quiet_os \<lparr>ts = timespec_zero, delta = timespec_zero\<rparr> 0 250 world0 of
     (r, t', w') \<Rightarrow> \<not> fst (vrrp_timer_is_expired quiet_os t' w')"
proof -
  let ?n = "\<lparr>tv_sec = 5, tv_nsec = 0\<rparr>"
  obtain r t' w' where set: "vrrp_timer_set quiet_os \<lparr>ts = timespec_zero, delta = timespec_zero\<rparr> 0 250 world0
    = (r, t', w')" by (metis prod_cases3)
  obtain e t'' w3 where ex: "vrrp_timer_is_expired quiet_os t' w' = (e, t'', w3)"
    by (metis prod_cases3)
  have "\<not> e"
    using timer_fires_at_deadline [OF _ _ _ _ set _ ex, of ?n ?n]
    by (simp add: quiet_os_def clock_reading_def NANOUL_def CENTUL_def)
  then show ?thesis by (simp add: set ex)
qed

text \<open>In VRRPv3 the skew time is a share of the master's interval.\<close>

lemma masterdown_v3:
  assumes "version v = RFC5798"
  shows "0 \<le> SKEW_TIME v \<and> SKEW_TIME v \<le> uint (master_adv_int v)
    \<and> 3 * uint (master_adv_int v) \<le> MASTERDOWN_INT v
    \<and> MASTERDOWN_INT v \<le> 4 * uint (master_adv_int v)
    \<and> (\<forall>p. priority v \<le> p \<longrightarrow> MASTERDOWN_INT (v\<lparr>priority := p\<rparr>) \<le> MASTERDOWN_INT v)"
proof -
  let ?m = "uint (master_adv_int v)"
  have m: "0 \<le> ?m" and p: "0 \<le> uint (priority v)" "uint (priority v) \<le> 255"
    using uint_lt2p [of "priority v"] by auto
  have "0 \<le> (256 - uint (priority v)) * ?m" using m p by simp
  moreover have "(256 - uint (priority v)) * ?m \<le> ?m * 256"
    using mult_right_mono [of "256 - uint (priority v)" 256 ?m] m p by simp
  ultimately have bounds: "0 \<le> SKEW_TIME v" "SKEW_TIME v \<le> ?m"
    using assms zdiv_mono1 [of "(256 - uint (priority v)) * ?m" "?m * 256" 256]
    by (simp_all add: SKEW_TIME_def)
  have "SKEW_TIME (v\<lparr>priority := q\<rparr>) \<le> SKEW_TIME v" if "priority v \<le> q" for q
  proof -
    have "(256 - uint q) * ?m \<le> (256 - uint (priority v)) * ?m"
      using that m by (intro mult_right_mono) (simp_all add: word_le_def)
    then show ?thesis using assms by (simp add: SKEW_TIME_def zdiv_mono1)
  qed
  with bounds show ?thesis by (simp add: MASTERDOWN_INT_def)
qed

text \<open>In VRRPv2 it is computed in whole seconds.\<close>

lemma masterdown_v2:
  assumes "version v = RFC3768"
  shows "SKEW_TIME v = (if priority v = 0 then 1 else 0)"
proof (cases "priority v = 0")
  case False
  then have "0 < uint (priority v)" using uint_0_iff [of "priority v"] uint_ge_0 [of "priority v"] by linarith
  moreover have "uint (priority v) < 256" using uint_bounded [of "priority v"] by simp
  ultimately have "(256 - uint (priority v)) div 256 = 0" by simp
  then show ?thesis using assms False by (simp add: SKEW_TIME_def)
qed (use assms in \<open>simp add: SKEW_TIME_def\<close>)

text \<open>
  C25. The intervals: a backup waits at least three master intervals, and of two routers that follow
  the same master the one with the higher priority never waits longer.  In VRRPv3 the
  skew time lies between 0 and one interval.  In VRRPv2 it is computed in whole seconds and
  vanishes for every priority above 0: all backups wait exactly three intervals, whatever their
  priorities.
\<close>

theorem masterdown_interval:
  assumes "version v = RFC3768 \<or> version v = RFC5798"
  shows "3 * uint (master_adv_int v) \<le> MASTERDOWN_INT v
    \<and> (\<forall>p. priority v \<le> p \<longrightarrow> MASTERDOWN_INT (v\<lparr>priority := p\<rparr>) \<le> MASTERDOWN_INT v)
    \<and> (version v = RFC5798 \<longrightarrow> 0 \<le> SKEW_TIME v \<and> SKEW_TIME v \<le> uint (master_adv_int v)
         \<and> MASTERDOWN_INT v \<le> 4 * uint (master_adv_int v))
    \<and> (version v = RFC3768 \<longrightarrow> (priority v \<noteq> 0 \<longrightarrow> MASTERDOWN_INT v = 3 * uint (master_adv_int v))
         \<and> (priority v = 0 \<longrightarrow> MASTERDOWN_INT v = 3 * uint (master_adv_int v) + 1))"
proof (cases "version v = RFC5798")
  case True
  then show ?thesis using masterdown_v3 [OF True] by simp
next
  case False
  then have 2: "version v = RFC3768" using assms by simp
  then have "SKEW_TIME (v\<lparr>priority := p\<rparr>) = (if p = 0 then 1 else 0)" for p
    using masterdown_v2 [of "v\<lparr>priority := p\<rparr>"] by simp
  then show ?thesis using masterdown_v2 [OF 2] False by (simp add: MASTERDOWN_INT_def)
qed

theorem masterdown_interval_witness:
  "MASTERDOWN_INT vrrp0 \<le> 400 \<and> MASTERDOWN_INT (vrrp0\<lparr>version := 2\<rparr>) = 300"
  using masterdown_interval [of vrrp0] masterdown_interval [of "vrrp0\<lparr>version := 2\<rparr>"] by (simp add: vrrp0_def)

text \<open>
  The second carry of \<open>timespec_substract\<close> tests \<open>> NANOUL\<close>: when exactly one second
  separates the nanosecond fields, the difference is left with \<open>tv_nsec = 10^9\<close>,
  which \<open>pselect\<close> rejects.
\<close>

lemma substract_denormalised:
  "timespec_substract \<lparr>tv_sec = 5, tv_nsec = 1000000000\<rparr> \<lparr>tv_sec = 5, tv_nsec = 0\<rparr>
     = (False, \<lparr>tv_sec = 0, tv_nsec = 1000000000\<rparr>, \<lparr>tv_sec = 5, tv_nsec = 0\<rparr>)"
  by (simp add: timespec_substract_def carry_borrow_def carry_excess_def NANOUL_def)

end
