(* ===== verification/Vrrp_Common.thy ===== *)
theory Vrrp_Common
  imports Vrrp_Types
begin

text \<open>
  The string and file helpers of \<^verbatim>\<open>common.h\<close>: exact string comparison, number
  parsing over \<open>strtoull\<close> with base detection, the test for an executable file, and
  the split of an address from its prefix length.  C strings are characters without
  the terminator; \<open>cstr\<close> adds it where the code reads memory.
\<close>

section \<open>Strings in memory\<close>

abbreviation NUL :: char where "NUL \<equiv> CHR 0x00"

definition cstr :: "string \<Rightarrow> string" where
  "cstr s = s @ [NUL]"

text \<open>
  \<open>matches(s, c_str)\<close> is \<open>memcmp(s, c_str, sizeof(c_str)) == 0\<close>: the terminator of the
  literal is compared too.  \<open>s\<close> is the memory from the pointer on.
\<close>

definition matches :: "string \<Rightarrow> string \<Rightarrow> bool" where
  "matches s c \<longleftrightarrow> take (Suc (length c)) s = cstr c"

fun memcmp :: "bytes \<Rightarrow> bytes \<Rightarrow> int" where
  "memcmp (a # as) (b # bs) = (if a = b then memcmp as bs else uint a - uint b)"
| "memcmp _ _ = 0"

section \<open>Numbers\<close>

definition isspace :: "char \<Rightarrow> bool" where
  "isspace c \<longleftrightarrow> c \<in> {CHR '' '', CHR 0x09, CHR 0x0A, CHR 0x0B, CHR 0x0C, CHR 0x0D}"

definition digit_val :: "char \<Rightarrow> nat" where
  "digit_val c = (let n = of_char c :: nat in
     if 48 \<le> n \<and> n \<le> 57 then n - 48
     else if 97 \<le> n \<and> n \<le> 122 then n - 87
     else if 65 \<le> n \<and> n \<le> 90 then n - 55
     else 255)"

definition digits_value :: "nat \<Rightarrow> string \<Rightarrow> nat" where
  "digits_value base ds = foldl (\<lambda>a c. a * base + digit_val c) 0 ds"

text \<open>
  \<open>strtoull(str, &endptr, 0)\<close>: the value, the text at \<open>endptr\<close>, and whether \<open>errno\<close>
  is \<open>ERANGE\<close>.  Without digits \<open>endptr\<close> is \<open>str\<close>.
\<close>

definition strtoull_base :: "string \<Rightarrow> nat \<times> string" where
  "strtoull_base s =
     (case s of
        z # x # d # r \<Rightarrow>
          if z = CHR ''0'' \<and> (x = CHR ''x'' \<or> x = CHR ''X'') \<and> digit_val d < 16
          then (16, d # r) else if z = CHR ''0'' then (8, s) else (10, s)
      | z # r \<Rightarrow> if z = CHR ''0'' then (8, s) else (10, s)
      | [] \<Rightarrow> (10, s))"

definition strtoull :: "string \<Rightarrow> nat \<times> string \<times> bool" where
  "strtoull str =
     (let s = dropWhile isspace str;
          neg = (s \<noteq> [] \<and> hd s = CHR ''-'');
          s1 = (if s \<noteq> [] \<and> (hd s = CHR ''-'' \<or> hd s = CHR ''+'') then tl s else s);
          (base, s2) = strtoull_base s1;
          ds = takeWhile (\<lambda>c. digit_val c < base) s2;
          n = digits_value base ds
      in if ds = [] then (0, str, False)
         else if n \<ge> 2 ^ 64 then (2 ^ 64 - 1, drop (length ds) s2, True)
         else ((if neg then (2 ^ 64 - n) mod 2 ^ 64 else n), drop (length ds) s2, False))"

datatype c_error = ERANGE | EINVAL | EFAIL

definition LONG_MAX :: nat where "LONG_MAX = 2 ^ 63 - 1"

definition mystrtoul :: "string \<Rightarrow> nat \<Rightarrow> c_error + nat" where
  "mystrtoul str mx =
     (case strtoull str of (val, endptr, erange) \<Rightarrow>
        if (val = 0 \<or> val = LONG_MAX) \<and> erange then Inl ERANGE
        else if val > mx then Inl ERANGE
        else if endptr \<noteq> [] then Inl EINVAL
        else Inr val)"

section \<open>Files and addresses\<close>

text \<open>\<open>S_ISREG\<close> and the owner's read and execute bits of \<open>st_mode\<close>.\<close>

definition is_file_executable :: "os \<Rightarrow> string \<Rightarrow> world \<Rightarrow> bool \<times> world" where
  "is_file_executable os filename w =
     (case os_stat os (tick w) filename of
        None \<Rightarrow> (False, syscall w)
      | Some mode \<Rightarrow>
          (mode AND 0xF000 = 0x8000 \<and> mode AND 0x100 \<noteq> 0 \<and> mode AND 0x40 \<noteq> 0, syscall w))"

definition split_ip_netmask :: "os \<Rightarrow> int \<Rightarrow> string \<Rightarrow> c_error + (bytes \<times> u8)" where
  "split_ip_netmask os fam str =
     (let netmask_length = (if fam = AF_INET then 32 else 128);
          addr = takeWhile (\<lambda>c. c \<noteq> CHR ''/'') str;
          tmp = dropWhile (\<lambda>c. c \<noteq> CHR ''/'') str
      in case (if tmp = [] then Inr 0 else mystrtoul (tl tmp) netmask_length) of
           Inl e \<Rightarrow> Inl e
         | Inr ul \<Rightarrow>
             (case os_pton os fam addr of
                None \<Rightarrow> Inl EFAIL
              | Some a \<Rightarrow> Inr (a, of_nat ul)))"

section \<open>String comparison\<close>

lemma take_cstr:
  "NUL \<notin> set s \<Longrightarrow> NUL \<notin> set c \<Longrightarrow> take (Suc (length c)) (s @ NUL # rest) = c @ [NUL] \<longleftrightarrow> s = c"
  by (induction s c rule: list_induct2') (auto simp: take_Cons')

lemma matches_cstr:
  "NUL \<notin> set s \<Longrightarrow> NUL \<notin> set c \<Longrightarrow> matches (cstr s @ rest) c \<longleftrightarrow> s = c"
  using take_cstr [of s c rest] by (simp add: matches_def cstr_def)

lemma memcmp_0: "length xs = length ys \<Longrightarrow> memcmp xs ys = 0 \<longleftrightarrow> xs = ys"
  by (induction xs ys rule: memcmp.induct) (auto simp: word_uint_eq_iff)

lemma memcmp_antisym: "length xs = length ys \<Longrightarrow> 0 < memcmp xs ys \<longleftrightarrow> memcmp ys xs < 0"
  by (induction xs ys rule: memcmp.induct) auto

section \<open>Parsing of decimal numbers\<close>

lemma mystrtoul_le: "mystrtoul s mx = Inr n \<Longrightarrow> n \<le> mx"
  by (auto simp: mystrtoul_def split: prod.splits if_splits)

lemma digit_val_char [simp]: "d < 10 \<Longrightarrow> digit_val (char_of (48 + d)) = d"
  by (simp add: digit_val_def Let_def)

lemma nat_str_digits: "\<forall>c \<in> set (nat_str n). digit_val c < 10"
proof (induction n rule: nat_str.induct)
  case (1 n)
  then show ?case by (subst nat_str.simps) auto
qed

lemma nat_str_value: "digits_value 10 (nat_str n) = n"
proof (induction n rule: nat_str.induct)
  case (1 n)
  then show ?case by (subst nat_str.simps) (simp add: digits_value_def)
qed

lemma nat_str_hd: "0 < n \<Longrightarrow> \<exists>(d :: nat) r. nat_str n = char_of (48 + d) # r \<and> 0 < d \<and> d < 10"
proof (induction n rule: nat_str.induct)
  case (1 n)
  show ?case
  proof (cases "n < 10")
    case True
    then have "nat_str n = [char_of (48 + n)]" by (simp add: nat_str.simps [of n])
    with True "1.prems" show ?thesis by blast
  next
    case False
    then have "0 < n div 10" by (simp add: div_greater_zero_iff)
    with False obtain d :: nat and r
      where "nat_str (n div 10) = char_of (48 + d) # r" "0 < d" "d < 10"
      using "1.IH" by blast
    moreover from this False have "nat_str n = char_of (48 + d) # (r @ [char_of (48 + n mod 10)])"
      by (subst nat_str.simps) simp
    ultimately show ?thesis by blast
  qed
qed

lemma nat_str_0: "nat_str 0 = ''0''"
  by code_simp

lemma digit_char_plain:
  fixes d :: nat
  assumes "d < 10"
  shows "\<not> isspace (char_of (48 + d))"
    and "char_of (48 + d) \<noteq> CHR ''-''" and "char_of (48 + d) \<noteq> CHR ''+''"
    and "0 < d \<Longrightarrow> char_of (48 + d) \<noteq> CHR ''0''"
proof -
  have "d \<in> {0, 1, 2, 3, 4, 5, 6, 7, 8, 9}" using assms by auto
  then show "\<not> isspace (char_of (48 + d))"
    and "char_of (48 + d) \<noteq> CHR ''-''" and "char_of (48 + d) \<noteq> CHR ''+''"
    and "0 < d \<Longrightarrow> char_of (48 + d) \<noteq> CHR ''0''"
    by (auto simp: isspace_def char_of_def)
qed

lemmas parse_defs = mystrtoul_def strtoull_def strtoull_base_def isspace_def digit_val_def
  digits_value_def LONG_MAX_def Let_def

lemma mystrtoul_nat_str:
  assumes "mx < 2 ^ 64 - 1"
  shows "mystrtoul (nat_str n) mx = (if n \<le> mx then Inr n else Inl ERANGE)"
proof -
  have st: "strtoull (nat_str n) = (if n \<ge> 2 ^ 64 then (2 ^ 64 - 1, [], True) else (n, [], False))"
  proof (cases "n = 0")
    case True
    then show ?thesis
      by (simp add: nat_str_0 parse_defs)
  next
    case False
    then obtain d :: nat and r where dr: "nat_str n = char_of (48 + d) # r" "0 < d" "d < 10"
      using nat_str_hd by blast
    have tw: "takeWhile (\<lambda>c. digit_val c < 10) (nat_str n) = nat_str n"
      using nat_str_digits by (simp add: takeWhile_eq_all_conv)
    have base: "strtoull_base (nat_str n) = (10, nat_str n)"
      using dr digit_char_plain(4) [OF dr(3,2)] by (simp add: strtoull_base_def split: list.split)
    have "dropWhile isspace (nat_str n) = nat_str n" "nat_str n \<noteq> []"
      "hd (nat_str n) \<noteq> CHR ''-''" "hd (nat_str n) \<noteq> CHR ''+''"
      using dr digit_char_plain [OF dr(3)] by simp_all
    with base show ?thesis by (simp add: strtoull_def Let_def tw nat_str_value)
  qed
  show ?thesis
  proof (cases "2 ^ 64 \<le> n")
    case True
    then have "strtoull (nat_str n) = (2 ^ 64 - 1, [], True)" by (simp only: st if_True)
    moreover from True assms have "\<not> n \<le> mx" by linarith
    ultimately show ?thesis using assms by (simp only: mystrtoul_def prod.case if_False) simp
  next
    case False
    then show ?thesis by (simp only: mystrtoul_def st prod.case if_False) auto
  qed
qed

text \<open>
  C29. Numbers round-trip: the decimal text of any number up to the limit is parsed to that
  number, and the decimal text of a larger one is refused as out of range.
\<close>
theorem mystrtoul_decimal:
  assumes "mx < 2 ^ 64 - 1"
  shows "mystrtoul (nat_str n) mx = (if n \<le> mx then Inr n else Inl ERANGE)"
  using assms by (rule mystrtoul_nat_str)

theorem mystrtoul_decimal_witness:
  "mystrtoul (nat_str 90) 255 = Inr 90 \<and> mystrtoul (nat_str 256) 255 = Inl ERANGE"
  using mystrtoul_decimal [of 255 90] mystrtoul_decimal [of 255 256] by simp

text \<open>Base detection, and the texts the parser accepts beyond decimal numbers.\<close>

lemma mystrtoul_examples:
  "mystrtoul ''0x2a'' 255 = Inr 42" "mystrtoul ''052'' 255 = Inr 42"
  "mystrtoul ''90x'' 255 = Inl EINVAL" "mystrtoul ''-1'' 255 = Inl ERANGE"
  "mystrtoul [] 255 = Inr 0"
  by (simp_all add: parse_defs)

section \<open>Hexadecimal dump\<close>

text \<open>
  \<open>print_buf_hexa\<close>, a helper of builds with \<open>DEBUG\<close>: \<open>%02X\<close> per byte, four to a line.  The counter
  is an \<open>uint8_t\<close> and is compared with a \<open>size_t\<close>; \<open>buf\<close> has the announced size.
\<close>

definition hex_digit :: "nat \<Rightarrow> char" where
  "hex_digit d = char_of (if d < 10 then 48 + d else 55 + d)"

definition hex2 :: "u8 \<Rightarrow> string" where
  "hex2 b = [hex_digit (unat b div 16), hex_digit (unat b mod 16)]"

partial_function (option) hexa_loop :: "bytes \<Rightarrow> nat \<Rightarrow> u8 \<Rightarrow> nat \<Rightarrow> string \<Rightarrow> string option" where
  "hexa_loop buf x i j out =
     (if unat i < x
      then let out1 = (if j = 4 then out @ [CHR 0x0A] else out);
               j1 = (if j = 4 then 0 else j);
               out2 = (if 0 < j1 then out1 @ '':'' else out1)
           in hexa_loop buf x (i + 1) (j1 + 1) (out2 @ hex2 (buf ! unat i))
      else Some out)"

definition print_buf_hexa :: "string \<Rightarrow> bytes \<Rightarrow> nat \<Rightarrow> string option" where
  "print_buf_hexa str buf x =
     (case hexa_loop buf x 0 0 (''*** '' @ str @ '' ***'' @ [CHR 0x0A]) of
        None \<Rightarrow> None | Some out \<Rightarrow> Some (out @ [CHR 0x0A]))"

text \<open>The text in front of byte \<open>k\<close>.\<close>

definition hexa_sep :: "nat \<Rightarrow> string" where
  "hexa_sep k = (if k = 0 then [] else if k mod 4 = 0 then [CHR 0x0A] else '':'')"

lemma hexa_loop_ends:
  assumes "k \<le> x" and "x \<le> 255" and "j = (if k = 0 then 0 else Suc ((k - 1) mod 4))"
  shows "hexa_loop buf x (of_nat k) j out
    = Some (out @ concat (map (\<lambda>i. hexa_sep i @ hex2 (buf ! i)) [k..<x]))"
  using assms
proof (induction "x - k" arbitrary: k j out)
  case 0
  then show ?case by (subst hexa_loop.simps) (simp add: unat_of_nat)
next
  case (Suc m)
  have u: "unat (of_nat k :: u8) = k" using Suc.prems Suc.hyps(2) by (simp add: unat_of_nat)
  have j: "(j = 4) = (k \<noteq> 0 \<and> k mod 4 = 0)" "(j = 0) = (k = 0)"
    "Suc (if j = 4 then 0 else j) = Suc (k mod 4)"
    using Suc.prems(3) by (cases k; simp add: mod_Suc)+
  have "hexa_loop buf x (of_nat k) j out
      = hexa_loop buf x (of_nat (Suc k)) (Suc (k mod 4)) (out @ hexa_sep k @ hex2 (buf ! k))"
    using Suc.hyps(2) u j by (subst hexa_loop.simps) (auto simp: Let_def hexa_sep_def add.commute)
  also have "\<dots> = Some ((out @ hexa_sep k @ hex2 (buf ! k))
      @ concat (map (\<lambda>i. hexa_sep i @ hex2 (buf ! i)) [Suc k..<x]))"
    using Suc.prems Suc.hyps(2) by (intro Suc.hyps(1)) auto
  finally show ?case using Suc.hyps(2) by (simp add: upt_conv_Cons)
qed

lemma hexa_loop_forever: "256 \<le> x \<Longrightarrow> hexa_loop buf x i j out = None"
proof (rule ccontr)
  assume x: "256 \<le> x" and "hexa_loop buf x i j out \<noteq> None"
  then obtain r where r: "hexa_loop buf x i j out = Some r" by auto
  have "256 \<le> x \<longrightarrow> False"
  proof (rule hexa_loop.raw_induct [where xa = "((((buf, x), i), j), out)" and y = r
        and P = "\<lambda>_ x _ _ _ _. 256 \<le> x \<longrightarrow> False", unfolded prod.case, OF _ r], intro impI)
    fix loop :: "bytes \<Rightarrow> nat \<Rightarrow> u8 \<Rightarrow> nat \<Rightarrow> string \<Rightarrow> string option" and buf x i j out r
    assume IH: "\<And>buf x i j out r. loop buf x i j out = Some r \<Longrightarrow> 256 \<le> x \<longrightarrow> False"
      and body: "(if unat i < x
          then let out1 = (if j = 4 then out @ [CHR 0x0A] else out); j1 = (if j = 4 then 0 else j);
                   out2 = (if 0 < j1 then out1 @ '':'' else out1)
               in loop buf x (i + 1) (j1 + 1) (out2 @ hex2 (buf ! unat i))
          else Some out) = Some r" and x: "256 \<le> (x :: nat)"
    have "unat i < x" using unat_u8_less [of i] x by linarith
    with body x IH show False by (simp add: Let_def)
  qed
  with x show False by simp
qed

text \<open>Up to 255 bytes are printed, four to a line; from 256 bytes on the counter wraps and the dump never ends.\<close>

lemma print_buf_hexa_result:
  "print_buf_hexa str buf x =
     (if x \<le> 255 then Some (''*** '' @ str @ '' ***'' @ [CHR 0x0A]
          @ concat (map (\<lambda>i. hexa_sep i @ hex2 (buf ! i)) [0..<x]) @ [CHR 0x0A])
      else None)"
  using hexa_loop_ends [of 0 x 0 buf] hexa_loop_forever [of x buf 0 0] by (simp add: print_buf_hexa_def)

end
