(* ===== verification/Vrrp_Cksum.thy ===== *)
theory Vrrp_Cksum
  imports Vrrp_Prelude
begin

text \<open>
  The Internet checksum \<open>cksum\<close> of \<^verbatim>\<open>common.h\<close>, with its native 16-bit loads and its
  32-bit accumulator, and the reference algorithm of RFC 1071 on network-order
  words.  The optimised routine is shown equal to the reference, and storing the
  computed value makes a later verification return 0.
\<close>

section \<open>The routine of the code\<close>

text \<open>
  \<open>buf\<close> is the memory from the pointer on.  A trailing odd byte is fetched with a
  16-bit load, so the byte after it is read (and summed) too; a load past the end
  of the memory is \<open>None\<close>.
\<close>

fun cksum_loop :: "bytes \<Rightarrow> nat \<Rightarrow> u32 \<Rightarrow> u32 option" where
  "cksum_loop buf nbytes s =
     (if nbytes > 1 then
        (case buf of a # b # rest \<Rightarrow> cksum_loop rest (nbytes - 2) (s + ucast (le16 a b))
         | _ \<Rightarrow> None)
      else if nbytes = 1 then
        (case buf of a # b # rest \<Rightarrow> Some (s + ucast (le16 a b)) | _ \<Rightarrow> None)
      else Some s)"

declare cksum_loop.simps [simp del]

definition cksum_fold :: "u32 \<Rightarrow> u16" where
  "cksum_fold s =
     (let s1 = drop_bit 16 s + (s AND 0xffff);
          s2 = s1 + drop_bit 16 s1
      in ucast (NOT s2))"

definition cksum :: "bytes \<Rightarrow> nat \<Rightarrow> u16 option" where
  "cksum buf nbytes = map_option cksum_fold (cksum_loop buf nbytes 0)"

section \<open>The reference algorithm (RFC 1071)\<close>

fun be_words :: "bytes \<Rightarrow> nat list" where
  "be_words [] = []"
| "be_words [a] = [256 * unat a]"
| "be_words (a # b # r) = (256 * unat a + unat b) # be_words r"

definition oc_add :: "nat \<Rightarrow> nat \<Rightarrow> nat" where
  "oc_add x y = (if x + y < 65536 then x + y else x + y - 65535)"

definition rfc1071 :: "bytes \<Rightarrow> nat" where
  "rfc1071 bs = 65535 - fold oc_add (be_words bs) 0"

section \<open>One's complement sums as residues\<close>

text \<open>
  \<open>oc_norm s\<close> is the representative of \<open>s\<close> modulo 65535 in \<open>1..65535\<close>, with 0 only
  for 0: the value end-around carries compute.
\<close>

definition oc_norm :: "nat \<Rightarrow> nat" where
  "oc_norm s = (if s = 0 then 0 else (s - 1) mod 65535 + 1)"

lemma oc_norm_le: "oc_norm s \<le> 65535"
proof -
  have "(s - 1) mod 65535 < 65535" by (rule mod_less_divisor) simp
  then have "(s - 1) mod 65535 + 1 \<le> 65535" by linarith
  then show ?thesis unfolding oc_norm_def by (auto simp only: split: if_split)
qed

lemma oc_norm_0 [simp]: "oc_norm 0 = 0"
  by (simp add: oc_norm_def)

lemma oc_norm_small: "s \<le> 65535 \<Longrightarrow> oc_norm s = s"
  by (cases s) (auto simp: oc_norm_def)

lemma oc_norm_add_mult: "0 < s \<Longrightarrow> oc_norm (s + 65535 * k) = oc_norm s"
  by (cases s) (simp_all add: oc_norm_def)

lemma oc_norm_decomp: "\<exists>k. s = oc_norm s + 65535 * k"
proof (cases "s = 0")
  case True
  then show ?thesis by simp
next
  case False
  then have "s = oc_norm s + 65535 * ((s - 1) div 65535)"
    using mod_mult_div_eq [of "s - 1" 65535] by (simp add: oc_norm_def)
  then show ?thesis ..
qed

lemma oc_norm_pos: "0 < s \<Longrightarrow> 0 < oc_norm s"
  by (simp add: oc_norm_def)

lemma oc_norm_cong: "0 < s \<Longrightarrow> 0 < t \<Longrightarrow> s + 65535 * k = t + 65535 * l \<Longrightarrow> oc_norm s = oc_norm t"
  by (metis oc_norm_add_mult)

lemma oc_norm_add_left: "oc_norm (oc_norm s + t) = oc_norm (s + t)"
proof (cases "oc_norm s + t = 0")
  case True
  then have "s = 0" and "t = 0" using oc_norm_pos [of s] by auto
  then show ?thesis by simp
next
  case False
  obtain k where k: "s = oc_norm s + 65535 * k" using oc_norm_decomp by blast
  have "oc_norm (s + t) = oc_norm ((oc_norm s + t) + 65535 * k)"
    by (subst k) (simp add: algebra_simps)
  also have "\<dots> = oc_norm (oc_norm s + t)"
    using False by (intro oc_norm_add_mult) simp
  finally show ?thesis by simp
qed

lemma oc_add_norm: "x \<le> 65535 \<Longrightarrow> y \<le> 65535 \<Longrightarrow> oc_add x y = oc_norm (x + y)"
  using oc_norm_add_mult [of "x + y - 65535" 1]
  by (auto simp: oc_add_def oc_norm_small)

lemma fold_oc_add:
  "\<forall>w \<in> set ws. w \<le> 65535 \<Longrightarrow> x \<le> 65535 \<Longrightarrow> fold oc_add ws x = oc_norm (x + sum_list ws)"
proof (induction ws arbitrary: x)
  case Nil
  then show ?case by (simp add: oc_norm_small)
next
  case (Cons w ws)
  then show ?case
    by (simp add: oc_add_norm oc_norm_le oc_norm_add_left add.left_commute add.assoc)
qed

section \<open>The accumulator of the code\<close>

fun le_sum :: "bytes \<Rightarrow> nat" where
  "le_sum (a # b # r) = unat (le16 a b) + le_sum r"
| "le_sum _ = 0"

lemma le_sum_append: "even (length xs) \<Longrightarrow> le_sum (xs @ ys) = le_sum xs + le_sum ys"
  by (induction xs rule: le_sum.induct) auto

lemma le_sum_bound: "le_sum bs \<le> 65535 * (length bs div 2)"
proof (induction bs rule: le_sum.induct)
  case (1 a b r)
  have "unat (le16 a b) < 65536" by (rule unat_u16_less)
  with 1 show ?case by (simp del: unat_u16_less)
qed auto

lemma of_nat_ucast_u32: "(of_nat (unat (x :: u16)) :: u32) = ucast x"
  by (simp add: word_unat_eq_iff unsigned_of_nat take_bit_eq_mod)

lemma cksum_loop_even:
  "even (length bs) \<Longrightarrow>
   cksum_loop (bs @ rest) (length bs) s = Some (s + of_nat (le_sum bs))"
proof (induction bs arbitrary: s rule: le_sum.induct)
  case (1 a b r)
  then show ?case
    by (subst cksum_loop.simps) (simp add: add.assoc of_nat_ucast_u32)
qed (simp_all add: cksum_loop.simps)

lemma cksum_le_sum: "even (length bs) \<Longrightarrow>
    cksum (bs @ rest) (length bs) = Some (cksum_fold (of_nat (le_sum bs)))"
  by (simp add: cksum_def cksum_loop_even)

lemma cksum_take: "even n \<Longrightarrow> n \<le> length xs \<Longrightarrow> cksum xs n = cksum (take n xs) n"
  using cksum_le_sum [of "take n xs" "drop n xs"] cksum_le_sum [of "take n xs" "[]"]
  by (simp add: min.absorb2)

lemma cksum_total: "even n \<Longrightarrow> n \<le> length xs \<Longrightarrow> \<exists>c. cksum xs n = Some c"
  using cksum_le_sum [of "take n xs" "drop n xs"] by (simp add: min.absorb2)

lemma unat_low16: "unat (s AND 0xffff :: u32) = unat s mod 65536"
proof -
  have "s AND 0xffff = take_bit 16 s" by (simp add: take_bit_eq_mask mask_eq_exp_minus_1)
  then show ?thesis by (simp add: take_bit_eq_mod unat_mod)
qed

lemma unat_NOT_u16: "unat (NOT x :: u16) = 65535 - unat x"
proof -
  have "NOT x = 65535 - x" by (simp add: not_eq_complement)
  moreover have "unat x \<le> 65535" using unat_u16_less [of x] by linarith
  ultimately show ?thesis by (simp add: unat_sub_if' )
qed

lemma unat_NOT_low: "unat (ucast (NOT s :: u32) :: u16) = 65535 - unat s mod 65536"
proof -
  have "ucast (NOT s) = (NOT (ucast s) :: u16)"
    by (rule bit_word_eqI) (simp add: bit_ucast_iff bit_not_iff)
  moreover have "unat (NOT (ucast s) :: u16) = 65535 - unat (ucast s :: u16)"
    by (simp add: unat_NOT_u16)
  ultimately show ?thesis by simp
qed

lemma fold_step_norm:
  fixes h l :: nat
  assumes "h < 65536" and "l < 65536"
  defines "t \<equiv> h + l"
  shows "(t + t div 65536) mod 65536 = oc_norm (65536 * h + l)"
proof -
  have norm: "oc_norm (65536 * h + l) = oc_norm t"
    using oc_norm_add_mult [of t h] by (cases "t = 0") (simp_all add: t_def algebra_simps)
  show ?thesis
  proof (cases "t < 65536")
    case True
    then show ?thesis by (simp add: norm oc_norm_small)
  next
    case False
    then have d: "t div 65536 = 1" and m: "t + 1 - 65536 < 65536"
      using assms by simp_all
    then have "(t + t div 65536) mod 65536 = t - 65535"
      using False by (simp add: mod_if)
    moreover have "oc_norm t = oc_norm (t - 65535)"
      using False oc_norm_add_mult [of "t - 65535" 1] by simp
    ultimately show ?thesis using m False by (simp add: norm oc_norm_small)
  qed
qed

lemma unat_cksum_fold: "unat (cksum_fold s) = 65535 - oc_norm (unat s)"
proof -
  define h l where "h = unat s div 65536" and "l = unat s mod 65536"
  have hl: "h < 65536" "l < 65536"
    using unat_u32_less [of s] by (simp_all add: h_def l_def del: unat_u32_less)
  let ?s1 = "drop_bit 16 s + (s AND 0xffff)"
  have s1: "unat ?s1 = h + l"
    using hl by (simp add: unat_word_ariths unat_low16 h_def l_def)
  have "h + l + (h + l) div 65536 < 4294967296" using hl by simp
  then have s2: "unat (?s1 + drop_bit 16 ?s1) = (h + l) + (h + l) div 65536"
    using s1 by (simp add: unat_word_ariths)
  have "65536 * h + l = unat s" by (simp add: h_def l_def)
  then show ?thesis
    unfolding cksum_fold_def Let_def unat_NOT_low s2 using fold_step_norm [OF hl] by simp
qed

section \<open>The routine is the reference\<close>

lemma cksum_even:
  assumes "even (length bs)" and "length bs \<le> 131072"
  obtains c where "cksum (bs @ rest) (length bs) = Some c"
    and "unat c = 65535 - oc_norm (le_sum bs)"
proof -
  have "le_sum bs \<le> 65535 * 65536"
    using le_sum_bound [of bs] div_le_mono [OF assms(2), of 2] by linarith
  then have "unat (of_nat (le_sum bs) :: u32) = le_sum bs"
    by (simp add: unsigned_of_nat take_bit_eq_mod)
  with assms(1) that show thesis
    by (simp add: cksum_def cksum_loop_even unat_cksum_fold)
qed

lemma be_words_le_sum:
  "even (length bs) \<Longrightarrow> \<exists>k. 256 * le_sum bs = sum_list (be_words bs) + 65535 * k"
proof (induction bs rule: le_sum.induct)
  case (1 a b r)
  then obtain k where "256 * le_sum r = sum_list (be_words r) + 65535 * k" by auto
  then have "256 * le_sum (a # b # r)
      = sum_list (be_words (a # b # r)) + 65535 * (k + unat b)"
    by (simp add: unat_le16)
  then show ?case ..
qed auto

lemma be_words_bound: "\<forall>w \<in> set (be_words bs). w \<le> 65535"
proof (induction bs rule: be_words.induct)
  case (2 a)
  have "unat a < 256" by (rule unat_u8_less)
  then show ?case by (simp del: unat_u8_less)
next
  case (3 a b r)
  have "unat a < 256" "unat b < 256" by (rule unat_u8_less)+
  with 3 show ?case by (simp del: unat_u8_less)
qed simp

lemma be_words_zero: "even (length bs) \<Longrightarrow> sum_list (be_words bs) = 0 \<longleftrightarrow> le_sum bs = 0"
  by (induction bs rule: le_sum.induct) (auto simp: unat_le16)

lemma unat_htons: "unat (htons x) = 256 * (unat x mod 256) + unat x div 256"
proof -
  have "unat x div 256 < 256"
    using unat_u16_less [of x] by (simp del: unat_u16_less)
  then show ?thesis by (simp add: htons_def unat_le16)
qed

lemma oc_norm_swap: "x \<le> 65535 \<Longrightarrow> oc_norm (256 * x) = 256 * (x mod 256) + x div 256"
proof -
  assume x: "x \<le> 65535"
  let ?y = "256 * (x mod 256) + x div 256"
  have y: "?y \<le> 65535"
    using x div_le_mono [OF x, of 256] mod_less_divisor [of 256 x] by linarith
  have "256 * x = ?y + 65535 * (x div 256)"
    using mult_div_mod_eq [of 256 x] by linarith
  moreover have "?y = 0 \<Longrightarrow> x = 0"
    using mult_div_mod_eq [of 256 x] by linarith
  ultimately show ?thesis
    using y oc_norm_add_mult [of ?y "x div 256"] by (cases "?y = 0") (simp_all add: oc_norm_small)
qed

lemma htons_complement:
  "x \<le> 65535 \<Longrightarrow> unat c = 65535 - x \<Longrightarrow> unat (htons c) = 65535 - (256 * (x mod 256) + x div 256)"
proof -
  assume x: "x \<le> 65535" and c: "unat c = 65535 - x"
  define q r where "q = x div 256" and "r = x mod 256"
  have qr: "x = 256 * q + r" "r < 256" "q < 256"
    using x by (simp_all add: q_def r_def)
  then have "65535 - x = (255 - r) + 256 * (255 - q)" by linarith
  moreover have "((255 - r) + 256 * (255 - q)) mod 256 = 255 - r"
    and "((255 - r) + 256 * (255 - q)) div 256 = 255 - q"
    using qr by (simp_all only: mod_mult_self2 div_mult_self2) simp_all
  ultimately have "(65535 - x) mod 256 = 255 - r" and "(65535 - x) div 256 = 255 - q"
    by simp_all
  then show ?thesis unfolding unat_htons c using qr by (simp flip: q_def r_def)
qed

lemma be_words_norm:
  assumes "even (length bs)"
  shows "oc_norm (sum_list (be_words bs)) = oc_norm (256 * oc_norm (le_sum bs))"
proof (cases "le_sum bs = 0")
  case True
  with be_words_zero [OF assms] have "sum_list (be_words bs) = 0" by (simp only:)
  with True show ?thesis by (simp only: oc_norm_0 mult_0_right)
next
  case False
  obtain k where k: "256 * le_sum bs = sum_list (be_words bs) + 65535 * k"
    using be_words_le_sum assms by blast
  obtain l where l: "le_sum bs = oc_norm (le_sum bs) + 65535 * l"
    using oc_norm_decomp by blast
  have "0 < sum_list (be_words bs)"
    using False by (simp only: neq0_conv [symmetric] be_words_zero [OF assms] not_False_eq_True)
  moreover have "0 < 256 * oc_norm (le_sum bs)" using False oc_norm_pos [of "le_sum bs"] by linarith
  moreover have "sum_list (be_words bs) + 65535 * k
      = 256 * oc_norm (le_sum bs) + 65535 * (256 * l)"
    using k l by linarith
  ultimately show ?thesis by (rule oc_norm_cong)
qed

lemma rfc1071_le_sum:
  assumes "even (length bs)"
  defines "x \<equiv> oc_norm (le_sum bs)"
  shows "rfc1071 bs = 65535 - (256 * (x mod 256) + x div 256)"
  using be_words_norm [OF assms(1)] oc_norm_swap [OF oc_norm_le]
  by (simp add: rfc1071_def fold_oc_add [OF be_words_bound] x_def)

lemma cksum_rfc:
  assumes "even (length bs)" and "length bs \<le> 131072"
  shows "\<exists>c. cksum (bs @ rest) (length bs) = Some c \<and> unat (htons c) = rfc1071 bs"
proof -
  obtain c where c: "cksum (bs @ rest) (length bs) = Some c"
    and uc: "unat c = 65535 - oc_norm (le_sum bs)"
    using cksum_even [OF assms] .
  show ?thesis
    using c htons_complement [OF oc_norm_le uc] rfc1071_le_sum [OF assms(1)] by simp
qed

text \<open>16-bit words may be reordered.\<close>

lemma rfc1071_swap_words:
  assumes "even (length a)" and "length x = 2" and "length y = 2" and "even (length b)"
  shows "rfc1071 (a @ x @ y @ b) = rfc1071 (a @ y @ x @ b)"
  using assms by (simp add: rfc1071_le_sum le_sum_append add.left_commute)

text \<open>
  C20. The checksum of the code is the Internet checksum: on a buffer of even length,
  whatever follows it in memory, the returned value, converted to network order, is
  the RFC 1071 checksum of the bytes.  128 KiB bound the sum below \<open>2^32\<close>; every
  buffer of the daemon is below 64 KiB.
\<close>

theorem cksum_is_rfc1071:
  assumes "even (length bs)" and "length bs \<le> 131072"
  shows "\<exists>c. cksum (bs @ rest) (length bs) = Some c \<and> unat (htons c) = rfc1071 bs"
  by (rule cksum_rfc [OF assms])

theorem cksum_is_rfc1071_witness:
  "\<exists>c. cksum ([0x45, 0x00, 0x12, 0xff] @ [0xaa]) 4 = Some c
     \<and> unat (htons c) = rfc1071 [0x45, 0x00, 0x12, 0xff]"
proof -
  have len: "length [0x45, 0x00, 0x12, 0xff :: u8] = 4" by simp
  show ?thesis
    by (rule cksum_is_rfc1071 [of "[0x45, 0x00, 0x12, 0xff]" "[0xaa]", unfolded len]) simp_all
qed

section \<open>Verification of a stored checksum\<close>

lemma oc_norm_complement: "oc_norm (s + (65535 - oc_norm s)) = 65535"
proof -
  obtain k where "s = oc_norm s + 65535 * k" using oc_norm_decomp by blast
  then have "s + (65535 - oc_norm s) = 65535 + 65535 * k"
    using oc_norm_le [of s] by linarith
  then show ?thesis using oc_norm_add_mult [of 65535 k] by (simp add: oc_norm_small)
qed

lemma le_sum_store16: "le_sum (store16 c @ bs) = unat c + le_sum bs"
  by (simp add: store16_def)

lemma cksum_seal:
  assumes "even (length pre)" and "even (length post)"
    and "length pre + length post \<le> 131070"
    and "cksum (pre @ [0, 0] @ post) (length pre + 2 + length post) = Some c"
  shows "cksum (pre @ store16 c @ post) (length pre + 2 + length post) = Some 0"
proof -
  let ?z = "pre @ [0, 0] @ post" and ?f = "pre @ store16 c @ post"
  have ev: "even (length ?z)" "even (length ?f)" and len: "length ?z \<le> 131072" "length ?f \<le> 131072"
    using assms by simp_all
  have c: "unat c = 65535 - oc_norm (le_sum ?z)"
    using cksum_even [OF ev(1) len(1), of "[]"] assms(4) by simp
  have z: "le_sum ?z = le_sum pre + le_sum post"
    using assms(1) by (simp add: le_sum_append unat_le16)
  have f: "le_sum ?f = le_sum ?z + (65535 - oc_norm (le_sum ?z))"
    using assms(1) c z by (simp add: le_sum_append le_sum_store16)
  obtain d where d: "cksum ?f (length ?f) = Some d" "unat d = 65535 - oc_norm (le_sum ?f)"
    using cksum_even [OF ev(2) len(2), of "[]"] by (metis append_Nil2)
  then have "unat d = 0" unfolding f oc_norm_complement by simp
  then have "d = 0" by (simp add: word_unat_eq_iff)
  with d(1) show ?thesis by simp
qed

text \<open>
  C21. Receivers can verify: when the checksum is computed with its field zeroed and then
  stored in that field, summing the whole buffer again gives 0.
\<close>
theorem cksum_verifies:
  assumes "even (length pre)" and "even (length post)"
    and "length pre + length post \<le> 131070"
    and "cksum (pre @ [0, 0] @ post) (length pre + 2 + length post) = Some c"
  shows "cksum (pre @ store16 c @ post) (length pre + 2 + length post) = Some 0"
  using assms by (rule cksum_seal)

theorem cksum_verifies_witness:
  "cksum ([0x45, 0x00] @ store16 (le16 0x7e 0x54) @ [0x3c, 0xab]) 6 = Some 0"
proof -
  have "cksum ([0x45, 0x00] @ [0, 0] @ [0x3c, 0xab]) 6 = Some (le16 0x7e 0x54)"
    by code_simp
  moreover have len: "length [0x45, 0x00 :: u8] + 2 + length [0x3c, 0xab :: u8] = 6" by simp
  ultimately show ?thesis
    by (intro cksum_verifies [of "[0x45, 0x00]" "[0x3c, 0xab]" "le16 0x7e 0x54", unfolded len]) simp_all
qed

text \<open>
  A trailing odd byte: the 16-bit load takes the following byte into the sum, so the
  result depends on memory outside the buffer (no caller passes an odd size).
\<close>

lemma cksum_odd_reads_past: "cksum [1, 0] 1 \<noteq> cksum [1, 7] 1" and "cksum [1] 1 = None"
  by code_simp+

end
