(* ===== verification/Vrrp_Ipx.thy ===== *)
theory Vrrp_Ipx
  imports Vrrp_Common Vrrp_Cksum
begin

text \<open>
  The address-family helpers: \<^verbatim>\<open>vrrp_ip4.c\<close>, \<^verbatim>\<open>vrrp_ip6.c\<close> and the dispatch of
  \<^verbatim>\<open>vrrp_ipx.h\<close>.  The function table \<open>struct vrrp_ipx\<close> is the locale \<open>ipx_module\<close>:
  both helpers are shown to satisfy it, and the layers above use the table through
  its laws.
\<close>

section \<open>Memory\<close>

definition bslice :: "bytes \<Rightarrow> nat \<Rightarrow> nat \<Rightarrow> bytes" where
  "bslice p off n = take n (drop off p)"

text \<open>A local buffer after a receive: the data, and beyond it whatever was there.\<close>

definition buf_after :: "bytes \<Rightarrow> (nat \<Rightarrow> u8) \<Rightarrow> nat \<Rightarrow> u8" where
  "buf_after data junk i = (if i < length data then data ! i else junk i)"

definition window :: "(nat \<Rightarrow> u8) \<Rightarrow> nat \<Rightarrow> nat \<Rightarrow> bytes" where
  "window buf off n = map (\<lambda>i. buf (off + i)) [0..<n]"

definition set_addr4 :: "bytes \<Rightarrow> ipx_addr \<Rightarrow> ipx_addr" where
  "set_addr4 bs a = bs @ drop 4 a"

definition addr4 :: "ipx_addr \<Rightarrow> bytes" where
  "addr4 a = take 4 a"

definition addr6 :: "ipx_addr \<Rightarrow> bytes" where
  "addr6 a = take 16 a"

definition hdr_version :: "bytes \<Rightarrow> int" where
  "hdr_version p = uint (drop_bit 4 (h_version_type p))"

section \<open>IPv4 helpers (\<open>vrrp_ip4.c\<close>)\<close>

definition vrrp_ip4_search_vip :: "vrrp_net \<Rightarrow> bytes \<Rightarrow> bool" where
  "vrrp_ip4_search_vip n a = list_ex (\<lambda>v. addr4 (ipx v) = a) (rev (vip_list n))"

text \<open>\<open>inet_pton\<close> of a literal address never fails with a negative value.\<close>

definition vrrp_ip4_mgroup :: "os \<Rightarrow> vrrp_net \<Rightarrow> world \<Rightarrow> int \<times> world" where
  "vrrp_ip4_mgroup os n w =
     (let group = (case os_pton os AF_INET ''224.0.0.18'' of None \<Rightarrow> [0, 0, 0, 0] | Some a \<Rightarrow> a)
      in if os_setsockopt os (tick w)
         then (0, emit (Join (group @ addr4 (vif_ipx (vif n)))) (syscall w))
         else (-1, syscall w))"

text \<open>The number of addresses of the packet that are not in the list of the instance.\<close>

definition vrrp_ip4_viplist_cmp :: "vrrp_net \<Rightarrow> bytes \<Rightarrow> nat" where
  "vrrp_ip4_viplist_cmp n p =
     length (filter (\<lambda>i. \<not> vrrp_ip4_search_vip n (bslice p (VRRP_PKTHDR_SIZE + 4 * i) 4))
               [0..<unat (net_naddr n)])"

text \<open>
  The result is the return value, the receive record, the offset of the
  advertisement and the buffer.  The header is read even when \<open>read\<close> failed.
\<close>

definition vrrp_ip4_recv ::
    "os \<Rightarrow> vrrp_recv \<Rightarrow> world \<Rightarrow> int \<times> vrrp_recv \<times> nat \<times> (nat \<Rightarrow> u8) \<times> world" where
  "vrrp_ip4_recv os r w =
     (let res = os_read os (tick w);
          data = (case res of None \<Rightarrow> [] | Some d \<Rightarrow> take IP_MAXPACKET d);
          len = (case res of None \<Rightarrow> -1 | Some _ \<Rightarrow> int (length data));
          b = buf_after data (os_stack os (tick w));
          ihl = unat (b 0 AND 0x0f) * 4;
          h = \<lparr>hdr_len = int ihl, hdr_proto = uint (b 9),
               hdr_totlen = uint (htons (le16 (b 2) (b 3))), hdr_ttl = uint (b 8)\<rparr>
      in (len, r\<lparr>header := h, s_ipx := set_addr4 (window b 12 4) (s_ipx r),
                 d_ipx := set_addr4 (window b 16 4) (d_ipx r)\<rparr>, ihl, b, syscall w))"

definition vrrp_ip4_getsize :: "vrrp_net \<Rightarrow> nat" where
  "vrrp_ip4_getsize n = VRRP_PKTHDR_SIZE + unat (net_naddr n) * 4 + VRRP_AUTH_SIZE"

text \<open>\<open>pshdr_ip4\<close>: the pseudo header, 12 bytes.\<close>

definition pshdr_ip4 :: "bytes \<Rightarrow> bytes \<Rightarrow> u8 \<Rightarrow> nat \<Rightarrow> bytes" where
  "pshdr_ip4 saddr daddr proto len = saddr @ daddr @ [0, proto] @ store16 (htons (of_nat len))"

definition vrrp_ip4_chksum ::
    "vrrp_net \<Rightarrow> bytes \<Rightarrow> ipx_addr option \<Rightarrow> ipx_addr option \<Rightarrow> u16 option" where
  "vrrp_ip4_chksum n p ipx_saddr ipx_daddr =
     (let p0 = set_h_chksum 0 p;
          size = vrrp_ip4_getsize n
      in if hdr_version p0 = RFC3768 then cksum p0 size
         else if hdr_version p0 = RFC5798 then
           (case iov_base (adv_iov n ! 1) of
              None \<Rightarrow> None
            | Some iph \<Rightarrow>
                (let saddr = (case ipx_saddr of None \<Rightarrow> [0, 0, 0, 0] | Some a \<Rightarrow> addr4 a);
                     daddr = (case ipx_daddr of None \<Rightarrow> [0, 0, 0, 0] | Some a \<Rightarrow> addr4 a);
                     psh = pshdr_ip4 (if saddr \<noteq> [0, 0, 0, 0] then saddr else bslice iph 12 4)
                             (if daddr \<noteq> [0, 0, 0, 0] then daddr else bslice iph 16 4)
                             (iph ! 9) size
                 in cksum (psh @ take size p0) (12 + size)))
         else Some 0)"

definition vrrp_ip4_ntop :: "os \<Rightarrow> ipx_addr \<Rightarrow> string" where
  "vrrp_ip4_ntop os a = os_ntop os AF_INET (addr4 a)"

definition vrrp_ip4_pton :: "os \<Rightarrow> string \<Rightarrow> bytes option" where
  "vrrp_ip4_pton os s = os_pton os AF_INET s"

text \<open>\<open>ntohl(a) - ntohl(b)\<close> in \<open>uint32_t\<close>, returned as \<open>int\<close>.\<close>

definition vrrp_ip4_cmp :: "ipx_addr \<Rightarrow> ipx_addr \<Rightarrow> int" where
  "vrrp_ip4_cmp s1 s2 = sint (be32 (addr4 s1) - be32 (addr4 s2))"

definition vrrp_ip4_setsockopt :: "os \<Rightarrow> world \<Rightarrow> int \<times> world" where
  "vrrp_ip4_setsockopt os w = (0, w)"

section \<open>IPv6 helpers (\<open>vrrp_ip6.c\<close>)\<close>

definition vrrp_ip6_search_vip :: "vrrp_net \<Rightarrow> bytes \<Rightarrow> bool" where
  "vrrp_ip6_search_vip n a = list_ex (\<lambda>v. memcmp (addr6 (ipx v)) a = 0) (rev (vip_list n))"

definition vrrp_ip6_setsockopt :: "os \<Rightarrow> world \<Rightarrow> int \<times> world" where
  "vrrp_ip6_setsockopt os w =
     (if \<not> os_setsockopt os (tick w) then (-1, syscall w)
      else let w1 = syscall w
           in if \<not> os_setsockopt os (tick w1) then (-1, syscall w1) else (0, syscall w1))"

text \<open>
  \<open>struct ipv6_mreq\<close> is the group followed by the index of the interface, an \<open>unsigned int\<close> in the order
  of the machine.  The index is not checked: 0, the answer for an unknown interface, leaves the
  choice to the kernel.
\<close>

definition store_uint :: "int \<Rightarrow> bytes" where
  "store_uint x = map (\<lambda>k. word_of_int (drop_bit (8 * k) x)) [0, 1, 2, 3]"

definition vrrp_ip6_mgroup :: "os \<Rightarrow> vrrp_net \<Rightarrow> world \<Rightarrow> (int \<times> world) run" where
  "vrrp_ip6_mgroup os n w =
     (let group = (case os_pton os AF_INET6 ''ff02::12'' of None \<Rightarrow> replicate 16 0 | Some a \<Rightarrow> a) in
      case ifname (vif n) of
        None \<Rightarrow> Undef
      | Some nm \<Rightarrow>
          (let mreq = group @ store_uint (os_ifindex os (tick w) nm); w1 = syscall w in
           if os_setsockopt os (tick w1) then Ret (0, emit (Join mreq) (syscall w1))
           else Ret (-1, syscall w1)))"

definition vrrp_ip6_viplist_cmp :: "vrrp_net \<Rightarrow> bytes \<Rightarrow> nat" where
  "vrrp_ip6_viplist_cmp n p =
     length (filter (\<lambda>i. \<not> vrrp_ip6_search_vip n (bslice p (VRRP_PKTHDR_SIZE + 16 * i) 16))
               [0..<unat (net_naddr n)])"

definition IPPROTO_IPV6 :: int where "IPPROTO_IPV6 = 41"
definition IPV6_PKTINFO :: int where "IPV6_PKTINFO = 50"
definition IPV6_HOPLIMIT :: int where "IPV6_HOPLIMIT = 52"

fun find_ancillary :: "(int \<times> int \<times> bytes) list \<Rightarrow> int \<Rightarrow> bytes option" where
  "find_ancillary [] ty = None"
| "find_ancillary ((level, cty, d) # ms) ty =
     (if level = IPPROTO_IPV6 \<and> cty = ty then Some d else find_ancillary ms ty)"

text \<open>An \<open>int\<close> in memory.\<close>

definition load_int :: "bytes \<Rightarrow> int" where
  "load_int d = sint (be32 [d ! 3, d ! 2, d ! 1, d ! 0])"

definition vrrp_ip6_recv ::
    "os \<Rightarrow> vrrp_recv \<Rightarrow> world \<Rightarrow> int \<times> vrrp_recv \<times> nat \<times> (nat \<Rightarrow> u8) \<times> world" where
  "vrrp_ip6_recv os r w =
     (let junk = os_stack os (tick w) in
      case os_recvmsg os (tick w) of
        None \<Rightarrow> (-1, r, 0, junk, syscall w)
      | Some m \<Rightarrow>
          (let data = take IP_MAXPACKET (rm_data m);
               b = buf_after data junk;
               r1 = r\<lparr>s_ipx := addr6 (rm_src m)\<rparr>
           in case find_ancillary (rm_cmsgs m) IPV6_HOPLIMIT of
                None \<Rightarrow> (-1, r1, 0, b, syscall w)
              | Some hop \<Rightarrow>
                  (let r2 = r1\<lparr>header := (header r1)\<lparr>hdr_ttl := load_int hop\<rparr>\<rparr>
                   in case find_ancillary (rm_cmsgs m) IPV6_PKTINFO of
                        None \<Rightarrow> (-1, r2, 0, b, syscall w)
                      | Some info \<Rightarrow>
                          (int (length data),
                           r2\<lparr>d_ipx := addr6 info,
                              header := (header r2)\<lparr>hdr_len := 40,
                                 hdr_totlen := 40 + int (length data),
                                 hdr_proto := uint IPPROTO_VRRP\<rparr>\<rparr>,
                           0, b, syscall w))))"

definition vrrp_ip6_getsize :: "vrrp_net \<Rightarrow> nat" where
  "vrrp_ip6_getsize n = VRRP_PKTHDR_SIZE + unat (net_naddr n) * 16"

text \<open>
  \<open>pshdr_ip6\<close>: 40 bytes.  The 32-bit length is assigned \<open>htons\<close> of the size, so on the
  little-endian host its two bytes come first.
\<close>

definition pshdr_ip6 :: "bytes \<Rightarrow> bytes \<Rightarrow> nat \<Rightarrow> u8 \<Rightarrow> bytes" where
  "pshdr_ip6 saddr daddr len nxt =
     saddr @ daddr @ store16 (htons (of_nat len)) @ [0, 0] @ [0, 0, 0] @ [nxt]"

definition vrrp_ip6_chksum ::
    "vrrp_net \<Rightarrow> bytes \<Rightarrow> ipx_addr option \<Rightarrow> ipx_addr option \<Rightarrow> u16 option" where
  "vrrp_ip6_chksum n p ipx_saddr ipx_daddr =
     (let p0 = set_h_chksum 0 p;
          size = vrrp_ip6_getsize n
      in case (case (ipx_saddr, ipx_daddr) of
                 (Some sa, Some da) \<Rightarrow> Some (addr6 sa, addr6 da)
               | _ \<Rightarrow> (case iov_base (adv_iov n ! 1) of
                        None \<Rightarrow> None
                      | Some iph \<Rightarrow> Some (bslice iph 8 16, bslice iph 24 16))) of
           None \<Rightarrow> None
         | Some (saddr, daddr) \<Rightarrow>
             cksum (pshdr_ip6 saddr daddr size IPPROTO_VRRP @ take size p0) (40 + size))"

definition vrrp_ip6_ntop :: "os \<Rightarrow> ipx_addr \<Rightarrow> string" where
  "vrrp_ip6_ntop os a = os_ntop os AF_INET6 (addr6 a)"

definition vrrp_ip6_pton :: "os \<Rightarrow> string \<Rightarrow> bytes option" where
  "vrrp_ip6_pton os s = os_pton os AF_INET6 s"

definition vrrp_ip6_cmp :: "ipx_addr \<Rightarrow> ipx_addr \<Rightarrow> int" where
  "vrrp_ip6_cmp s1 s2 = memcmp (addr6 s1) (addr6 s2)"

section \<open>The table (\<open>vrrp_ipx.h\<close>)\<close>

definition vrrp_ipx_set :: "int \<Rightarrow> vrrp_ipx option" where
  "vrrp_ipx_set fam =
     (if fam = AF_INET then Some VRRP_IP4 else if fam = AF_INET6 then Some VRRP_IP6 else None)"

primrec adv_getsize :: "vrrp_ipx \<Rightarrow> vrrp_net \<Rightarrow> nat" where
  "adv_getsize VRRP_IP4 = vrrp_ip4_getsize"
| "adv_getsize VRRP_IP6 = vrrp_ip6_getsize"

primrec adv_checksum ::
    "vrrp_ipx \<Rightarrow> vrrp_net \<Rightarrow> bytes \<Rightarrow> ipx_addr option \<Rightarrow> ipx_addr option \<Rightarrow> u16 option" where
  "adv_checksum VRRP_IP4 = vrrp_ip4_chksum"
| "adv_checksum VRRP_IP6 = vrrp_ip6_chksum"

primrec vip_compare :: "vrrp_ipx \<Rightarrow> vrrp_net \<Rightarrow> bytes \<Rightarrow> nat" where
  "vip_compare VRRP_IP4 = vrrp_ip4_viplist_cmp"
| "vip_compare VRRP_IP6 = vrrp_ip6_viplist_cmp"

primrec ipx_cmp :: "vrrp_ipx \<Rightarrow> ipx_addr \<Rightarrow> ipx_addr \<Rightarrow> int" where
  "ipx_cmp VRRP_IP4 = vrrp_ip4_cmp"
| "ipx_cmp VRRP_IP6 = vrrp_ip6_cmp"

primrec pkt_receive ::
    "vrrp_ipx \<Rightarrow> os \<Rightarrow> vrrp_recv \<Rightarrow> world \<Rightarrow> int \<times> vrrp_recv \<times> nat \<times> (nat \<Rightarrow> u8) \<times> world" where
  "pkt_receive VRRP_IP4 = vrrp_ip4_recv"
| "pkt_receive VRRP_IP6 = vrrp_ip6_recv"

primrec ipx_to_str :: "vrrp_ipx \<Rightarrow> os \<Rightarrow> ipx_addr \<Rightarrow> string" where
  "ipx_to_str VRRP_IP4 = vrrp_ip4_ntop"
| "ipx_to_str VRRP_IP6 = vrrp_ip6_ntop"

primrec set_sockopt :: "vrrp_ipx \<Rightarrow> os \<Rightarrow> world \<Rightarrow> int \<times> world" where
  "set_sockopt VRRP_IP4 = vrrp_ip4_setsockopt"
| "set_sockopt VRRP_IP6 = vrrp_ip6_setsockopt"

primrec join_mgroup :: "vrrp_ipx \<Rightarrow> os \<Rightarrow> vrrp_net \<Rightarrow> world \<Rightarrow> (int \<times> world) run" where
  "join_mgroup VRRP_IP4 = (\<lambda>os n w. Ret (vrrp_ip4_mgroup os n w))"
| "join_mgroup VRRP_IP6 = vrrp_ip6_mgroup"

section \<open>The contract of a family helper\<close>

text \<open>
  \<open>wf n\<close> says that the emitted IP header the checksum may consult is present.  The
  checksum does not depend on the old checksum field nor on what follows the
  advertisement, it is defined for both protocol versions, and of two addresses at
  most one is the greater.
\<close>

definition addr_ok :: "ipx_addr option \<Rightarrow> bool" where
  "addr_ok s = (case s of None \<Rightarrow> True | Some a \<Rightarrow> length a = 16)"

locale ipx_module =
  fixes wf :: "vrrp_net \<Rightarrow> bool"
    and getsize :: "vrrp_net \<Rightarrow> nat"
    and chksum :: "vrrp_net \<Rightarrow> bytes \<Rightarrow> ipx_addr option \<Rightarrow> ipx_addr option \<Rightarrow> u16 option"
    and cmpx :: "ipx_addr \<Rightarrow> ipx_addr \<Rightarrow> int"
  assumes size_min: "VRRP_PKTHDR_SIZE \<le> getsize n"
    and size_even: "even (getsize n)"
    and chksum_reset: "chksum n (set_h_chksum c p) s d = chksum n p s d"
    and chksum_prefix: "length p = getsize n \<Longrightarrow> chksum n (p @ q) s d = chksum n p s d"
    and chksum_total: "wf n \<Longrightarrow> getsize n \<le> length p \<Longrightarrow> addr_ok s \<Longrightarrow> addr_ok d \<Longrightarrow>
           \<exists>c. chksum n p s d = Some c"
    and cmp_asym: "0 < cmpx a b \<Longrightarrow> cmpx b a \<le> 0"
begin

text \<open>Storing the checksum makes the packet verify.\<close>

lemma seal_verifies:
  assumes "chksum n p s d = Some c" and "getsize n \<le> length p"
  shows "chksum n (set_h_chksum c p) s d = Some (h_chksum (set_h_chksum c p))"
proof -
  have "7 < length p" using size_min [of n] assms(2) by (simp add: size_defs)
  then have "h_chksum (set_h_chksum c p) = c"
    by (simp add: h_defs load16_def)
  then show ?thesis using assms(1) by (simp add: chksum_reset)
qed

lemma seal_exists:
  assumes "wf n" and "getsize n \<le> length p" and "addr_ok s" and "addr_ok d"
  shows "\<exists>c. chksum n p s d = Some c
    \<and> chksum n (set_h_chksum c p) s d = Some (h_chksum (set_h_chksum c p))"
  using chksum_total [OF assms] seal_verifies [OF _ assms(2), of s d] by blast

end

section \<open>Both helpers meet the contract\<close>

lemma set_h_chksum_twice [simp]: "set_h_chksum a (set_h_chksum b p) = set_h_chksum a p"
  by (simp add: h_defs list_update_swap)

lemma hdr_version_chksum [simp]: "hdr_version (set_h_chksum c p) = hdr_version p"
  by (simp add: hdr_version_def h_defs)

lemma set_h_chksum_append:
  "8 \<le> length p \<Longrightarrow> set_h_chksum c (p @ q) = set_h_chksum c p @ q"
  by (simp add: h_defs list_update_append1)

lemma hdr_version_append: "0 < length p \<Longrightarrow> hdr_version (p @ q) = hdr_version p"
  by (simp add: hdr_version_def h_defs nth_append)

lemma getsize_facts [simp]:
  "even (vrrp_ip4_getsize n)" "even (vrrp_ip6_getsize n)"
  "8 \<le> vrrp_ip4_getsize n" "8 \<le> vrrp_ip6_getsize n"
  by (simp_all add: vrrp_ip4_getsize_def vrrp_ip6_getsize_def size_defs)

definition net_wf :: "vrrp_ipx \<Rightarrow> vrrp_net \<Rightarrow> bool" where
  "net_wf h n \<longleftrightarrow> (case iov_base (adv_iov n ! 1) of
     None \<Rightarrow> False | Some iph \<Rightarrow> length iph = (case h of VRRP_IP4 \<Rightarrow> 20 | VRRP_IP6 \<Rightarrow> 40))"

lemma length_addr [simp]: "length (addr4 a) = min (length a) 4" "length (addr6 a) = min (length a) 16"
  by (simp_all add: addr4_def addr6_def)

lemma length_bslice [simp]: "off + k \<le> length p \<Longrightarrow> length (bslice p off k) = k"
  by (simp add: bslice_def)

lemma memcmp_asym: "0 < memcmp a b \<Longrightarrow> memcmp b a \<le> 0"
  by (induction a b rule: memcmp.induct) (auto split: if_splits)

lemma sint_minus_nonpos: "0 < sint (x :: u32) \<Longrightarrow> sint (- x) \<le> 0"
proof -
  assume "0 < sint x"
  moreover have "sint x < 2 ^ 31" using sint_less [of x] by simp
  ultimately have "signed_take_bit 31 (- sint x) = - sint x"
    by (intro signed_take_bit_int_eq_self) simp_all
  with \<open>0 < sint x\<close> show ?thesis by (simp add: sint_word_ariths)
qed

lemma length_pshdr [simp]:
  "length (pshdr_ip4 s d x k) = length s + length d + 4"
  "length (pshdr_ip6 s d k x) = length s + length d + 8"
  by (simp_all add: pshdr_ip4_def pshdr_ip6_def)

lemma ip4_chksum_total:
  assumes wf: "net_wf VRRP_IP4 n" and len: "vrrp_ip4_getsize n \<le> length p"
    and ok: "addr_ok s" "addr_ok d"
  shows "\<exists>c. vrrp_ip4_chksum n p s d = Some c"
proof -
  obtain iph where iph: "iov_base (adv_iov n ! 1) = Some iph" "length iph = 20"
    using wf by (auto simp: net_wf_def split: option.splits)
  have sa: "length (case s of None \<Rightarrow> [0, 0, 0, 0] | Some a \<Rightarrow> addr4 a) = 4"
    and da: "length (case d of None \<Rightarrow> [0, 0, 0, 0] | Some a \<Rightarrow> addr4 a) = 4"
    using ok by (auto simp: addr_ok_def split: option.splits)
  show ?thesis
    using iph sa da len cksum_total
    by (auto simp: vrrp_ip4_chksum_def Let_def min.absorb2 intro!: cksum_total)
qed

lemma ip6_chksum_total:
  assumes wf: "net_wf VRRP_IP6 n" and len: "vrrp_ip6_getsize n \<le> length p"
    and ok: "addr_ok s" "addr_ok d"
  shows "\<exists>c. vrrp_ip6_chksum n p s d = Some c"
proof -
  obtain iph where iph: "iov_base (adv_iov n ! 1) = Some iph" "length iph = 40"
    using wf by (auto simp: net_wf_def split: option.splits)
  show ?thesis
    using iph len ok
    by (auto simp: vrrp_ip6_chksum_def Let_def min.absorb2 addr_ok_def
        split: option.splits intro!: cksum_total)
qed

lemma chksum_reset_field:
  "vrrp_ip4_chksum n (set_h_chksum c p) s d = vrrp_ip4_chksum n p s d"
  "vrrp_ip6_chksum n (set_h_chksum c p) s d = vrrp_ip6_chksum n p s d"
  by (simp_all add: vrrp_ip4_chksum_def vrrp_ip6_chksum_def)

interpretation ip4: ipx_module "net_wf VRRP_IP4" vrrp_ip4_getsize vrrp_ip4_chksum vrrp_ip4_cmp
proof
  fix n and p q :: bytes and s d
  assume len: "length p = vrrp_ip4_getsize n"
  then have "8 \<le> length p" by simp
  with len have tk: "take (vrrp_ip4_getsize n) (set_h_chksum 0 (p @ q)) = set_h_chksum 0 p"
    by (simp add: set_h_chksum_append)
  have "0 < length p" using \<open>8 \<le> length p\<close> by linarith
  then have v: "hdr_version (set_h_chksum 0 (p @ q)) = hdr_version (set_h_chksum 0 p)"
    by (simp only: hdr_version_chksum hdr_version_append)
  have "take (vrrp_ip4_getsize n) (set_h_chksum 0 p) = set_h_chksum 0 p"
    and "cksum (set_h_chksum 0 (p @ q)) (vrrp_ip4_getsize n)
      = cksum (set_h_chksum 0 p) (vrrp_ip4_getsize n)"
    using len cksum_take [of "vrrp_ip4_getsize n" "set_h_chksum 0 (p @ q)"] by (simp_all add: tk)
  then show "vrrp_ip4_chksum n (p @ q) s d = vrrp_ip4_chksum n p s d"
    by (simp only: vrrp_ip4_chksum_def Let_def tk v)
next
  show "0 < vrrp_ip4_cmp a b \<Longrightarrow> vrrp_ip4_cmp b a \<le> 0" for a b
    using sint_minus_nonpos [of "be32 (addr4 a) - be32 (addr4 b)"] by (simp add: vrrp_ip4_cmp_def)
qed (simp_all add: size_defs ip4_chksum_total chksum_reset_field)

interpretation ip6: ipx_module "net_wf VRRP_IP6" vrrp_ip6_getsize vrrp_ip6_chksum vrrp_ip6_cmp
proof
  fix n and p q :: bytes and s d
  assume len: "length p = vrrp_ip6_getsize n"
  then have "8 \<le> length p" by simp
  with len have "take (vrrp_ip6_getsize n) (set_h_chksum 0 (p @ q))
      = take (vrrp_ip6_getsize n) (set_h_chksum 0 p)"
    by (simp add: set_h_chksum_append)
  then show "vrrp_ip6_chksum n (p @ q) s d = vrrp_ip6_chksum n p s d"
    by (simp only: vrrp_ip6_chksum_def Let_def)
qed (simp_all add: size_defs ip6_chksum_total chksum_reset_field vrrp_ip6_cmp_def memcmp_asym)

text \<open>Whatever helper \<open>vnet->ipx_helper\<close> points to, its table satisfies the contract.\<close>

interpretation tab: ipx_module "net_wf h" "adv_getsize h" "adv_checksum h" "ipx_cmp h" for h
  by (cases h) (simp_all add: ip4.ipx_module_axioms ip6.ipx_module_axioms)

section \<open>The checksum on the wire\<close>

text \<open>
  The pseudo headers of RFC 5798: both addresses, the protocol number and the
  upper-layer length in network order (RFC 2460 for IPv6, where the length has 32 bits).
\<close>

definition rfc_pseudo4 :: "bytes \<Rightarrow> bytes \<Rightarrow> nat \<Rightarrow> bytes" where
  "rfc_pseudo4 s d len = s @ d @ [0, 112, of_nat (len div 256), of_nat len]"

definition rfc_pseudo6 :: "bytes \<Rightarrow> bytes \<Rightarrow> nat \<Rightarrow> bytes" where
  "rfc_pseudo6 s d len = s @ d @ [0, 0, of_nat (len div 256), of_nat len] @ [0, 0, 0, 112]"

lemma store16_htons_of_nat:
  assumes "k < 65536"
  shows "store16 (htons (of_nat k)) = [of_nat (k div 256), of_nat k]"
proof -
  have "unat (of_nat k :: u16) = k" using assms by (simp add: unat_of_nat)
  moreover have "k div 256 < 256" using assms by simp
  ultimately show ?thesis
    by (auto simp: store16_htons intro!: u8_eq_unatI)
      (simp_all add: unat_of_nat unsigned_ucast_eq take_bit_eq_mod unat_drop_bit_eq drop_bit_eq_div)
qed

lemma getsize_bound: "vrrp_ip4_getsize n < 4096" "vrrp_ip6_getsize n < 4096"
proof -
  have "unat (net_naddr n) \<le> 255" using unat_u8_less [of "net_naddr n"] by linarith
  then show "vrrp_ip4_getsize n < 4096" "vrrp_ip6_getsize n < 4096"
    by (simp_all add: vrrp_ip4_getsize_def vrrp_ip6_getsize_def size_defs)
qed

text \<open>
  C22. The VRRPv3 checksum over IPv4 between two given addresses is the RFC 1071
  checksum (in network order) of the RFC 5798 pseudo header followed by the
  advertisement with its checksum field cleared.
\<close>
theorem ip4_chksum_v3_is_rfc5798:
  assumes "hdr_version p = RFC5798" and "vrrp_ip4_getsize n \<le> length p"
    and "iov_base (adv_iov n ! 1) = Some iph" and "iph ! 9 = IPPROTO_VRRP"
    and "length s = 16" and "length d = 16" and "addr4 s \<noteq> [0, 0, 0, 0]" and "addr4 d \<noteq> [0, 0, 0, 0]"
  shows "\<exists>c. vrrp_ip4_chksum n p (Some s) (Some d) = Some c \<and> unat (htons c) =
    rfc1071 (rfc_pseudo4 (addr4 s) (addr4 d) (vrrp_ip4_getsize n)
             @ take (vrrp_ip4_getsize n) (set_h_chksum 0 p))"
proof -
  let ?k = "vrrp_ip4_getsize n"
  let ?bs = "rfc_pseudo4 (addr4 s) (addr4 d) ?k @ take ?k (set_h_chksum 0 p)"
  have k: "?k < 65536" using getsize_bound(1) [of n] by linarith
  have len: "length ?bs = 12 + ?k"
    using assms by (simp add: rfc_pseudo4_def min.absorb2)
  have "vrrp_ip4_chksum n p (Some s) (Some d) = cksum ?bs (12 + ?k)"
    using assms by (simp add: vrrp_ip4_chksum_def pshdr_ip4_def rfc_pseudo4_def
        store16_htons_of_nat [OF k] IPPROTO_VRRP_def Let_def)
  moreover have "even (length ?bs)" "length ?bs \<le> 131072"
    unfolding len using k by simp_all
  ultimately show ?thesis
    using cksum_rfc [of ?bs "[]"] len by simp
qed

theorem ip4_chksum_v3_is_rfc5798_witness:
  "let p = [0x31, 42, 100, 1, 0, 100, 0, 0, 10, 0, 0, 254, 0, 0, 0, 0, 0, 0, 0, 0];
       n = vnet0\<lparr>adv_iov := [\<lparr>iov_base = None, iov_len = 0\<rparr>,
         \<lparr>iov_base = Some (replicate 20 112), iov_len = 20\<rparr>]\<rparr>;
       s = [10, 0, 0, 1] @ replicate 12 0; d = [224, 0, 0, 18] @ replicate 12 0
   in \<exists>c. vrrp_ip4_chksum n p (Some s) (Some d) = Some c \<and> unat (htons c) =
        rfc1071 (rfc_pseudo4 (addr4 s) (addr4 d) (vrrp_ip4_getsize n)
          @ take (vrrp_ip4_getsize n) (set_h_chksum 0 p))"
  unfolding Let_def
  by (rule ip4_chksum_v3_is_rfc5798 [where iph = "replicate 20 112"])
    (simp_all add: hdr_version_def h_defs vrrp_ip4_getsize_def size_defs example_defs addr4_def
      IPPROTO_VRRP_def drop_bit_eq_div)

text \<open>
  C23. The IPv6 checksum likewise is the RFC 1071 checksum over the RFC 2460 pseudo
  header, although the code stores the upper-layer length with \<open>htons\<close> into a 32-bit
  field: the two halves of that field are exchanged, which the sum does not notice.
\<close>
theorem ip6_chksum_is_rfc5798:
  assumes "vrrp_ip6_getsize n \<le> length p" and "length s = 16" and "length d = 16"
  shows "\<exists>c. vrrp_ip6_chksum n p (Some s) (Some d) = Some c \<and> unat (htons c) =
    rfc1071 (rfc_pseudo6 s d (vrrp_ip6_getsize n) @ take (vrrp_ip6_getsize n) (set_h_chksum 0 p))"
proof -
  let ?k = "vrrp_ip6_getsize n"
  let ?l = "[of_nat (?k div 256), of_nat ?k] :: bytes"
  let ?tl = "[0, 0, 0, 112] @ take ?k (set_h_chksum 0 p)"
  let ?bs = "(s @ d) @ ?l @ [0, 0] @ ?tl"
  have k: "?k < 65536" using getsize_bound(2) [of n] by linarith
  have len: "length ?bs = 40 + ?k"
    using assms by (simp add: min.absorb2)
  have "vrrp_ip6_chksum n p (Some s) (Some d) = cksum ?bs (40 + ?k)"
    using assms by (simp add: vrrp_ip6_chksum_def pshdr_ip6_def addr6_def
        store16_htons_of_nat [OF k] IPPROTO_VRRP_def Let_def)
  moreover obtain c where "cksum ?bs (40 + ?k) = Some c" "unat (htons c) = rfc1071 ?bs"
    using cksum_rfc [of ?bs "[]"] k unfolding append_Nil2 len by auto
  moreover have "rfc1071 ?bs = rfc1071 ((s @ d) @ [0, 0] @ ?l @ ?tl)"
    using assms by (intro rfc1071_swap_words) (simp_all add: min.absorb2)
  moreover have "(s @ d) @ [0, 0] @ ?l @ ?tl = rfc_pseudo6 s d ?k @ take ?k (set_h_chksum 0 p)"
    by (simp add: rfc_pseudo6_def)
  ultimately show ?thesis by (intro exI [of _ c]) (simp only:)
qed

theorem ip6_chksum_is_rfc5798_witness:
  "let p = replicate 24 7; s = replicate 16 1; d = replicate 16 2
   in \<exists>c. vrrp_ip6_chksum vnet0 p (Some s) (Some d) = Some c \<and> unat (htons c) =
        rfc1071 (rfc_pseudo6 s d (vrrp_ip6_getsize vnet0)
          @ take (vrrp_ip6_getsize vnet0) (set_h_chksum 0 p))"
  unfolding Let_def
  by (rule ip6_chksum_is_rfc5798) (simp_all add: vrrp_ip6_getsize_def size_defs example_defs)

section \<open>The order on addresses\<close>

text \<open>The result of the comparison as a number: the difference, wrapped into the range of \<open>int\<close>.\<close>

lemma ip4_cmp_value:
  fixes a b :: bytes
  defines "d \<equiv> uint (be32 (addr4 a)) - uint (be32 (addr4 b))"
  shows "vrrp_ip4_cmp a b = (if d < - (2 ^ 31) then d + 2 ^ 32 else if d < 2 ^ 31 then d else d - 2 ^ 32)"
    and "- (2 ^ 32) < d" and "d < 2 ^ 32"
proof -
  let ?x = "be32 (addr4 a)" and ?y = "be32 (addr4 b)"
  have "uint ?x < 2 ^ 32" "uint ?y < 2 ^ 32" using uint_lt2p [of ?x] uint_lt2p [of ?y] by simp_all
  then show lo: "- (2 ^ 32) < d" and hi: "d < 2 ^ 32"
    using uint_ge_0 [of ?x] uint_ge_0 [of ?y] unfolding d_def by linarith+
  have "uint (?x - ?y) = take_bit 32 d"
    by (simp add: d_def uint_word_ariths take_bit_eq_mod)
  then have s: "sint (?x - ?y) = signed_take_bit 31 d"
    by (simp add: sint_uint signed_take_bit_take_bit)
  have shift: "signed_take_bit 31 d = signed_take_bit 31 e" if "e mod 2 ^ 32 = d mod 2 ^ 32" for e
    using that by (simp add: signed_take_bit_eq_iff_take_bit_eq take_bit_eq_mod)
  have self: "signed_take_bit 31 e = e" if "- (2 ^ 31) \<le> e" "e < 2 ^ 31" for e :: int
    using that by (intro signed_take_bit_int_eq_self) auto
  have "sint (?x - ?y) = (if d < - (2 ^ 31) then d + 2 ^ 32 else if d < 2 ^ 31 then d else d - 2 ^ 32)"
    using s self [of d] shift [of "d + 2 ^ 32"] self [of "d + 2 ^ 32"] shift [of "d - 2 ^ 32"] self [of "d - 2 ^ 32"] lo hi
    by simp
  then show "vrrp_ip4_cmp a b = (if d < - (2 ^ 31) then d + 2 ^ 32 else if d < 2 ^ 31 then d else d - 2 ^ 32)"
    by (simp add: vrrp_ip4_cmp_def)
qed

text \<open>Over IPv4 the sign is right for addresses less than \<open>2\<^sup>3\<^sup>1\<close> apart, and wrong beyond.\<close>

lemma ip4_cmp_sign:
  "let x = uint (be32 (addr4 a)); y = uint (be32 (addr4 b)) in
     (vrrp_ip4_cmp a b = 0 \<longleftrightarrow> x = y)
   \<and> (0 < vrrp_ip4_cmp a b \<longleftrightarrow> y < x \<and> x - y < 2 ^ 31 \<or> x < y \<and> 2 ^ 31 < y - x)
   \<and> (vrrp_ip4_cmp a b < 0 \<longleftrightarrow> x < y \<and> y - x \<le> 2 ^ 31 \<or> y < x \<and> 2 ^ 31 \<le> x - y)"
  using ip4_cmp_value(2,3) [of a b] by (simp add: Let_def ip4_cmp_value(1) [of a b])

text \<open>The value of a byte string read in network order.\<close>

primrec be_val :: "bytes \<Rightarrow> nat" where
  "be_val [] = 0"
| "be_val (x # xs) = unat x * 256 ^ length xs + be_val xs"

lemma be_val_less: "be_val xs < 256 ^ length xs"
proof (induction xs)
  case (Cons x xs)
  have "unat x \<le> 255" using unat_u8_less [of x] by linarith
  then have "unat x * 256 ^ length xs \<le> 255 * 256 ^ length xs" by (rule mult_le_mono1)
  with Cons show ?case by (simp only: be_val.simps list.size power_Suc add_Suc_right add_0_right)
qed simp

lemma be_val_Cons_less:
  assumes "unat x < unat y" and "length xs = length ys"
  shows "be_val (x # xs) < be_val (y # ys)"
proof -
  have "be_val (x # xs) < (unat x + 1) * 256 ^ length ys"
    using be_val_less [of xs] assms(2) by simp
  also have "\<dots> \<le> unat y * 256 ^ length ys"
    using assms(1) by (intro mult_le_mono1) simp
  finally show ?thesis by simp
qed

lemma memcmp_be_val:
  "length xs = length ys \<Longrightarrow> 0 < memcmp xs ys \<longleftrightarrow> be_val ys < be_val xs"
proof (induction xs ys rule: memcmp.induct)
  case (1 a as b bs)
  have u: "uint a < uint b \<longleftrightarrow> unat a < unat b" "uint b < uint a \<longleftrightarrow> unat b < unat a"
    by (simp_all add: word_less_def flip: word_less_nat_alt)
  consider "a = b" | "unat a < unat b" | "unat b < unat a"
    by (metis linorder_neqE_nat u8_eq_unatI)
  then show ?case
    using 1 u be_val_Cons_less [of a b as bs] be_val_Cons_less [of b a bs as]
    by cases auto
qed auto

lemma be_val_inj:
  assumes "length xs = length ys"
  shows "be_val xs = be_val ys \<longleftrightarrow> xs = ys"
proof
  assume "be_val xs = be_val ys"
  then have "\<not> 0 < memcmp xs ys" "\<not> 0 < memcmp ys xs" using assms by (simp_all add: memcmp_be_val)
  then have "memcmp xs ys = 0" using memcmp_antisym [of ys xs] assms by simp
  then show "xs = ys" using memcmp_0 [OF assms] by simp
qed simp

lemma uint_be32:
  assumes "length xs = 4"
  shows "uint (be32 xs) = int (be_val xs)"
proof -
  obtain a b c d where xs: "xs = [a, b, c, d]" using assms by (auto simp: numeral_eq_Suc length_Suc_conv)
  have "uint a < 256" "uint b < 256" "uint c < 256" "uint d < 256"
    using uint_lt2p [of a] uint_lt2p [of b] uint_lt2p [of c] uint_lt2p [of d] by simp_all
  then show ?thesis
    using uint_ge_0 [of a] uint_ge_0 [of b] uint_ge_0 [of c] uint_ge_0 [of d]
    by (simp add: xs be32_def uint_word_ariths push_bit_eq_mult unsigned_ucast_eq take_bit_eq_mod mod_simps)
qed



section \<open>The address list of an advertisement\<close>

definition listed4 :: "vrrp_net \<Rightarrow> bytes \<Rightarrow> bytes list" where
  "listed4 n p = map (\<lambda>i. bslice p (VRRP_PKTHDR_SIZE + 4 * i) 4) [0..<unat (net_naddr n)]"


end
