(* ===== verification/Vrrp_Net.thy ===== *)
theory Vrrp_Net
  imports Vrrp_Ipx
begin

text \<open>
  The network layer, \<^verbatim>\<open>vrrp_net.c\<close>: the sockets, the interface, the list of virtual
  addresses, the reception and validation of an advertisement and the transmission
  of a frame.  The family helper is reached through the table of \<^verbatim>\<open>Vrrp_Ipx\<close>, a
  null table or interface name is undefined behaviour.
\<close>

section \<open>Set-up\<close>

definition vrrp_net_init :: "vrrp_net \<Rightarrow> vrrp_net" where
  "vrrp_net_init n = n\<lparr>net_vrid := 0, net_naddr := 0, sock := 0, xmit := 0, family := AF_INET,
     ipx_helper := None, vip_list := [],
     vif := \<lparr>ifname = None, mtu = 0, vif_ipx = replicate 16 0\<rparr>,
     pkt := \<lparr>s_ipx = replicate 16 0, d_ipx = replicate 16 0,
             header = \<lparr>hdr_len = 0, hdr_proto = 0, hdr_totlen = 0, hdr_ttl = 0\<rparr>,
             adv = replicate 8 0\<rparr>\<rparr>"

text \<open>The memory released here leaves the model; the two descriptors are closed.\<close>

definition vrrp_net_cleanup :: "vrrp_net \<Rightarrow> world \<Rightarrow> vrrp_net \<times> world" where
  "vrrp_net_cleanup n w =
     (n\<lparr>vip_list := [], vif := (vif n)\<lparr>ifname := None\<rparr>\<rparr>, syscall (syscall w))"

definition vrrp_net_socket :: "os \<Rightarrow> vrrp_net \<Rightarrow> world \<Rightarrow> (int \<times> vrrp_net \<times> world) run" where
  "vrrp_net_socket os n w =
     (let fd = os_socket os (tick w);
          n1 = n\<lparr>sock := fd\<rparr>;
          w1 = syscall w
      in if fd < 0 then Ret (-1, n1, w1)
         else let n2 = n1\<lparr>ipx_helper := vrrp_ipx_set (family n1)\<rparr>
              in case ipx_helper n2 of
                   None \<Rightarrow> Ret (-1, n2, w1)
                 | Some h \<Rightarrow>
                     (let (st1, w2) = set_sockopt h os w1
                      in bind_run (join_mgroup h os n2 w2) (\<lambda>(st2, w3). Ret (st1 OR st2, n2, w3))))"

definition vrrp_net_socket_xmit :: "os \<Rightarrow> vrrp_net \<Rightarrow> world \<Rightarrow> int \<times> vrrp_net \<times> world" where
  "vrrp_net_socket_xmit os n w =
     (let fd = os_socket os (tick w); n1 = n\<lparr>xmit := fd\<rparr>
      in if fd < 0 then (-1, n1, syscall w) else (0, n1, syscall w))"

text \<open>\<open>strncpy\<close> copies at most \<open>IFNAMSIZ - 1\<close> characters of the name into the request.\<close>

definition vrrp_net_vif_mtu :: "os \<Rightarrow> vrrp_net \<Rightarrow> world \<Rightarrow> (int \<times> vrrp_net \<times> world) run" where
  "vrrp_net_vif_mtu os n w =
     (case ifname (vif n) of
        None \<Rightarrow> Undef
      | Some nm \<Rightarrow>
          (let w1 = syscall w in
           case os_mtu os (tick w1) (take 15 nm) of
             None \<Rightarrow> Ret (-1, n, syscall w1)
           | Some m \<Rightarrow> Ret (0, n\<lparr>vif := (vif n)\<lparr>mtu := m\<rparr>\<rparr>, syscall (syscall w1))))"

text \<open>One entry of the list \<open>getifaddrs\<close> returns.\<close>

definition getaddr_entry :: "string \<Rightarrow> vrrp_net \<Rightarrow> string \<times> (int \<times> bytes) option \<Rightarrow> vrrp_net" where
  "getaddr_entry nm n ifa =
     (if fst ifa \<noteq> nm then n
      else case snd ifa of
             None \<Rightarrow> n
           | Some (fam, a) \<Rightarrow>
               if fam \<noteq> family n then n
               else if family n = AF_INET
               then n\<lparr>vif := (vif n)\<lparr>vif_ipx := set_addr4 (take 4 a) (vif_ipx (vif n))\<rparr>\<rparr>
               else n\<lparr>vif := (vif n)\<lparr>vif_ipx := take 16 a\<rparr>\<rparr>)"

definition vrrp_net_vif_getaddr :: "os \<Rightarrow> vrrp_net \<Rightarrow> world \<Rightarrow> (int \<times> vrrp_net \<times> world) run" where
  "vrrp_net_vif_getaddr os n w =
     (case os_ifaddrs os (tick w) of
        None \<Rightarrow> Ret (-1, n, syscall w)
      | Some ifaddr \<Rightarrow>
          (case ifname (vif n) of
             None \<Rightarrow> Undef
           | Some nm \<Rightarrow>
               bind_run (vrrp_net_vif_mtu os (foldl (getaddr_entry nm) n ifaddr) (syscall w))
                 (\<lambda>(st, n1, w1). Ret (0, n1, w1))))"

definition invalid_ip_msg :: "vrrp_net \<Rightarrow> string \<Rightarrow> string" where
  "invalid_ip_msg n ip = ''vrid '' @ nat_str (unat (net_vrid n)) @ '' :: invalid IP addr '' @ ip"

text \<open>
  A new address: the union keeps the old contents of the allocated memory behind an
  IPv4 address, and the three topology buffers are not yet written.  Splitting an address cuts
  the string at the slash.
\<close>

definition vrrp_net_vip_set :: "os \<Rightarrow> vrrp_net \<Rightarrow> string \<Rightarrow> world \<Rightarrow> int \<times> vrrp_net \<times> world" where
  "vrrp_net_vip_set os n ip w =
     (case os_malloc os (tick w) of
        None \<Rightarrow> (-1, n, syscall w)
      | Some old \<Rightarrow>
          (if family n \<noteq> AF_INET \<and> family n \<noteq> AF_INET6
           then (-1, n, emit (Stderr (invalid_ip_msg n ip)) (syscall w))
           else case split_ip_netmask os (family n) ip of
                  Inl e \<Rightarrow> (-1, n, emit (Stderr (invalid_ip_msg n (takeWhile (\<lambda>c. c \<noteq> CHR ''/'') ip))) (syscall w))
                | Inr (a, m) \<Rightarrow>
                    (0, n\<lparr>vip_list := vip_list n @
                         [\<lparr>ipx = a @ map old [length a..<16], netmask = m, topology = []\<rparr>]\<rparr>,
                     syscall w)))"

section \<open>Reception\<close>

definition vrrp_net_invalidate_buffer :: "vrrp_net \<Rightarrow> vrrp_net" where
  "vrrp_net_invalidate_buffer n = n\<lparr>pkt := (pkt n)\<lparr>adv := (adv (pkt n))[0 := 0]\<rparr>\<rparr>"

text \<open>
  The part of the local buffer the checks read: the advertisement of this instance's
  size, and the place of the password.
\<close>

definition recv_span :: "vrrp_ipx \<Rightarrow> vrrp_net \<Rightarrow> vrrp \<Rightarrow> nat" where
  "recv_span h n v = max (adv_getsize h n)
     (VRRP_PKTHDR_SIZE + unat (naddr v) * 4
      + (case auth_data v of None \<Rightarrow> 0 | Some a \<Rightarrow> length a))"

text \<open>The authentication check of VRRPv2; \<open>None\<close> when a null password is read.\<close>

definition auth_accepts :: "vrrp \<Rightarrow> bytes \<Rightarrow> bool option" where
  "auth_accepts v p =
     (if h_auth_type p \<noteq> authtype_val (auth_type v) then Some False
      else if h_auth_type p = authtype_val SIMPLE then
        (case auth_data v of
           None \<Rightarrow> None
         | Some a \<Rightarrow> Some (memcmp (bslice p (VRRP_PKTHDR_SIZE + unat (naddr v) * 4) (length a))
                                (of_string a) = 0))
      else Some True)"

text \<open>The checks that follow the checksum, from the owner test to the copy.\<close>

definition recv_content ::
    "vrrp_ipx \<Rightarrow> vrrp_net \<Rightarrow> vrrp \<Rightarrow> bytes \<Rightarrow> world \<Rightarrow> (vrrp_event \<times> vrrp_net \<times> world) run" where
  "recv_content h n v p w =
     (if priority v = PRIO_OWNER then Ret (INVALID, n, w)
      else bind_run (if version v \<noteq> RFC5798 then run_opt (auth_accepts v p) else Ret True)
        (\<lambda>auth.
           if \<not> auth then Ret (INVALID, n, w)
           else if (h_naddr p \<noteq> naddr v \<or> vip_compare h n p \<noteq> 0)
                   \<and> h_priority p \<noteq> PRIO_OWNER \<and> version v = 2 then Ret (INVALID, n, w)
           else if ucast (h_adv_int p) \<noteq> adv_int v then Ret (INVALID, n, w)
           else Ret (PKT, n\<lparr>pkt := (pkt n)\<lparr>adv := take VRRP_PKTHDR_SIZE p\<rparr>\<rparr>, w)))"

definition vrrp_net_recv ::
    "os \<Rightarrow> vrrp_net \<Rightarrow> vrrp \<Rightarrow> world \<Rightarrow> (vrrp_event \<times> vrrp_net \<times> world) run" where
  "vrrp_net_recv os n v w =
     bind_run (run_opt (ipx_helper n)) (\<lambda>h.
       case pkt_receive h os (pkt n) w of (len, r, payload_pos, buf, w1) \<Rightarrow>
         (let n1 = n\<lparr>pkt := r\<rparr>;
              p = window buf payload_pos (recv_span h n v);
              n2 = vrrp_net_invalidate_buffer n1;
              payload_size = word_of_int (hdr_totlen (header r) - hdr_len (header r)) :: u32
          in if len = -1 then Ret (INVALID, n1, w1)
             else if len > mtu (vif n) \<or> len < int (adv_getsize h n) then Ret (INVALID, n1, w1)
             else if unat payload_size < VRRP_PKT_MINSIZE \<or> unat payload_size > VRRP_PKT_MAXSIZE
             then Ret (INVALID, n2, w1)
             else if hdr_proto (header r) \<noteq> uint IPPROTO_VRRP then Ret (INVALID, n2, w1)
             else if hdr_version p \<noteq> version v then Ret (INVALID, n2, w1)
             else if hdr_ttl (header r) \<noteq> VRRP_TTL then Ret (INVALID, n2, w1)
             else if h_vrid p \<noteq> vrid v then Ret (VRID_MISMATCH, n2, w1)
             else bind_run (run_opt (adv_checksum h n2 p (Some (s_ipx r)) (Some (d_ipx r))))
                    (\<lambda>c. if c \<noteq> h_chksum p then Ret (INVALID, n2, w1)
                         else recv_content h n2 v p w1)))"

section \<open>Transmission\<close>

text \<open>
  The bytes \<open>sendmsg\<close> gathers.  An element longer than its buffer is undefined, a null
  element of positive length makes the call fail.
\<close>

definition iov_bytes :: "iovec \<Rightarrow> bytes" where
  "iov_bytes v = (case iov_base v of None \<Rightarrow> [] | Some b \<Rightarrow> take (iov_len v) b)"

definition iov_null :: "iovec \<Rightarrow> bool" where
  "iov_null v \<longleftrightarrow> iov_base v = None \<and> iov_len v > 0"

definition iov_over :: "iovec \<Rightarrow> bool" where
  "iov_over v \<longleftrightarrow> (case iov_base v of None \<Rightarrow> False | Some b \<Rightarrow> length b < iov_len v)"

definition vrrp_net_send ::
    "os \<Rightarrow> vrrp_net \<Rightarrow> iovec list option \<Rightarrow> nat \<Rightarrow> world \<Rightarrow> (int \<times> world) run" where
  "vrrp_net_send os n iov len w =
     (case iov of
        None \<Rightarrow> Ret (-1, w)
      | Some vs \<Rightarrow>
          (case ifname (vif n) of
             None \<Rightarrow> Undef
           | Some nm \<Rightarrow>
               (let w1 = syscall w; vs1 = take len vs in
                if os_ifindex os (tick w) nm = 0 then Ret (-1, w1)
                else if length vs < len \<or> list_ex iov_over vs1 then Undef
                else if list_ex iov_null vs1 \<or> \<not> os_sendmsg os (tick w1) then Ret (-1, syscall w1)
                else Ret (0, emit (Sent (concat (map iov_bytes vs1))) (syscall w1)))))"

section \<open>Reception is total and touches only the packet buffer\<close>

text \<open>
  What the kernel documents of \<open>recvmsg\<close>: an IPv6 source address, and an
  \<open>IPV6_PKTINFO\<close> message that holds an address.
\<close>

definition os_recv_ok :: "os \<Rightarrow> bool" where
  "os_recv_ok os \<longleftrightarrow> (\<forall>t m. os_recvmsg os t = Some m \<longrightarrow> length (rm_src m) = 16
     \<and> (\<forall>d. find_ancillary (rm_cmsgs m) IPV6_PKTINFO = Some d \<longrightarrow> 16 \<le> length d))"

definition pkt_wf :: "vrrp_recv \<Rightarrow> bool" where
  "pkt_wf r \<longleftrightarrow> length (s_ipx r) = 16 \<and> length (d_ipx r) = 16 \<and> length (adv r) = 8"

text \<open>The state in which the daemon reaches its main loop.\<close>

definition net_ready :: "vrrp_net \<Rightarrow> vrrp \<Rightarrow> bool" where
  "net_ready n v \<longleftrightarrow> pkt_wf (pkt n)
     \<and> (case ipx_helper n of None \<Rightarrow> False | Some h \<Rightarrow> net_wf h n)
     \<and> (auth_type v = SIMPLE \<longrightarrow> auth_data v \<noteq> None)"

lemma length_window [simp]: "length (window b off k) = k"
  by (simp add: window_def)

lemma length_set_addr4: "length bs = 4 \<Longrightarrow> length a = 16 \<Longrightarrow> length (set_addr4 bs a) = 16"
  by (simp add: set_addr4_def)

lemma pkt_receive_wf:
  assumes "os_recv_ok os" and "pkt_wf r" and "pkt_receive h os r w = (len, r', pos, buf, w')"
  shows "pkt_wf r' \<and> w' = syscall w"
proof (cases h)
  case VRRP_IP4
  with assms show ?thesis
    by (auto simp: vrrp_ip4_recv_def Let_def pkt_wf_def length_set_addr4)
next
  case VRRP_IP6
  with assms show ?thesis
    by (fastforce simp: vrrp_ip6_recv_def Let_def pkt_wf_def os_recv_ok_def
        split: option.splits)
qed

lemma net_wf_pkt [simp]: "net_wf h (n\<lparr>pkt := r\<rparr>) = net_wf h n"
  by (simp add: net_wf_def)

lemma getsize_pkt [simp]: "adv_getsize h (n\<lparr>pkt := r\<rparr>) = adv_getsize h n"
  by (cases h) (simp_all add: vrrp_ip4_getsize_def vrrp_ip6_getsize_def)

lemma auth_accepts_defined:
  assumes "auth_type v = SIMPLE \<longrightarrow> auth_data v \<noteq> None"
  shows "\<exists>b. auth_accepts v p = Some b"
proof (cases "auth_type v")
  case SIMPLE
  then show ?thesis using assms by (auto simp: auth_accepts_def)
qed (auto simp: auth_accepts_def)

lemma recv_content_frame:
  assumes "auth_type v = SIMPLE \<longrightarrow> auth_data v \<noteq> None" and "pkt_wf r" and "8 \<le> length p"
  shows "\<exists>e r'. recv_content h (n\<lparr>pkt := r\<rparr>) v p w = Ret (e, n\<lparr>pkt := r'\<rparr>, w)
     \<and> pkt_wf r' \<and> e \<in> {INVALID, PKT}"
proof -
  obtain b where b: "auth_accepts v p = Some b" using auth_accepts_defined [OF assms(1)] by blast
  have "pkt_wf (r\<lparr>adv := take VRRP_PKTHDR_SIZE p\<rparr>)"
    using assms by (simp add: pkt_wf_def size_defs)
  with assms(2) show ?thesis
    unfolding recv_content_def by (cases "version v = RFC5798") (auto simp: b)
qed

lemma invalidate_pkt [simp]:
  "vrrp_net_invalidate_buffer (n\<lparr>pkt := r\<rparr>) = n\<lparr>pkt := r\<lparr>adv := (adv r)[0 := 0]\<rparr>\<rparr>"
  by (simp add: vrrp_net_invalidate_buffer_def)

lemma pkt_wf_invalidate [simp]: "pkt_wf (r\<lparr>adv := (adv r)[0 := 0]\<rparr>) = pkt_wf r"
  by (simp add: pkt_wf_def)

lemma span_getsize: "adv_getsize h n \<le> recv_span h n v"
  by (simp add: recv_span_def)

lemma span_header: "8 \<le> recv_span h n v"
  using tab.size_min [of h n] span_getsize [of h n v] by (simp add: size_defs)

lemma vrrp_net_recv_classifies:
  assumes "net_ready n v" and "os_recv_ok os"
  shows "\<exists>e r. vrrp_net_recv os n v w = Ret (e, n\<lparr>pkt := r\<rparr>, syscall w)
     \<and> pkt_wf r \<and> e \<in> {INVALID, VRID_MISMATCH, PKT}"
proof -
  obtain h where h: "ipx_helper n = Some h" "net_wf h n"
    using assms(1) by (auto simp: net_ready_def split: option.splits)
  have auth: "auth_type v = SIMPLE \<longrightarrow> auth_data v \<noteq> None" and wf: "pkt_wf (pkt n)"
    using assms(1) by (simp_all add: net_ready_def)
  obtain len r pos buf w1 where rcv: "pkt_receive h os (pkt n) w = (len, r, pos, buf, w1)"
    by (metis prod_cases5)
  have r: "pkt_wf r" and w1: "w1 = syscall w" using pkt_receive_wf [OF assms(2) wf rcv] by simp_all
  let ?p = "window buf pos (recv_span h n v)" and ?r = "r\<lparr>adv := (adv r)[0 := 0]\<rparr>"
  have addr: "addr_ok (Some (s_ipx r))" "addr_ok (Some (d_ipx r))"
    using r by (simp_all add: pkt_wf_def addr_ok_def)
  obtain c where c: "adv_checksum h (n\<lparr>pkt := ?r\<rparr>) ?p (Some (s_ipx r)) (Some (d_ipx r)) = Some c"
    using tab.chksum_total [of h "n\<lparr>pkt := ?r\<rparr>" ?p, OF _ _ addr] h(2) span_getsize [of h n v]
    by auto
  have p: "8 \<le> length ?p" using span_header [of h n v] by simp
  define G where "G x \<longleftrightarrow> (\<exists>e r. x = Ret (e, n\<lparr>pkt := r\<rparr>, syscall w)
     \<and> pkt_wf r \<and> e \<in> {INVALID, VRID_MISMATCH, PKT})" for x
  have leaf: "G (Ret (INVALID, n\<lparr>pkt := q\<rparr>, w1))" "G (Ret (VRID_MISMATCH, n\<lparr>pkt := q\<rparr>, w1))"
    if "pkt_wf q" for q
    using that w1 by (auto simp: G_def)
  have "G (recv_content h (n\<lparr>pkt := ?r\<rparr>) v ?p w1)"
    using recv_content_frame [OF auth _ p, of ?r h n w1] r w1 by (auto simp: G_def)
  then have "G (vrrp_net_recv os n v w)"
    unfolding vrrp_net_recv_def Let_def h(1) rcv run_opt_simps bind_run.simps prod.case
      invalidate_pkt c
    using r by (intro if_both [of G] leaf) simp_all
  then show ?thesis by (simp only: G_def)
qed


section \<open>What is accepted\<close>

text \<open>
  The rules of RFC 5798, section 7.1 (and of RFC 3768 for version 2) on a datagram, with the size
  bounds and the 8-bit comparison of the interval of this implementation:
  \<open>r\<close> describes the IP header, \<open>p\<close> is the advertisement.
\<close>

definition rfc_acceptable ::
    "vrrp_ipx \<Rightarrow> vrrp_net \<Rightarrow> vrrp \<Rightarrow> int \<Rightarrow> vrrp_recv \<Rightarrow> bytes \<Rightarrow> bool" where
  "rfc_acceptable h n v len r p \<longleftrightarrow>
     int (adv_getsize h n) \<le> len \<and> len \<le> mtu (vif n)
     \<and> 12 \<le> hdr_totlen (header r) - hdr_len (header r)
     \<and> hdr_totlen (header r) - hdr_len (header r) \<le> 1036
     \<and> hdr_proto (header r) = 112 \<and> hdr_ttl (header r) = 255
     \<and> hdr_version p = version v \<and> h_vrid p = vrid v
     \<and> adv_checksum h n p (Some (s_ipx r)) (Some (d_ipx r)) = Some (h_chksum p)
     \<and> priority v \<noteq> PRIO_OWNER
     \<and> (version v = 3 \<or> auth_accepts v p = Some True)
     \<and> (version v = 2 \<longrightarrow> h_priority p = PRIO_OWNER
          \<or> h_naddr p = naddr v \<and> vip_compare h n p = 0)
     \<and> unat (h_adv_int p) = unat (adv_int v)"

lemma checksum_pkt [simp]: "adv_checksum h (n\<lparr>pkt := r\<rparr>) = adv_checksum h n"
  by (cases h; intro ext) (simp_all add: vrrp_ip4_chksum_def vrrp_ip6_chksum_def
      vrrp_ip4_getsize_def vrrp_ip6_getsize_def Let_def cong: option.case_cong)

lemma vip_compare_pkt [simp]: "vip_compare h (n\<lparr>pkt := r\<rparr>) = vip_compare h n"
  by (cases h; intro ext) (simp_all add: vrrp_ip4_viplist_cmp_def vrrp_ip6_viplist_cmp_def
      vrrp_ip4_search_vip_def vrrp_ip6_search_vip_def)

lemma u8_u16_eq: "ucast (x :: u8) = (y :: u16) \<longleftrightarrow> unat x = unat y"
  by (metis unat_ucast_up(1) u16_eq_unatI)

lemma payload_size_range:
  assumes "0 \<le> t" and "t < 2 ^ 31" and "0 \<le> l" and "l < 2 ^ 31"
  shows "unat (word_of_int (t - l) :: u32) < VRRP_PKT_MINSIZE
       \<or> VRRP_PKT_MAXSIZE < unat (word_of_int (t - l) :: u32)
     \<longleftrightarrow> \<not> (12 \<le> t - l \<and> t - l \<le> 1036)"
proof -
  have u: "int (unat (word_of_int (t - l) :: u32)) = (t - l) mod 2 ^ 32"
    by (simp only: uint_word_of_int flip: uint_nat) simp
  define x where "x = unat (word_of_int (t - l) :: u32)"
  show ?thesis
  proof (cases "l \<le> t")
    case True
    then have "(t - l) mod 2 ^ 32 = t - l" using assms by simp
    then have "int x = t - l" using u by (simp only: x_def)
    then show ?thesis unfolding x_def [symmetric] by (simp add: size_defs) linarith
  next
    case False
    then have "(t - l + 2 ^ 32) mod 2 ^ 32 = t - l + 2 ^ 32"
      using assms by (intro mod_pos_pos_trivial) simp_all
    then have "(t - l) mod 2 ^ 32 = t - l + 2 ^ 32" by simp
    then have "int x = t - l + 2 ^ 32" using u by (simp only: x_def)
    then show ?thesis
      using False assms unfolding x_def [symmetric] by (simp add: size_defs)
  qed
qed


text \<open>The header fields a family helper fills in are small and not negative.\<close>

lemma pkt_receive_header:
  assumes "pkt_receive h os r w = (len, r', pos, buf, w')" and "len \<noteq> -1"
  shows "0 \<le> hdr_totlen (header r') \<and> hdr_totlen (header r') < 2 ^ 31
       \<and> 0 \<le> hdr_len (header r') \<and> hdr_len (header r') < 2 ^ 31 \<and> 0 \<le> len"
proof (cases h)
  case VRRP_IP4
  have "uint x < 2 ^ 31" for x :: u16 using uint_lt2p [of x] by simp
  moreover have "uint y < 536870912" for y :: u8 using uint_lt2p [of y] by simp
  ultimately show ?thesis
    using assms VRRP_IP4 by (auto simp: vrrp_ip4_recv_def Let_def split: option.splits)
next
  case VRRP_IP6
  have "int (length (take IP_MAXPACKET x)) \<le> 65535" for x :: bytes
    by (simp add: IP_MAXPACKET_def)
  then show ?thesis
    using assms VRRP_IP6
    by (auto simp: vrrp_ip6_recv_def Let_def IP_MAXPACKET_def split: option.splits)
qed

lemma test_then_PKT:
  "e \<noteq> PKT \<Longrightarrow> ((if b then Ret (e, n, w) else x) = Ret (PKT, n', w'))
     \<longleftrightarrow> \<not> b \<and> x = Ret (PKT, n', w')"
  by simp

lemma recv_content_PKT:
  "recv_content h n v p w = Ret (PKT, n', w') \<longleftrightarrow>
     priority v \<noteq> PRIO_OWNER \<and> (version v = 3 \<or> auth_accepts v p = Some True)
     \<and> (version v = 2 \<longrightarrow> h_priority p = PRIO_OWNER \<or> h_naddr p = naddr v \<and> vip_compare h n p = 0)
     \<and> unat (h_adv_int p) = unat (adv_int v)
     \<and> n' = n\<lparr>pkt := (pkt n)\<lparr>adv := take 8 p\<rparr>\<rparr> \<and> w' = w"
proof -
  have auth: "bind_run (if version v \<noteq> RFC5798 then run_opt (auth_accepts v p) else Ret True)
        (\<lambda>auth. if \<not> auth then Ret (INVALID, n, w) else x) = Ret (PKT, n', w')
     \<longleftrightarrow> (version v = 3 \<or> auth_accepts v p = Some True) \<and> x = Ret (PKT, n', w')" for x
    by (cases "auth_accepts v p") (auto split: if_splits)
  show ?thesis
    unfolding recv_content_def
    by (simp only: test_then_PKT vrrp_event.distinct auth u8_u16_eq size_defs not_False_eq_True)
      auto
qed

lemma vrrp_net_recv_PKT_iff:
  assumes "ipx_helper n = Some h"
    and rcv: "pkt_receive h os (pkt n) w = (len, r, pos, buf, w1)" and len: "len \<noteq> -1"
    and p: "p = window buf pos (recv_span h n v)"
  shows "vrrp_net_recv os n v w = Ret (PKT, n', w') \<longleftrightarrow>
    rfc_acceptable h n v len r p \<and> n' = n\<lparr>pkt := r\<lparr>adv := take 8 p\<rparr>\<rparr> \<and> w' = w1"
proof -
  let ?n = "n\<lparr>pkt := r\<lparr>adv := (adv r)[0 := 0]\<rparr>\<rparr>"
  note hd = pkt_receive_header [OF rcv len]
  have size: "unat (word_of_int (hdr_totlen (header r) - hdr_len (header r)) :: u32) < VRRP_PKT_MINSIZE
      \<or> VRRP_PKT_MAXSIZE < unat (word_of_int (hdr_totlen (header r) - hdr_len (header r)) :: u32)
    \<longleftrightarrow> \<not> (12 \<le> hdr_totlen (header r) - hdr_len (header r)
         \<and> hdr_totlen (header r) - hdr_len (header r) \<le> 1036)"
    using hd by (intro payload_size_range) auto
  have sum: "bind_run (run_opt (adv_checksum h ?n p (Some (s_ipx r)) (Some (d_ipx r))))
        (\<lambda>c. if c \<noteq> h_chksum p then Ret (INVALID, ?n, w1) else recv_content h ?n v p w1)
      = Ret (PKT, n', w')
    \<longleftrightarrow> adv_checksum h n p (Some (s_ipx r)) (Some (d_ipx r)) = Some (h_chksum p)
      \<and> recv_content h ?n v p w1 = Ret (PKT, n', w')"
    by (cases "adv_checksum h n p (Some (s_ipx r)) (Some (d_ipx r))") auto
  have upd: "?n\<lparr>pkt := (pkt ?n)\<lparr>adv := q\<rparr>\<rparr> = n\<lparr>pkt := r\<lparr>adv := q\<rparr>\<rparr>" for q by simp
  have proto: "uint IPPROTO_VRRP = 112" by (simp add: IPPROTO_VRRP_def)
  show ?thesis
    unfolding vrrp_net_recv_def Let_def assms(1) rcv run_opt_simps(2) bind_run.simps prod.case
      invalidate_pkt p [symmetric]
    using len by (simp only: test_then_PKT vrrp_event.distinct sum recv_content_PKT size upd
        rfc_acceptable_def vip_compare_pkt proto VRRP_TTL_def not_less not_False_eq_True
        de_Morgan_disj) auto
qed

text \<open>An accepted advertisement has a version, so the buffer is not the invalidated one.\<close>

lemma vrrp_net_recv_PKT_version:
  assumes "vrrp_net_recv os n v w = Ret (PKT, n', w')" and "version v \<noteq> 0"
  shows "h_version_type (adv (pkt n')) \<noteq> 0"
proof -
  obtain h where h: "ipx_helper n = Some h"
    using assms(1) by (cases "ipx_helper n") (simp_all add: vrrp_net_recv_def)
  obtain len r pos buf w1 where rcv: "pkt_receive h os (pkt n) w = (len, r, pos, buf, w1)"
    by (metis prod_cases5)
  have "len \<noteq> -1" using assms(1) by (auto simp: vrrp_net_recv_def h rcv Let_def)
  let ?p = "window buf pos (recv_span h n v)"
  have "hdr_version ?p = version v" "n' = n\<lparr>pkt := r\<lparr>adv := take 8 ?p\<rparr>\<rparr>"
    using vrrp_net_recv_PKT_iff [OF h rcv \<open>len \<noteq> -1\<close> refl] assms(1)
    by (simp_all add: rfc_acceptable_def)
  moreover have "take 8 ?p ! 0 = ?p ! 0" using span_header [of h n v] by simp
  ultimately show ?thesis using assms(2) by (auto simp: h_version_type_def hdr_version_def)
qed

text \<open>
  C2. Exactly the acceptable datagrams are accepted: the result is \<open>PKT\<close>, with the header of the
  advertisement kept in the packet buffer, if and only if the datagram passes the conjunction
  \<open>rfc_acceptable\<close> of the rules of section 7.1 of RFC 5798 and RFC 3768, in the form the code gives them
  (its size bounds, the interval compared in 8 bits), whatever the order of the tests.
\<close>
theorem vrrp_net_recv_accepts_iff:
  assumes "ipx_helper n = Some h"
    and rcv: "pkt_receive h os (pkt n) w = (len, r, pos, buf, w1)" and len: "len \<noteq> -1"
    and p: "p = window buf pos (recv_span h n v)"
  shows "vrrp_net_recv os n v w = Ret (PKT, n', w') \<longleftrightarrow>
    rfc_acceptable h n v len r p \<and> n' = n\<lparr>pkt := r\<lparr>adv := take 8 p\<rparr>\<rparr> \<and> w' = w1"
  using assms by (rule vrrp_net_recv_PKT_iff)

section \<open>Transmission of exact buffers\<close>

text \<open>What sending one frame does, without the memory conditions.\<close>

definition transmit :: "os \<Rightarrow> string \<Rightarrow> bytes \<Rightarrow> world \<Rightarrow> int \<times> world" where
  "transmit os nm frame w =
     (if os_ifindex os (tick w) nm = 0 then (-1, syscall w)
      else if \<not> os_sendmsg os (Suc (tick w)) then (-1, syscall (syscall w))
      else (0, emit (Sent frame) (syscall (syscall w))))"

definition iov_exact :: "nat \<Rightarrow> iovec \<Rightarrow> bool" where
  "iov_exact k v \<longleftrightarrow> (case iov_base v of None \<Rightarrow> False | Some b \<Rightarrow> length b = k \<and> iov_len v = k)"

lemma iov_exact_ok: "iov_exact k v \<Longrightarrow> \<not> iov_over v \<and> \<not> iov_null v"
  by (auto simp: iov_exact_def iov_over_def iov_null_def split: option.splits)

lemma vrrp_net_send_exact:
  assumes "ifname (vif n) = Some nm" and "length vs = len" and "\<forall>v \<in> set vs. \<exists>k. iov_exact k v"
  shows "vrrp_net_send os n (Some vs) len w = Ret (transmit os nm (concat (map iov_bytes vs)) w)"
proof -
  have "\<not> list_ex iov_over (take len vs)" "\<not> list_ex iov_null (take len vs)"
    using assms(3) iov_exact_ok by (auto simp: list_ex_iff dest: in_set_takeD)
  then show ?thesis using assms(1,2) by (simp add: vrrp_net_send_def transmit_def Let_def)
qed

section \<open>An accepted datagram\<close>

text \<open>A VRRPv3 advertisement of priority 200 from 10.0.0.2, as the raw socket delivers it.\<close>

definition example_advert :: bytes where
  "example_advert = [0x31, 42, 200, 1, 0, 100, 16, 217, 10, 0, 0, 254, 0, 0, 0, 0, 0, 0, 0, 0]"

definition example_datagram :: bytes where
  "example_datagram = [0x45, 0xc0, 0, 40, 0, 0, 0, 0, 255, 112, 0, 0, 10, 0, 0, 2, 224, 0, 0, 18]
     @ example_advert"

definition receiving_os :: os where
  "receiving_os = quiet_os\<lparr>os_read := (\<lambda>_. Some example_datagram)\<rparr>"

definition vnet1 :: vrrp_net where
  "vnet1 = vnet0\<lparr>adv_iov := [\<lparr>iov_base = Some (replicate 14 0), iov_len = 14\<rparr>,
     \<lparr>iov_base = Some ([0x45, 0xc0, 0, 40, 0, 0, 0, 0, 255, 112, 0, 0] @ replicate 8 1), iov_len = 20\<rparr>,
     \<lparr>iov_base = Some example_advert, iov_len = 20\<rparr>]\<rparr>"

lemma net_ready_vnet1: "net_ready vnet1 vrrp0"
  by (simp add: net_ready_def pkt_wf_def net_wf_def vnet1_def example_defs)

lemma os_recv_ok_receiving: "os_recv_ok receiving_os" "os_recv_ok quiet_os"
  by (simp_all add: os_recv_ok_def receiving_os_def quiet_os_def)


definition example_received :: vrrp_recv where
  "example_received = (pkt vnet0)\<lparr>header := \<lparr>hdr_len = 20, hdr_proto = 112, hdr_totlen = 40, hdr_ttl = 255\<rparr>,
     s_ipx := [10, 0, 0, 2] @ replicate 12 0, d_ipx := [224, 0, 0, 18] @ replicate 12 0\<rparr>"

lemma example_receive:
  "pkt_receive VRRP_IP4 receiving_os (pkt vnet1) world0 =
     (40, example_received, 20, buf_after example_datagram (\<lambda>_. 0), syscall world0)"
  by (simp add: vrrp_ip4_recv_def Let_def receiving_os_def quiet_os_def world0_def vnet1_def vnet0_def
      example_received_def buf_after_def window_def set_addr4_def le16_def htons_def
      example_datagram_def example_advert_def IP_MAXPACKET_def upt_rec drop_bit_eq_div)

lemma example_window:
  "window (buf_after example_datagram (\<lambda>_. 0)) 20 (recv_span VRRP_IP4 vnet1 vrrp0) = example_advert"
  by code_simp

lemma example_acceptable:
  "rfc_acceptable VRRP_IP4 vnet1 vrrp0 40 example_received example_advert"
  by code_simp

theorem vrrp_net_recv_accepts_iff_witness:
  "\<exists>n'. vrrp_net_recv receiving_os vnet1 vrrp0 world0 = Ret (PKT, n', syscall world0)
      \<and> h_priority (adv (pkt n')) = 200"
proof -
  have "ipx_helper vnet1 = Some VRRP_IP4" by (simp add: vnet1_def vnet0_def)
  then have "vrrp_net_recv receiving_os vnet1 vrrp0 world0
    = Ret (PKT, vnet1\<lparr>pkt := example_received\<lparr>adv := take 8 example_advert\<rparr>\<rparr>, syscall world0)"
    using example_acceptable
    by (subst vrrp_net_recv_accepts_iff [OF _ example_receive _ example_window [symmetric]]) simp_all
  then show ?thesis by (simp add: example_advert_def h_defs)
qed

end
