(* ===== verification/Vrrp_Adv.thy ===== *)
theory Vrrp_Adv
  imports Vrrp_Net
begin

text \<open>
  The emitted advertisement, \<^verbatim>\<open>vrrp_adv.c\<close> and \<^verbatim>\<open>vrrp_adv.h\<close>: the three buffers
  \<open>vnet->__adv\<close> (Ethernet header, IP header, VRRP packet), their construction in
  freshly allocated memory, their transmission, the priority-0 variant, and the
  accessors of the received advertisement.  The main result is the round trip: what
  \<open>vrrp_adv_init\<close> builds, \<open>vrrp_net_recv\<close> of a peer accepts.
\<close>

section \<open>Headers\<close>

definition INADDR_VRRP_GROUP :: u32 where "INADDR_VRRP_GROUP = 0xe0000012"
definition ETHDR_SIZE :: nat where "ETHDR_SIZE = 14"
definition ETH_P_IP :: u16 where "ETH_P_IP = 0x0800"
definition ETH_P_IPV6 :: u16 where "ETH_P_IPV6 = 0x86dd"
definition VRRP_TYPE_ADV :: int where "VRRP_TYPE_ADV = 1"

text \<open>The bytes of a 32-bit number in network order (\<open>htonl\<close> stored to memory).\<close>

definition store_be32 :: "u32 \<Rightarrow> bytes" where
  "store_be32 x = [ucast (drop_bit 24 x), ucast (drop_bit 16 x), ucast (drop_bit 8 x), ucast x]"

definition vrrp_adv_eth :: bytes where
  "vrrp_adv_eth =
     [0x01, 0x00, 0x5e, ucast (drop_bit 16 INADDR_VRRP_GROUP AND 0x7F),
      ucast (drop_bit 8 INADDR_VRRP_GROUP AND 0xFF), ucast (INADDR_VRRP_GROUP AND 0xFF),
      0x00, 0x00, 0x5e, 0x00, 0x01, 0x00, 0x00, 0x00]"

text \<open>
  Each builder takes and returns the element of the array it fills.  \<open>malloc\<close> failure
  leaves a null base and the old length.
\<close>

definition vrrp_adv_eth_build :: "os \<Rightarrow> iovec \<Rightarrow> u8 \<Rightarrow> int \<Rightarrow> world \<Rightarrow> int \<times> iovec \<times> world" where
  "vrrp_adv_eth_build os iov vid fam w =
     (case os_malloc os (tick w) of
        None \<Rightarrow> (-1, iov\<lparr>iov_base := None\<rparr>, syscall w)
      | Some old \<Rightarrow>
          (let hdr = vrrp_adv_eth[11 := vid];
               ty = htons (if fam = AF_INET then ETH_P_IP else ETH_P_IPV6)
           in (0, \<lparr>iov_base = Some (take 12 hdr @ store16 ty), iov_len = ETHDR_SIZE\<rparr>, syscall w)))"

text \<open>The 20 bytes of the IPv4 header with a given checksum field.\<close>

definition adv_iphdr :: "nat \<Rightarrow> bytes \<Rightarrow> bytes \<Rightarrow> bytes" where
  "adv_iphdr sz check saddr =
     [0x45, 0x00] @ store16 (htons (of_nat (IPHDR_SIZE + sz))) @ store16 (htons 0xdead)
     @ [0x00, 0x00] @ [0xff, IPPROTO_VRRP] @ check @ saddr @ store_be32 INADDR_VRRP_GROUP"

definition vrrp_adv_ip4_build ::
    "os \<Rightarrow> iovec \<Rightarrow> vrrp_net \<Rightarrow> world \<Rightarrow> (int \<times> iovec \<times> world) run" where
  "vrrp_adv_ip4_build os iov n w =
     (case os_malloc os (tick w) of
        None \<Rightarrow> Ret (-1, iov\<lparr>iov_base := None\<rparr>, syscall w)
      | Some old \<Rightarrow>
          bind_run (run_opt (ipx_helper n)) (\<lambda>h.
            (let saddr = addr4 (vif_ipx (vif n)); sz = adv_getsize h n in
             bind_run (run_opt (cksum (adv_iphdr sz [0, 0] saddr) IPHDR_SIZE)) (\<lambda>c.
               Ret (0, \<lparr>iov_base = Some (adv_iphdr sz (store16 c) saddr),
                        iov_len = IPHDR_SIZE\<rparr>, syscall w)))))"

definition vrrp_adv_ip6_build ::
    "os \<Rightarrow> iovec \<Rightarrow> vrrp_net \<Rightarrow> world \<Rightarrow> (int \<times> iovec \<times> world) run" where
  "vrrp_adv_ip6_build os iov n w =
     (case os_malloc os (tick w) of
        None \<Rightarrow> Ret (-1, iov\<lparr>iov_base := None\<rparr>, syscall w)
      | Some old \<Rightarrow>
          bind_run (run_opt (ipx_helper n)) (\<lambda>h.
            (let hd = [0x60, 0, 0, 0] @ store16 (htons (of_nat (adv_getsize h n)))
                      @ [IPPROTO_VRRP, 0xff] @ addr6 (vif_ipx (vif n))
             in case os_pton os AF_INET6 ''FF02::12'' of
                  None \<Rightarrow> Ret (-1, iov\<lparr>iov_base := Some (hd @ map old [24..<40])\<rparr>, syscall w)
                | Some dst \<Rightarrow>
                    Ret (0, \<lparr>iov_base = Some (hd @ dst), iov_len = 40\<rparr>, syscall w))))"

section \<open>The VRRP packet\<close>

text \<open>The fixed part, written into memory with contents \<open>old\<close>.\<close>

definition adv_header :: "vrrp_net \<Rightarrow> vrrp \<Rightarrow> bytes \<Rightarrow> bytes" where
  "adv_header n v old =
     (let b = old[0 := word_of_int (push_bit 4 (version v) OR VRRP_TYPE_ADV),
                  1 := net_vrid n, 2 := priority v, 3 := naddr v]
      in if version v = RFC3768 then b[4 := authtype_val (auth_type v), 5 := ucast (adv_int v)]
         else if version v = RFC5798 then
           b[4 := store16 (htons (adv_int v)) ! 0, 5 := store16 (htons (adv_int v)) ! 1]
         else b)"

text \<open>
  The loop over the addresses, last one first.  \<open>pos\<close> counts 32-bit words; the count is
  compared with \<open>naddr\<close> only after the address has been written.  The flag tells
  whether the loop ran to its end.
\<close>

definition vip_bytes :: "int \<Rightarrow> vrrp_ip \<Rightarrow> bytes" where
  "vip_bytes fam vip = (if fam = AF_INET then addr4 (ipx vip) else addr6 (ipx vip))"

fun adv_write_vips ::
    "int \<Rightarrow> u8 \<Rightarrow> vrrp_ip list \<Rightarrow> bytes \<Rightarrow> nat \<Rightarrow> nat \<Rightarrow> (bool \<times> bytes \<times> nat) run" where
  "adv_write_vips fam na [] buf pos k = Ret (True, buf, pos)"
| "adv_write_vips fam na (vip # vs) buf pos k =
     bind_run (run_opt (write_at buf (VRRP_PKTHDR_SIZE + 4 * pos) (vip_bytes fam vip)))
       (\<lambda>buf'. let pos' = (if fam = AF_INET then pos + 1 else pos + 4) in
          if Suc k > unat na then Ret (False, buf', pos')
          else adv_write_vips fam na vs buf' pos' (Suc k))"

definition adv_write_auth :: "vrrp \<Rightarrow> bytes \<Rightarrow> nat \<Rightarrow> bytes run" where
  "adv_write_auth v buf pos =
     (case auth_data v of
        Some a \<Rightarrow> if version v = RFC2338 \<and> auth_type v = SIMPLE
                  then run_opt (write_at buf (VRRP_PKTHDR_SIZE + 4 * pos) (of_string a))
                  else Ret buf
      | None \<Rightarrow> Ret buf)"

definition vrrp_adv_build ::
    "os \<Rightarrow> iovec \<Rightarrow> vrrp_net \<Rightarrow> vrrp \<Rightarrow> world \<Rightarrow> (int \<times> iovec \<times> world) run" where
  "vrrp_adv_build os iov n v w =
     bind_run (run_opt (ipx_helper n)) (\<lambda>h.
       case os_malloc os (tick w) of
         None \<Rightarrow> Ret (-1, iov\<lparr>iov_base := None\<rparr>, syscall w)
       | Some old \<Rightarrow>
           bind_run (adv_write_vips (family n) (naddr v) (rev (vip_list n))
                       (adv_header n v (map old [0..<adv_getsize h n])) 0 0)
             (\<lambda>(fits, buf, pos).
                if \<not> fits then Ret (-1, iov\<lparr>iov_base := Some buf\<rparr>, syscall w)
                else bind_run (adv_write_auth v buf pos) (\<lambda>p.
                       bind_run (run_opt (adv_checksum h n p None None)) (\<lambda>c.
                         Ret (0, \<lparr>iov_base = Some (set_h_chksum c p), iov_len = adv_getsize h n\<rparr>,
                              syscall w)))))"

definition vrrp_adv_init ::
    "os \<Rightarrow> vrrp_net \<Rightarrow> vrrp \<Rightarrow> world \<Rightarrow> (int \<times> vrrp_net \<times> world) run" where
  "vrrp_adv_init os n v w =
     (case vrrp_adv_eth_build os (adv_iov n ! 0) (net_vrid n) (family n) w of (st0, iov0, w0) \<Rightarrow>
        (let n0 = n\<lparr>adv_iov := (adv_iov n)[0 := iov0]\<rparr> in
         bind_run (if family n0 = AF_INET then vrrp_adv_ip4_build os (adv_iov n0 ! 1) n0 w0
                   else vrrp_adv_ip6_build os (adv_iov n0 ! 1) n0 w0)
           (\<lambda>(st1, iov1, w1).
              let n1 = n0\<lparr>adv_iov := (adv_iov n0)[1 := iov1]\<rparr> in
              bind_run (vrrp_adv_build os (adv_iov n1 ! 2) n1 v w1)
                (\<lambda>(st2, iov2, w2).
                   Ret (st0 OR st1 OR st2, n1\<lparr>adv_iov := (adv_iov n1)[2 := iov2]\<rparr>, w2)))))"

section \<open>Transmission\<close>

definition vrrp_adv_send :: "os \<Rightarrow> vrrp_net \<Rightarrow> world \<Rightarrow> (int \<times> world) run" where
  "vrrp_adv_send os n w = vrrp_net_send os n (Some (adv_iov n)) 3 w"

text \<open>The packet in \<open>vnet->__adv[2].iov_base\<close>, and storing through that pointer.\<close>

definition adv_pkt :: "vrrp_net \<Rightarrow> bytes option" where
  "adv_pkt n = iov_base (adv_iov n ! 2)"

definition set_adv_pkt :: "bytes \<Rightarrow> vrrp_net \<Rightarrow> vrrp_net" where
  "set_adv_pkt p n =
     n\<lparr>adv_iov := (adv_iov n)[2 := (adv_iov n ! 2)\<lparr>iov_base := Some p\<rparr>]\<rparr>"

definition vrrp_adv_send_zero :: "os \<Rightarrow> vrrp_net \<Rightarrow> world \<Rightarrow> (int \<times> vrrp_net \<times> world) run" where
  "vrrp_adv_send_zero os n w =
     bind_run (run_opt (adv_pkt n)) (\<lambda>p.
       let prio = h_priority p;
           p1 = set_h_priority 0 p;
           old = h_chksum p1
       in bind_run (run_opt (ipx_helper n)) (\<lambda>h.
            bind_run (run_opt (adv_checksum h (set_adv_pkt p1 n) p1 None None)) (\<lambda>c.
              let p2 = set_h_chksum c p1; n2 = set_adv_pkt p2 n
              in bind_run (vrrp_net_send os n2 (Some (adv_iov n2)) 3 w) (\<lambda>(ret, w1).
                   Ret (ret, set_adv_pkt (set_h_chksum old (set_h_priority prio p2)) n2, w1)))))"

definition vrrp_adv_cleanup :: "vrrp_net \<Rightarrow> vrrp_net" where
  "vrrp_adv_cleanup n = n\<lparr>adv_iov := map (\<lambda>iov. iov\<lparr>iov_base := None\<rparr>) (adv_iov n)\<rparr>"

section \<open>Accessors (\<open>vrrp_adv.h\<close>)\<close>

definition vrrp_adv_get_version :: "vrrp_net \<Rightarrow> int" where
  "vrrp_adv_get_version n = uint (h_version_type (adv (pkt n)))"

definition vrrp_adv_get_priority :: "vrrp_net \<Rightarrow> int" where
  "vrrp_adv_get_priority n = uint (h_priority (adv (pkt n)))"

definition vrrp_adv_set_priority :: "vrrp_net \<Rightarrow> u8 \<Rightarrow> vrrp_net run" where
  "vrrp_adv_set_priority n prio =
     bind_run (run_opt (adv_pkt n)) (\<lambda>p.
       bind_run (run_opt (ipx_helper n)) (\<lambda>h.
         let p1 = set_h_priority prio p
         in bind_run (run_opt (adv_checksum h (set_adv_pkt p1 n) p1 None None)) (\<lambda>c.
              Ret (set_adv_pkt (set_h_chksum c p1) n))))"

definition vrrp_adv_addr_to_str :: "os \<Rightarrow> vrrp_net \<Rightarrow> string run" where
  "vrrp_adv_addr_to_str os n =
     bind_run (run_opt (ipx_helper n)) (\<lambda>h. Ret (ipx_to_str h os (s_ipx (pkt n))))"

definition vrrp_adv_addr_cmp :: "vrrp_net \<Rightarrow> int run" where
  "vrrp_adv_addr_cmp n =
     bind_run (run_opt (ipx_helper n)) (\<lambda>h. Ret (ipx_cmp h (s_ipx (pkt n)) (vif_ipx (vif n))))"

definition vrrp_adv_get_advint :: "vrrp_net \<Rightarrow> u16" where
  "vrrp_adv_get_advint n =
     (if hdr_version (adv (pkt n)) = RFC5798 then htons (h_max_adv_int (adv (pkt n)))
      else ucast (h_adv_int (adv (pkt n))))"

section \<open>The state the builders establish\<close>

definition iphdr_size :: "vrrp_ipx \<Rightarrow> nat" where
  "iphdr_size h = (case h of VRRP_IP4 \<Rightarrow> 20 | VRRP_IP6 \<Rightarrow> 40)"

text \<open>Three buffers of the right sizes, and a packet whose checksum verifies.\<close>

definition adv_ready :: "vrrp_net \<Rightarrow> bool" where
  "adv_ready n \<longleftrightarrow> length (adv_iov n) = 3
     \<and> (case ipx_helper n of
          None \<Rightarrow> False
        | Some h \<Rightarrow> iov_exact ETHDR_SIZE (adv_iov n ! 0)
            \<and> iov_exact (iphdr_size h) (adv_iov n ! 1)
            \<and> iov_exact (adv_getsize h n) (adv_iov n ! 2)
            \<and> (case adv_pkt n of None \<Rightarrow> False
               | Some p \<Rightarrow> adv_checksum h n p None None = Some (h_chksum p)))"

text \<open>A configuration as \<open>vrrp_options\<close> and the interface set-up leave it.\<close>

definition vip_size :: "int \<Rightarrow> nat" where
  "vip_size fam = (if fam = AF_INET then 4 else 16)"

definition conf_base :: "vrrp_net \<Rightarrow> vrrp \<Rightarrow> bool" where
  "conf_base n v \<longleftrightarrow> length (adv_iov n) = 3 \<and> length (vif_ipx (vif n)) = 16
     \<and> list_all (\<lambda>vip. length (ipx vip) = 16) (vip_list n)
     \<and> length (vip_list n) = unat (naddr v) \<and> net_naddr n = naddr v \<and> net_vrid n = vrid v
     \<and> (family n = AF_INET \<or> family n = AF_INET6) \<and> ipx_helper n = vrrp_ipx_set (family n)
     \<and> (version v = 2 \<or> version v = 3)
     \<and> (auth_type v = SIMPLE \<longrightarrow> (case auth_data v of None \<Rightarrow> False | Some a \<Rightarrow> length a \<le> 8))"

text \<open>The room for the password after the addresses, and whether the password fits into it.\<close>

definition tail_size :: "int \<Rightarrow> nat" where
  "tail_size fam = (if fam = AF_INET then 8 else 0)"

definition auth_fits :: "vrrp_net \<Rightarrow> vrrp \<Rightarrow> bool" where
  "auth_fits n v \<longleftrightarrow> (version v = 2 \<and> auth_type v = SIMPLE \<longrightarrow>
     (case auth_data v of None \<Rightarrow> True | Some a \<Rightarrow> length a \<le> tail_size (family n)))"

definition conf_ok :: "vrrp_net \<Rightarrow> vrrp \<Rightarrow> bool" where
  "conf_ok n v \<longleftrightarrow> conf_base n v \<and> auth_fits n v"

lemma conf_okD: "conf_ok n v \<Longrightarrow> conf_base n v"
  by (simp add: conf_ok_def)

lemma auth_fits_ip4: "conf_base n v \<Longrightarrow> family n = AF_INET \<Longrightarrow> auth_fits n v"
  by (auto simp: conf_base_def auth_fits_def tail_size_def split: option.splits)

lemma auth_fits_v3: "version v = 3 \<Longrightarrow> auth_fits n v"
  by (simp add: auth_fits_def)

definition build_os :: "os \<Rightarrow> bool" where
  "build_os os \<longleftrightarrow> (\<forall>t. os_malloc os t \<noteq> None)
     \<and> (\<exists>a. os_pton os AF_INET6 ''FF02::12'' = Some a \<and> length a = 16)"

lemma adv_ready_wf:
  assumes "adv_ready n"
  obtains h p where "ipx_helper n = Some h" "net_wf h n" "adv_pkt n = Some p"
    "length p = adv_getsize h n" "adv_checksum h n p None None = Some (h_chksum p)"
    "length (adv_iov n) = 3"
  using assms
  by (auto simp: adv_ready_def net_wf_def iov_exact_def iphdr_size_def adv_pkt_def
      split: option.splits vrrp_ipx.splits)

section \<open>Layout of the packet\<close>

text \<open>The first six bytes, the addresses, and the password field.\<close>

definition adv_fixed :: "vrrp_net \<Rightarrow> vrrp \<Rightarrow> bytes" where
  "adv_fixed n v =
     [word_of_int (16 * version v + 1), net_vrid n, priority v, naddr v]
     @ (if version v = 2 then [authtype_val (auth_type v), ucast (adv_int v)]
        else [ucast (drop_bit 8 (adv_int v)), ucast (adv_int v)])"

definition adv_addrs :: "vrrp_net \<Rightarrow> bytes" where
  "adv_addrs n = concat (map (vip_bytes (family n)) (rev (vip_list n)))"

lemma length_adv_fixed [simp]: "length (adv_fixed n v) = 6"
  by (simp add: adv_fixed_def)

lemma list8_cases:
  assumes "8 \<le> length xs"
  obtains a b c d e f g h r where "xs = a # b # c # d # e # f # g # h # r"
  using assms by (auto simp: numeral_eq_Suc Suc_le_length_iff)

lemma adv_header_layout:
  assumes "8 \<le> length old" and "version v = 2 \<or> version v = 3"
  shows "adv_header n v old = adv_fixed n v @ drop 6 old"
proof -
  have vt: "push_bit 4 (version v) OR VRRP_TYPE_ADV = 16 * version v + 1"
    using assms(2) by (auto simp: VRRP_TYPE_ADV_def)
  obtain a b c d e f g h r where "old = a # b # c # d # e # f # g # h # r"
    using assms(1) by (rule list8_cases)
  then show ?thesis
    using assms(2) by (auto simp: adv_header_def adv_fixed_def vt Let_def store16_htons)
qed

lemma length_vip_bytes: "length (ipx vip) = 16 \<Longrightarrow> length (vip_bytes fam vip) = vip_size fam"
  by (simp add: vip_bytes_def vip_size_def)

lemma adv_write_vips_layout:
  assumes "list_all (\<lambda>vip. length (ipx vip) = 16) vs" and "k + length vs \<le> unat na"
    and "length a = 8 + 4 * pos" and "length mid = vip_size fam * length vs"
  shows "adv_write_vips fam na vs (a @ mid @ c) pos k =
    Ret (True, a @ concat (map (vip_bytes fam) vs) @ c, pos + (vip_size fam div 4) * length vs)"
  using assms
proof (induction vs arbitrary: a mid pos k)
  case (Cons vip vs)
  let ?b = "vip_bytes fam vip" and ?st = "vip_size fam div 4"
  obtain m1 m2 where m: "mid = m1 @ m2" "length m1 = vip_size fam"
      "length m2 = vip_size fam * length vs"
    using Cons.prems(4) by (intro that [of "take (vip_size fam) mid" "drop (vip_size fam) mid"]) simp_all
  have b: "length ?b = vip_size fam" using Cons.prems(1) by (simp add: length_vip_bytes)
  have step: "(if fam = AF_INET then pos + 1 else pos + 4) = pos + ?st" "4 * ?st = vip_size fam"
    by (simp_all add: vip_size_def)
  have "write_at (a @ mid @ c) (VRRP_PKTHDR_SIZE + 4 * pos) ?b = Some ((a @ ?b) @ m2 @ c)"
    using write_at_append [of a "VRRP_PKTHDR_SIZE + 4 * pos" m1 ?b "m2 @ c"] m b Cons.prems(3)
    by (simp add: size_defs)
  moreover have "adv_write_vips fam na vs ((a @ ?b) @ m2 @ c) (pos + ?st) (Suc k) =
    Ret (True, (a @ ?b) @ concat (map (vip_bytes fam) vs) @ c, (pos + ?st) + ?st * length vs)"
    using Cons.prems m(3) b step(2) by (intro Cons.IH) simp_all
  ultimately show ?case
    using Cons.prems(2) step(1) by (simp add: Let_def)
qed simp

lemma conf_helper:
  assumes "conf_base n v" and "ipx_helper n = Some h"
  shows "h = (if family n = AF_INET then VRRP_IP4 else VRRP_IP6)"
  using assms by (auto simp: conf_base_def vrrp_ipx_set_def split: if_splits)

lemma getsize_layout:
  assumes "conf_base n v" and "ipx_helper n = Some h"
  shows "adv_getsize h n = 8 + vip_size (family n) * length (vip_list n) + tail_size (family n)"
proof -
  have "unat (net_naddr n) = length (vip_list n)" using assms(1) by (simp add: conf_base_def)
  then show ?thesis
    using conf_helper [OF assms]
    by (auto simp: vrrp_ip4_getsize_def vrrp_ip6_getsize_def size_defs vip_size_def tail_size_def)
qed

lemma length_adv_addrs:
  assumes "conf_base n v"
  shows "length (adv_addrs n) = vip_size (family n) * length (vip_list n)"
proof -
  have "length (concat (map (vip_bytes fam) vs)) = vip_size fam * length vs"
    if "list_all (\<lambda>vip. length (ipx vip) = 16) vs" for fam vs
    using that by (induction vs) (simp_all add: length_vip_bytes)
  then show ?thesis using assms by (simp add: adv_addrs_def conf_base_def list_all_rev)
qed

text \<open>The password is in place when there is one.\<close>

definition auth_placed :: "vrrp \<Rightarrow> bytes \<Rightarrow> bool" where
  "auth_placed v tail \<longleftrightarrow>
     (version v = 2 \<and> auth_type v = SIMPLE \<longrightarrow>
        (case auth_data v of None \<Rightarrow> True | Some a \<Rightarrow> take (length a) tail = of_string a))"

lemma adv_write_auth_layout:
  assumes "conf_ok n v" and "length b = 8 + 4 * pos" and "length tail = tail_size (family n)"
  shows "\<exists>tail'. adv_write_auth v (b @ tail) pos = Ret (b @ tail')
    \<and> length tail' = tail_size (family n) \<and> auth_placed v tail'"
proof (cases "version v = 2 \<and> auth_type v = SIMPLE")
  case True
  then obtain a where a: "auth_data v = Some a" "length a \<le> tail_size (family n)"
    using assms(1) by (auto simp: conf_ok_def conf_base_def auth_fits_def split: option.splits)
  then have "write_at (b @ tail) (VRRP_PKTHDR_SIZE + 4 * pos) (of_string a)
      = Some (b @ of_string a @ drop (length a) tail)"
    using assms(2,3) by (simp add: write_at_def size_defs)
  then show ?thesis
    using True a assms(3)
    by (intro exI [of _ "of_string a @ drop (length a) tail"])
      (simp add: adv_write_auth_def auth_placed_def)
next
  case False
  then have "adv_write_auth v (b @ tail) pos = Ret (b @ tail)"
    by (auto simp: adv_write_auth_def split: option.splits)
  moreover have "auth_placed v tail" using False by (auto simp: auth_placed_def)
  ultimately show ?thesis using assms(3) by blast
qed

lemma seal_layout:
  "length f = 6 \<Longrightarrow> set_h_chksum c (f @ [x, y] @ r) = f @ store16 c @ r"
  by (simp add: h_defs list_update_append store16_def)

text \<open>The buffer before the password is written.\<close>

lemma adv_write_vips_conf:
  assumes conf: "conf_base n v" and h: "ipx_helper n = Some h"
  obtains x y t where "length t = tail_size (family n)"
    "adv_write_vips (family n) (naddr v) (rev (vip_list n)) (adv_header n v (map old [0..<adv_getsize h n])) 0 0
      = Ret (True, (adv_fixed n v @ [x, y] @ adv_addrs n) @ t, vip_size (family n) div 4 * length (vip_list n))"
    "length (adv_fixed n v @ [x, y] @ adv_addrs n) = 8 + 4 * (vip_size (family n) div 4 * length (vip_list n))"
    "length (adv_fixed n v @ [x, y] @ adv_addrs n @ t) = adv_getsize h n"
proof -
  note sz = getsize_layout [OF conf h]
  let ?mem = "map old [0..<adv_getsize h n]"
  have ver: "version v = 2 \<or> version v = 3" using conf by (simp add: conf_base_def)
  define mid where "mid = take (length (adv_addrs n)) (drop 8 ?mem)"
  define t where "t = drop (8 + length (adv_addrs n)) ?mem"
  have lmid: "length mid = vip_size (family n) * length (rev (vip_list n))"
    and lt: "length t = tail_size (family n)"
    by (simp_all add: mid_def t_def sz length_adv_addrs [OF conf])
  have "drop 8 ?mem = mid @ t" by (simp add: mid_def t_def add.commute flip: drop_drop)
  moreover have "drop 6 ?mem = [old 6, old 7] @ drop 8 ?mem"
    using sz Cons_nth_drop_Suc [of 6 ?mem] Cons_nth_drop_Suc [of 7 ?mem] by simp
  ultimately have hdr: "adv_header n v ?mem = (adv_fixed n v @ [old 6, old 7]) @ mid @ t"
    using adv_header_layout [of ?mem v n] ver sz by simp
  have vips: "adv_write_vips (family n) (naddr v) (rev (vip_list n)) (adv_header n v ?mem) 0 0
      = Ret (True, (adv_fixed n v @ [old 6, old 7] @ adv_addrs n) @ t,
             vip_size (family n) div 4 * length (vip_list n))"
    unfolding hdr using conf lmid
    by (subst adv_write_vips_layout) (simp_all add: adv_addrs_def conf_base_def list_all_rev)
  moreover have "length (adv_fixed n v @ [old 6, old 7] @ adv_addrs n)
      = 8 + 4 * (vip_size (family n) div 4 * length (vip_list n))"
    by (simp add: length_adv_addrs [OF conf] vip_size_def)
  moreover have "length (adv_fixed n v @ [old 6, old 7] @ adv_addrs n @ t) = adv_getsize h n"
    by (simp add: sz length_adv_addrs [OF conf] lt)
  ultimately show ?thesis using that lt by blast
qed

lemma vrrp_adv_build_layout:
  assumes conf: "conf_ok n v" and os: "build_os os" and h: "ipx_helper n = Some h"
    and wf: "net_wf h n"
  obtains p ck tail where
    "vrrp_adv_build os iov n v w = Ret (0, \<lparr>iov_base = Some p, iov_len = adv_getsize h n\<rparr>, syscall w)"
    "p = adv_fixed n v @ ck @ adv_addrs n @ tail" "length ck = 2"
    "length tail = tail_size (family n)" "auth_placed v tail"
    "length p = adv_getsize h n" "adv_checksum h n p None None = Some (h_chksum p)"
proof -
  obtain old where old: "os_malloc os (tick w) = Some old" using os by (auto simp: build_os_def)
  obtain x y t where vips: "length t = tail_size (family n)"
    "adv_write_vips (family n) (naddr v) (rev (vip_list n)) (adv_header n v (map old [0..<adv_getsize h n])) 0 0
      = Ret (True, (adv_fixed n v @ [x, y] @ adv_addrs n) @ t, vip_size (family n) div 4 * length (vip_list n))"
    "length (adv_fixed n v @ [x, y] @ adv_addrs n) = 8 + 4 * (vip_size (family n) div 4 * length (vip_list n))"
    "length (adv_fixed n v @ [x, y] @ adv_addrs n @ t) = adv_getsize h n"
    using adv_write_vips_conf [OF conf_okD [OF conf] h] by blast
  obtain tail where tail: "length tail = tail_size (family n)" "auth_placed v tail"
      "adv_write_auth v ((adv_fixed n v @ [x, y] @ adv_addrs n) @ t)
         (vip_size (family n) div 4 * length (vip_list n))
       = Ret ((adv_fixed n v @ [x, y] @ adv_addrs n) @ tail)"
    using adv_write_auth_layout [OF conf vips(3,1)] by blast
  let ?q = "adv_fixed n v @ [x, y] @ adv_addrs n @ tail"
  have lq: "length ?q = adv_getsize h n" using vips(1,4) tail(1) by simp
  obtain c where c: "adv_checksum h n ?q None None = Some c"
    and seal: "adv_checksum h n (set_h_chksum c ?q) None None = Some (h_chksum (set_h_chksum c ?q))"
    using tab.seal_exists [OF wf, of ?q None None] lq by (auto simp: addr_ok_def)
  show ?thesis
  proof (rule that)
    show "vrrp_adv_build os iov n v w
        = Ret (0, \<lparr>iov_base = Some (set_h_chksum c ?q), iov_len = adv_getsize h n\<rparr>, syscall w)"
      using vips(2) tail(3) c by (simp add: vrrp_adv_build_def h old)
    show "set_h_chksum c ?q = adv_fixed n v @ store16 c @ adv_addrs n @ tail"
      by (rule seal_layout) simp
  qed (use tail lq seal in simp_all)
qed

text \<open>A password that does not fit is written past the end of the buffer.\<close>

lemma vrrp_adv_build_overflow:
  assumes conf: "conf_base n v" and os: "build_os os" and h: "ipx_helper n = Some h" and "\<not> auth_fits n v"
  shows "vrrp_adv_build os iov n v w = Undef"
proof -
  obtain a where a: "version v = 2" "auth_type v = SIMPLE" "auth_data v = Some a" "tail_size (family n) < length a"
    using assms(4) by (auto simp: auth_fits_def split: option.splits)
  obtain old where old: "os_malloc os (tick w) = Some old" using os by (auto simp: build_os_def)
  obtain x y t where vips: "length t = tail_size (family n)"
    "adv_write_vips (family n) (naddr v) (rev (vip_list n)) (adv_header n v (map old [0..<adv_getsize h n])) 0 0
      = Ret (True, (adv_fixed n v @ [x, y] @ adv_addrs n) @ t, vip_size (family n) div 4 * length (vip_list n))"
    "length (adv_fixed n v @ [x, y] @ adv_addrs n) = 8 + 4 * (vip_size (family n) div 4 * length (vip_list n))"
    using adv_write_vips_conf [OF conf h] by blast
  have "write_at (b @ t) (VRRP_PKTHDR_SIZE + 4 * pos) (of_string a) = None" if "length b = 8 + 4 * pos" for b pos
    using that vips(1) a(4) by (simp add: write_at_def size_defs)
  from this [OF vips(3)] show ?thesis
    using vips(2) a(1-3) by (simp add: vrrp_adv_build_def h old adv_write_auth_def)
qed

section \<open>Initialisation\<close>

lemma length_store_be32 [simp]: "length (store_be32 x) = 4"
  by (simp add: store_be32_def)

lemma length_adv_iphdr [simp]: "length (adv_iphdr sz ck sa) = 14 + length ck + length sa"
  by (simp add: adv_iphdr_def)

lemma vrrp_adv_eth_build_ok:
  assumes "build_os os"
  shows "\<exists>e. vrrp_adv_eth_build os iov vid fam w
      = (0, \<lparr>iov_base = Some e, iov_len = ETHDR_SIZE\<rparr>, syscall w) \<and> length e = ETHDR_SIZE"
proof -
  obtain old where "os_malloc os (tick w) = Some old" using assms by (auto simp: build_os_def)
  then show ?thesis
    by (simp add: vrrp_adv_eth_build_def Let_def vrrp_adv_eth_def ETHDR_SIZE_def)
qed

lemma adv_iphdr_sealed:
  assumes "length sa = 4"
  shows "\<exists>c. cksum (adv_iphdr sz [0, 0] sa) IPHDR_SIZE = Some c
     \<and> cksum (adv_iphdr sz (store16 c) sa) IPHDR_SIZE = Some 0"
proof -
  define pre where "pre = [0x45, 0x00] @ store16 (htons (of_nat (IPHDR_SIZE + sz)))
     @ store16 (htons 0xdead) @ [0x00, 0x00] @ [0xff, IPPROTO_VRRP]"
  define post where "post = sa @ store_be32 INADDR_VRRP_GROUP"
  have split: "adv_iphdr sz ck sa = pre @ ck @ post" for ck
    by (simp add: adv_iphdr_def pre_def post_def)
  have len: "length pre = 10" "length post = 8" using assms by (simp_all add: pre_def post_def)
  then obtain c where c: "cksum (pre @ [0, 0] @ post) 20 = Some c"
    using cksum_total [of 20 "pre @ [0, 0] @ post"] by auto
  then have "cksum (pre @ store16 c @ post) 20 = Some 0"
    using cksum_seal [of pre post c] len by simp
  with c show ?thesis by (auto simp: split IPHDR_SIZE_def)
qed

lemma vrrp_adv_ip4_build_ok:
  assumes "build_os os" and "ipx_helper n = Some h" and "length (vif_ipx (vif n)) = 16"
  shows "\<exists>c. vrrp_adv_ip4_build os iov n w = Ret (0, \<lparr>iov_base =
        Some (adv_iphdr (adv_getsize h n) (store16 c) (addr4 (vif_ipx (vif n)))),
        iov_len = IPHDR_SIZE\<rparr>, syscall w)
     \<and> cksum (adv_iphdr (adv_getsize h n) (store16 c) (addr4 (vif_ipx (vif n)))) IPHDR_SIZE = Some 0"
proof -
  obtain old where old: "os_malloc os (tick w) = Some old" using assms(1) by (auto simp: build_os_def)
  obtain c where "cksum (adv_iphdr (adv_getsize h n) [0, 0] (addr4 (vif_ipx (vif n)))) IPHDR_SIZE = Some c"
    "cksum (adv_iphdr (adv_getsize h n) (store16 c) (addr4 (vif_ipx (vif n)))) IPHDR_SIZE = Some 0"
    using adv_iphdr_sealed [of "addr4 (vif_ipx (vif n))" "adv_getsize h n"] assms(3) by auto
  then show ?thesis by (intro exI [of _ c]) (simp add: vrrp_adv_ip4_build_def assms(2) Let_def old)
qed

definition adv_ip6hdr :: "nat \<Rightarrow> bytes \<Rightarrow> bytes \<Rightarrow> bytes" where
  "adv_ip6hdr sz sa da = [0x60, 0, 0, 0] @ store16 (htons (of_nat sz)) @ [IPPROTO_VRRP, 0xff] @ sa @ da"

lemma vrrp_adv_ip6_build_ok:
  assumes "build_os os" and "ipx_helper n = Some h"
  shows "\<exists>dst. vrrp_adv_ip6_build os iov n w = Ret (0, \<lparr>iov_base =
        Some (adv_ip6hdr (adv_getsize h n) (addr6 (vif_ipx (vif n))) dst), iov_len = 40\<rparr>, syscall w)
     \<and> os_pton os AF_INET6 ''FF02::12'' = Some dst \<and> length dst = 16"
proof -
  obtain old where old: "os_malloc os (tick w) = Some old" using assms(1) by (auto simp: build_os_def)
  obtain dst where "os_pton os AF_INET6 ''FF02::12'' = Some dst" "length dst = 16"
    using assms(1) by (auto simp: build_os_def)
  then show ?thesis by (simp add: vrrp_adv_ip6_build_def assms(2) Let_def old adv_ip6hdr_def)
qed

text \<open>The IP header \<open>vrrp_adv_init\<close> builds in front of the packet, by family.\<close>

definition adv_iph_ok :: "os \<Rightarrow> vrrp_ipx \<Rightarrow> vrrp_net \<Rightarrow> bytes \<Rightarrow> bool" where
  "adv_iph_ok os h n iph \<longleftrightarrow> (case h of
     VRRP_IP4 \<Rightarrow> (\<exists>c. iph = adv_iphdr (adv_getsize h n) (store16 c) (addr4 (vif_ipx (vif n))))
                 \<and> cksum iph IPHDR_SIZE = Some 0
   | VRRP_IP6 \<Rightarrow> (\<exists>dst. os_pton os AF_INET6 ''FF02::12'' = Some dst \<and> length dst = 16
                    \<and> iph = adv_ip6hdr (adv_getsize h n) (addr6 (vif_ipx (vif n))) dst))"

lemma adv_iph_ok_length:
  "adv_iph_ok os h n iph \<Longrightarrow> length (vif_ipx (vif n)) = 16 \<Longrightarrow> length iph = iphdr_size h"
  by (auto simp: adv_iph_ok_def iphdr_size_def adv_iphdr_def adv_ip6hdr_def split: vrrp_ipx.splits)

lemma list3: "length xs = 3 \<Longrightarrow> xs[0 := a, 1 := b, 2 := c] = [a, b, c]"
  by (auto simp: numeral_eq_Suc length_Suc_conv)

lemma chksum_cong:
  assumes "net_naddr n = net_naddr m" and "adv_iov n ! 1 = adv_iov m ! 1"
  shows "adv_checksum h n = adv_checksum h m"
proof -
  have "vrrp_ip4_chksum n p s d = vrrp_ip4_chksum m p s d" for p s d
    unfolding vrrp_ip4_chksum_def vrrp_ip4_getsize_def assms by (rule refl)
  moreover have "vrrp_ip6_chksum n p s d = vrrp_ip6_chksum m p s d" for p s d
    unfolding vrrp_ip6_chksum_def vrrp_ip6_getsize_def assms by (rule refl)
  ultimately show ?thesis by (cases h) (simp_all add: fun_eq_iff)
qed

lemma getsize_iov [simp]:
  "vrrp_ip4_getsize (n\<lparr>adv_iov := x\<rparr>) = vrrp_ip4_getsize n"
  "vrrp_ip6_getsize (n\<lparr>adv_iov := x\<rparr>) = vrrp_ip6_getsize n"
  "adv_getsize h (n\<lparr>adv_iov := x\<rparr>) = adv_getsize h n"
  by (cases h; simp_all add: vrrp_ip4_getsize_def vrrp_ip6_getsize_def)+

lemma layout_iov [simp]: "adv_fixed (n\<lparr>adv_iov := x\<rparr>) v = adv_fixed n v" "adv_addrs (n\<lparr>adv_iov := x\<rparr>) = adv_addrs n"
  by (simp_all add: adv_fixed_def adv_addrs_def)

lemma auth_fits_iov [simp]: "auth_fits (n\<lparr>adv_iov := x\<rparr>) v = auth_fits n v"
  by (simp add: auth_fits_def split: option.split)

lemma conf_iov:
  "conf_base n v \<Longrightarrow> length x = 3 \<Longrightarrow> conf_base (n\<lparr>adv_iov := x\<rparr>) v"
  "conf_ok n v \<Longrightarrow> length x = 3 \<Longrightarrow> conf_ok (n\<lparr>adv_iov := x\<rparr>) v"
  by (simp_all add: conf_ok_def conf_base_def)

text \<open>The two headers are built, what remains is the packet.\<close>

lemma vrrp_adv_init_headers:
  assumes conf: "conf_base n v" and os: "build_os os" and h: "ipx_helper n = Some h"
  obtains e iph where "length e = 14" "adv_iph_ok os h n iph"
    "vrrp_adv_init os n v w =
       bind_run (vrrp_adv_build os (adv_iov n ! 2) (n\<lparr>adv_iov := [\<lparr>iov_base = Some e, iov_len = 14\<rparr>,
           \<lparr>iov_base = Some iph, iov_len = iphdr_size h\<rparr>, adv_iov n ! 2]\<rparr>) v (syscall (syscall w)))
         (\<lambda>(st, iov2, w2). Ret (st, n\<lparr>adv_iov := [\<lparr>iov_base = Some e, iov_len = 14\<rparr>,
           \<lparr>iov_base = Some iph, iov_len = iphdr_size h\<rparr>, iov2]\<rparr>, w2))"
proof -
  have l3: "length (adv_iov n) = 3" and l16: "length (vif_ipx (vif n)) = 16"
    using conf by (simp_all add: conf_base_def)
  obtain e where e: "vrrp_adv_eth_build os (adv_iov n ! 0) (net_vrid n) (family n) w
      = (0, \<lparr>iov_base = Some e, iov_len = 14\<rparr>, syscall w)" "length e = 14"
    using vrrp_adv_eth_build_ok [OF os] unfolding ETHDR_SIZE_def by blast
  let ?i0 = "\<lparr>iov_base = Some e, iov_len = 14\<rparr>" let ?n0 = "n\<lparr>adv_iov := (adv_iov n)[0 := ?i0]\<rparr>"
  obtain iph where iph: "adv_iph_ok os h n iph"
    "(if family ?n0 = AF_INET then vrrp_adv_ip4_build os (adv_iov ?n0 ! 1) ?n0 (syscall w)
      else vrrp_adv_ip6_build os (adv_iov ?n0 ! 1) ?n0 (syscall w))
     = Ret (0, \<lparr>iov_base = Some iph, iov_len = iphdr_size h\<rparr>, syscall (syscall w))"
    using conf_helper [OF conf h] h l16
      vrrp_adv_ip4_build_ok [OF os, of ?n0 h "adv_iov ?n0 ! 1" "syscall w"]
      vrrp_adv_ip6_build_ok [OF os, of ?n0 h "adv_iov ?n0 ! 1" "syscall w"]
    by (cases "family n = AF_INET") (auto simp: adv_iph_ok_def iphdr_size_def IPHDR_SIZE_def)
  let ?i1 = "\<lparr>iov_base = Some iph, iov_len = iphdr_size h\<rparr>"
  have iovs: "(adv_iov n)[0 := ?i0, 1 := ?i1, 2 := i2] = [?i0, ?i1, i2]" for i2 by (rule list3 [OF l3])
  from this [of "adv_iov n ! 2"] have "(adv_iov n)[0 := ?i0, 1 := ?i1] = [?i0, ?i1, adv_iov n ! 2]"
    using l3 by (simp add: list_update_swap [of _ 2])
  with e iph iovs show ?thesis
    by (intro that [of e iph]) (simp_all add: vrrp_adv_init_def Let_def)
qed

lemma vrrp_adv_init_parts:
  assumes conf: "conf_ok n v" and os: "build_os os" and h: "ipx_helper n = Some h"
  obtains e iph p ck tail where
    "vrrp_adv_init os n v w = Ret (0, n\<lparr>adv_iov := [\<lparr>iov_base = Some e, iov_len = 14\<rparr>,
        \<lparr>iov_base = Some iph, iov_len = iphdr_size h\<rparr>,
        \<lparr>iov_base = Some p, iov_len = adv_getsize h n\<rparr>]\<rparr>, syscall (syscall (syscall w)))"
    "length e = 14" "adv_iph_ok os h n iph" "length p = adv_getsize h n"
    "p = adv_fixed n v @ ck @ adv_addrs n @ tail" "length ck = 2"
    "length tail = tail_size (family n)" "auth_placed v tail"
    "adv_ready (n\<lparr>adv_iov := [\<lparr>iov_base = Some e, iov_len = 14\<rparr>,
        \<lparr>iov_base = Some iph, iov_len = iphdr_size h\<rparr>,
        \<lparr>iov_base = Some p, iov_len = adv_getsize h n\<rparr>]\<rparr>)"
proof (rule vrrp_adv_init_headers [OF conf_okD [OF conf] os h, of w], goal_cases)
  case (1 e iph)
  have l16: "length (vif_ipx (vif n)) = 16" using conf_okD [OF conf] by (simp add: conf_base_def)
  let ?i0 = "\<lparr>iov_base = Some e, iov_len = 14\<rparr>" let ?i1 = "\<lparr>iov_base = Some iph, iov_len = iphdr_size h\<rparr>"
  let ?n1 = "n\<lparr>adv_iov := [?i0, ?i1, adv_iov n ! 2]\<rparr>"
  have conf1: "conf_ok ?n1 v" and h1: "ipx_helper ?n1 = Some h"
    using conf_iov(2) [OF conf] h by simp_all
  have wf1: "net_wf h ?n1"
    using adv_iph_ok_length [OF 1(3) l16] by (simp add: net_wf_def iphdr_size_def)
  obtain p ck tail where p: "vrrp_adv_build os (adv_iov n ! 2) ?n1 v (syscall (syscall w))
      = Ret (0, \<lparr>iov_base = Some p, iov_len = adv_getsize h n\<rparr>, syscall (syscall (syscall w)))"
    "p = adv_fixed n v @ ck @ adv_addrs n @ tail" "length ck = 2" "length p = adv_getsize h n"
    "length tail = tail_size (family n)" "auth_placed v tail"
    "adv_checksum h ?n1 p None None = Some (h_chksum p)"
    by (rule vrrp_adv_build_layout [OF conf1 os h1 wf1, of "adv_iov n ! 2" "syscall (syscall w)"])
      (rule that; simp)
  let ?i2 = "\<lparr>iov_base = Some p, iov_len = adv_getsize h n\<rparr>"
  have sum: "adv_checksum h (n\<lparr>adv_iov := [?i0, ?i1, ?i2]\<rparr>) p None None = Some (h_chksum p)"
    using p(7) by (subst chksum_cong [of _ ?n1]) simp_all
  have "vrrp_adv_init os n v w = Ret (0, n\<lparr>adv_iov := [?i0, ?i1, ?i2]\<rparr>, syscall (syscall (syscall w)))"
    using 1(4) p(1) by simp
  moreover have "adv_ready (n\<lparr>adv_iov := [?i0, ?i1, ?i2]\<rparr>)"
    using 1(2) adv_iph_ok_length [OF 1(3) l16] p(4) sum
    by (simp add: adv_ready_def h iov_exact_def ETHDR_SIZE_def adv_pkt_def)
  ultimately show ?case using 1(2,3) p(2-6) by (intro 1(1)) assumption+
qed

lemma vrrp_adv_init_overflow:
  assumes conf: "conf_base n v" and os: "build_os os" and h: "ipx_helper n = Some h" and "\<not> auth_fits n v"
  shows "vrrp_adv_init os n v w = Undef"
proof (rule vrrp_adv_init_headers [OF conf os h, of w], goal_cases)
  case (1 e iph)
  have "conf_base (n\<lparr>adv_iov := [a, b, c]\<rparr>) v" "\<not> auth_fits (n\<lparr>adv_iov := [a, b, c]\<rparr>) v" for a b c
    using conf_iov(1) [OF conf] assms(4) by simp_all
  then show ?case using 1(3) vrrp_adv_build_overflow [OF _ os] h by simp
qed


section \<open>Emission\<close>

definition adv_frame :: "vrrp_net \<Rightarrow> bytes" where
  "adv_frame n = concat (map iov_bytes (adv_iov n))"

lemma adv_ready_exact: "adv_ready n \<Longrightarrow> \<forall>v \<in> set (adv_iov n). \<exists>k. iov_exact k v"
  by (auto simp: adv_ready_def numeral_eq_Suc length_Suc_conv split: option.splits)

lemma vrrp_adv_send_ready:
  assumes "adv_ready n" and "ifname (vif n) = Some nm"
  shows "vrrp_adv_send os n w = Ret (transmit os nm (adv_frame n) w)"
  using vrrp_net_send_exact [OF assms(2) _ adv_ready_exact [OF assms(1)]] assms(1)
  by (simp add: vrrp_adv_send_def adv_frame_def adv_ready_def)

lemma set_adv_pkt_simps [simp]:
  "ipx_helper (set_adv_pkt p n) = ipx_helper n" "vif (set_adv_pkt p n) = vif n"
  "family (set_adv_pkt p n) = family n" "pkt (set_adv_pkt p n) = pkt n"
  "net_naddr (set_adv_pkt p n) = net_naddr n" "vip_list (set_adv_pkt p n) = vip_list n"
  "length (adv_iov (set_adv_pkt p n)) = length (adv_iov n)"
  "set_adv_pkt p (set_adv_pkt q n) = set_adv_pkt p n"
  by (simp_all add: set_adv_pkt_def)
    (cases "2 < length (adv_iov n)"; simp add: list_update_beyond)

lemma checksum_set_adv_pkt [simp]: "adv_checksum h (set_adv_pkt p n) = adv_checksum h n"
  by (rule chksum_cong) (simp_all add: set_adv_pkt_def)

lemma set_adv_pkt_same:
  assumes "adv_pkt n = Some p"
  shows "set_adv_pkt p n = n"
proof -
  have "(adv_iov n ! 2)\<lparr>iov_base := Some p\<rparr> = adv_iov n ! 2"
    using assms by (cases "adv_iov n ! 2") (simp add: adv_pkt_def)
  then show ?thesis by (simp add: set_adv_pkt_def)
qed

lemma adv_pkt_set: "length (adv_iov n) = 3 \<Longrightarrow> adv_pkt (set_adv_pkt p n) = Some p"
  by (simp add: adv_pkt_def set_adv_pkt_def)

lemma getsize_set_adv_pkt [simp]: "adv_getsize h (set_adv_pkt p n) = adv_getsize h n"
  by (simp add: set_adv_pkt_def)

lemma adv_ready_set_adv_pkt:
  assumes "adv_ready n" and "ipx_helper n = Some h" and "length p = adv_getsize h n"
    and "adv_checksum h n p None None = Some (h_chksum p)"
  shows "adv_ready (set_adv_pkt p n)"
proof -
  have l3: "length (adv_iov n) = 3" using assms(1) by (simp add: adv_ready_def)
  then have iovs: "adv_iov (set_adv_pkt p n) ! 0 = adv_iov n ! 0"
    "adv_iov (set_adv_pkt p n) ! 1 = adv_iov n ! 1"
    "adv_iov (set_adv_pkt p n) ! 2 = (adv_iov n ! 2)\<lparr>iov_base := Some p\<rparr>"
    by (simp_all add: set_adv_pkt_def)
  have "iov_len (adv_iov n ! 2) = adv_getsize h n"
    using assms(1,2) by (auto simp: adv_ready_def iov_exact_def split: option.splits)
  then show ?thesis
    using assms l3 iovs by (simp add: adv_ready_def adv_pkt_set iov_exact_def)
qed

text \<open>Storing another priority and sealing the packet again.\<close>

definition reprio :: "u8 \<Rightarrow> u16 \<Rightarrow> bytes \<Rightarrow> bytes" where
  "reprio x c p = set_h_chksum c (set_h_priority x p)"

lemma reprio_layout:
  assumes "8 \<le> length p"
  shows "h_priority (reprio x c p) = x" and "h_chksum (reprio x c p) = c"
    and "length (reprio x c p) = length p" and "take 2 (reprio x c p) = take 2 p"
    and "drop 3 (take 6 (reprio x c p)) = drop 3 (take 6 p)"
    and "drop 8 (reprio x c p) = drop 8 p"
    and "reprio (h_priority p) (h_chksum p) (reprio x c p) = p"
proof -
  obtain b0 b1 b2 b3 b4 b5 b6 b7 r where p: "p = b0 # b1 # b2 # b3 # b4 # b5 # b6 # b7 # r"
    using assms by (rule list8_cases)
  show "h_priority (reprio x c p) = x" "h_chksum (reprio x c p) = c"
    "length (reprio x c p) = length p" "take 2 (reprio x c p) = take 2 p"
    "drop 3 (take 6 (reprio x c p)) = drop 3 (take 6 p)" "drop 8 (reprio x c p) = drop 8 p"
    "reprio (h_priority p) (h_chksum p) (reprio x c p) = p"
    by (simp_all add: p reprio_def h_defs load16_def)
qed

lemma reprio_seals:
  assumes "net_wf h n" and "length p = adv_getsize h n"
  shows "\<exists>c. adv_checksum h n (set_h_priority x p) None None = Some c
     \<and> adv_checksum h n (reprio x c p) None None = Some c"
proof -
  have "8 \<le> length p" using assms(2) tab.size_min [of h n] by (simp add: size_defs)
  then show ?thesis
    using tab.seal_exists [OF assms(1), of "set_h_priority x p" None None] assms(2)
      reprio_layout(2) [of p x]
    by (auto simp: addr_ok_def reprio_def)
qed

lemma vrrp_adv_send_zero_frame:
  assumes "adv_ready n" and "ifname (vif n) = Some nm"
    and "ipx_helper n = Some h" and "adv_pkt n = Some p"
  shows "\<exists>c. vrrp_adv_send_zero os n w =
      (case transmit os nm (adv_frame (set_adv_pkt (reprio 0 c p) n)) w of
         (r, w') \<Rightarrow> Ret (r, n, w'))
    \<and> h_priority (reprio 0 c p) = 0
    \<and> adv_checksum h n (reprio 0 c p) None None = Some (h_chksum (reprio 0 c p))
    \<and> adv_checksum h n (set_h_priority 0 p) None None = Some c"
proof -
  have wf: "net_wf h n" and len: "length p = adv_getsize h n"
    using adv_ready_wf [OF assms(1)] assms(3,4) by (metis option.inject)+
  have p8: "8 \<le> length p" using len tab.size_min [of h n] by (simp add: size_defs)
  obtain c where c: "adv_checksum h n (set_h_priority 0 p) None None = Some c"
      "adv_checksum h n (reprio 0 c p) None None = Some c"
    using reprio_seals [OF wf len] by blast
  have old: "h_chksum (set_h_priority 0 p) = h_chksum p" by (simp add: h_defs load16_def)
  have "adv_ready (set_adv_pkt (reprio 0 c p) n)"
    using assms(1,3) len c(2) reprio_layout(2,3) [OF p8] by (simp add: adv_ready_set_adv_pkt)
  then have "vrrp_adv_send os (set_adv_pkt (reprio 0 c p) n) w
      = Ret (transmit os nm (adv_frame (set_adv_pkt (reprio 0 c p) n)) w)"
    using assms(2) by (intro vrrp_adv_send_ready) simp_all
  then have "vrrp_adv_send_zero os n w =
      (case transmit os nm (adv_frame (set_adv_pkt (reprio 0 c p) n)) w of (r, w') \<Rightarrow> Ret (r, n, w'))"
    using reprio_layout(7) [OF p8, of 0 c] set_adv_pkt_same [OF assms(4)]
    by (simp add: vrrp_adv_send_zero_def assms(3,4) Let_def c(1) old vrrp_adv_send_def
        reprio_def split: prod.split)
  then show ?thesis using c reprio_layout(1,2) [OF p8] by auto
qed

text \<open>The frame of a resigning master, and that sending it keeps the instance.\<close>

definition zero_frame :: "vrrp_net \<Rightarrow> bytes" where
  "zero_frame n =
     (case (adv_pkt n, ipx_helper n) of
        (Some p, Some h) \<Rightarrow>
          (case adv_checksum h n (set_h_priority 0 p) None None of
             Some c \<Rightarrow> adv_frame (set_adv_pkt (reprio 0 c p) n)
           | None \<Rightarrow> [])
      | _ \<Rightarrow> [])"

lemma vrrp_adv_send_zero_sends:
  assumes "adv_ready n" and "ifname (vif n) = Some nm"
  shows "vrrp_adv_send_zero os n w = (case transmit os nm (zero_frame n) w of (r, w') \<Rightarrow> Ret (r, n, w'))"
proof -
  obtain h p where hp: "ipx_helper n = Some h" "adv_pkt n = Some p" using adv_ready_wf [OF assms(1)] .
  from vrrp_adv_send_zero_frame [OF assms hp, of os w] show ?thesis by (auto simp: zero_frame_def hp)
qed

text \<open>
  C26. A master that resigns sends its advertisement with priority 0: the transmitted
  packet is the current one with only the priority and the checksum changed, its
  checksum verifies, and afterwards the buffers are exactly what they were.
\<close>
theorem vrrp_adv_send_zero_correct:
  assumes "adv_ready n" and "ifname (vif n) = Some nm"
    and "ipx_helper n = Some h" and "adv_pkt n = Some p"
  shows "\<exists>c. vrrp_adv_send_zero os n w =
      (case transmit os nm (adv_frame (set_adv_pkt (reprio 0 c p) n)) w of
         (r, w') \<Rightarrow> Ret (r, n, w'))
    \<and> h_priority (reprio 0 c p) = 0
    \<and> adv_checksum h n (reprio 0 c p) None None = Some (h_chksum (reprio 0 c p))"
  using vrrp_adv_send_zero_frame [OF assms] by blast

text \<open>
  Changing the priority of a running instance rewrites the emitted packet in place:
  the priority field is the new one, every byte outside the priority and the checksum
  is kept, and the packet is ready to be sent with a verifying checksum.
\<close>
lemma vrrp_adv_set_priority_correct:
  assumes "adv_ready n" and "ipx_helper n = Some h" and "adv_pkt n = Some p"
  shows "\<exists>p'. vrrp_adv_set_priority n prio = Ret (set_adv_pkt p' n) \<and> adv_ready (set_adv_pkt p' n)
    \<and> h_priority p' = prio \<and> take 2 p' = take 2 p \<and> drop 3 (take 6 p') = drop 3 (take 6 p)
    \<and> drop 8 p' = drop 8 p"
proof -
  have wf: "net_wf h n" and len: "length p = adv_getsize h n"
    using adv_ready_wf [OF assms(1)] assms(2,3) by (metis option.inject)+
  have p8: "8 \<le> length p" using len tab.size_min [of h n] by (simp add: size_defs)
  obtain c where c: "adv_checksum h n (set_h_priority prio p) None None = Some c"
      "adv_checksum h n (reprio prio c p) None None = Some c"
    using reprio_seals [OF wf len] by blast
  have "vrrp_adv_set_priority n prio = Ret (set_adv_pkt (reprio prio c p) n)"
    by (simp add: vrrp_adv_set_priority_def assms(2,3) Let_def c(1) reprio_def)
  moreover have "adv_ready (set_adv_pkt (reprio prio c p) n)"
    using assms(1,2) len c(2) reprio_layout(2,3) [OF p8] by (simp add: adv_ready_set_adv_pkt)
  ultimately show ?thesis using reprio_layout [OF p8] by blast
qed

section \<open>Examples\<close>

lemma conf_ok_examples: "conf_ok vnet0 vrrp0" "build_os quiet_os"
  by (simp_all add: conf_ok_def conf_base_def auth_fits_def build_os_def vrrp_ipx_set_def example_defs
      AF_INET_def AF_INET6_def)


lemma init_example:
  assumes "conf_ok n v" and "ipx_helper n = Some h"
  obtains n' w' p where "vrrp_adv_init quiet_os n v w = Ret (0, n', w')" "adv_ready n'" "vif n' = vif n"
    "ipx_helper n' = Some h" "adv_pkt n' = Some p" "h_priority p = priority v"
proof (rule vrrp_adv_init_parts [OF assms(1) conf_ok_examples(2) assms(2), of w], goal_cases)
  case (1 e iph p ck tail)
  have "h_priority p = priority v" using 1(6) by (simp add: adv_fixed_def h_priority_def)
  then show ?thesis
    by (intro that [OF 1(2) 1(10), of p]) (simp_all add: adv_pkt_def assms(2))
qed

end
