(* ===== verification/Vrrp_Topology.thy ===== *)
theory Vrrp_Topology
  imports Vrrp_Adv
begin

text \<open>
  The topology updates a new master broadcasts: gratuitous ARP for IPv4
  (\<^verbatim>\<open>vrrp_arp.c\<close>) and unsolicited neighbour advertisements for IPv6 (\<^verbatim>\<open>vrrp_na.c\<close>).
  Each virtual address owns three buffers, built once and sent on every transition
  to the master state.
\<close>

section \<open>Gratuitous ARP (\<open>vrrp_arp.c\<close>)\<close>

definition ETHERTYPE_ARP :: u16 where "ETHERTYPE_ARP = 0x0806"
definition ETHERTYPE_IP :: u16 where "ETHERTYPE_IP = 0x0800"
definition ARPHRD_ETHER :: u16 where "ARPHRD_ETHER = 1"
definition ARPOP_REQUEST :: u16 where "ARPOP_REQUEST = 1"

definition vrrp_arp_eth :: bytes where
  "vrrp_arp_eth = [0xff, 0xff, 0xff, 0xff, 0xff, 0xff, 0x00, 0x00, 0x5e, 0x00, 0x01, 0x00, 0, 0]"

definition vrrp_arp_eth_build :: "os \<Rightarrow> iovec \<Rightarrow> u8 \<Rightarrow> world \<Rightarrow> int \<times> iovec \<times> world" where
  "vrrp_arp_eth_build os iov vid w =
     (case os_malloc os (tick w) of
        None \<Rightarrow> (-1, iov\<lparr>iov_base := None\<rparr>, syscall w)
      | Some old \<Rightarrow>
          (0, \<lparr>iov_base = Some (take 12 (vrrp_arp_eth[11 := vid]) @ store16 (htons ETHERTYPE_ARP)),
               iov_len = ETHDR_SIZE\<rparr>, syscall w))"

definition vrrp_arp_build :: "os \<Rightarrow> iovec \<Rightarrow> u8 \<Rightarrow> world \<Rightarrow> int \<times> iovec \<times> world" where
  "vrrp_arp_build os iov vid w =
     (case os_malloc os (tick w) of
        None \<Rightarrow> (-1, iov\<lparr>iov_base := None\<rparr>, syscall w)
      | Some old \<Rightarrow>
          (0, \<lparr>iov_base = Some (store16 (htons ARPHRD_ETHER) @ store16 (htons ETHERTYPE_IP)
                 @ [6, 4] @ store16 (htons ARPOP_REQUEST)), iov_len = 8\<rparr>, syscall w))"

definition vrrp_arp_vrrp_build ::
    "os \<Rightarrow> iovec \<Rightarrow> vrrp_ip \<Rightarrow> vrrp_net \<Rightarrow> world \<Rightarrow> int \<times> iovec \<times> world" where
  "vrrp_arp_vrrp_build os iov vip n w =
     (case os_malloc os (tick w) of
        None \<Rightarrow> (-1, iov\<lparr>iov_base := None\<rparr>, syscall w)
      | Some old \<Rightarrow>
          (let ar_sha = [0x00, 0x00, 0x5e, 0x00, 0x01, net_vrid n];
               ar_sip = addr4 (ipx vip);
               ar_tha = replicate 6 0xFF;
               ar_tip = ar_sip
           in (0, \<lparr>iov_base = Some (ar_sha @ ar_sip @ ar_tha @ ar_tip), iov_len = 20\<rparr>, syscall w)))"

text \<open>
  The three buffers of one address.  The array starts uninitialised; every element is
  written here, at least its base.
\<close>

definition iov_blank :: iovec where
  "iov_blank = \<lparr>iov_base = None, iov_len = 0\<rparr>"

definition topo_slot :: "vrrp_ip \<Rightarrow> nat \<Rightarrow> iovec" where
  "topo_slot vip i = (if i < length (topology vip) then topology vip ! i else iov_blank)"

definition arp_init_vip :: "os \<Rightarrow> vrrp_net \<Rightarrow> vrrp_ip \<Rightarrow> world \<Rightarrow> int \<times> vrrp_ip \<times> world" where
  "arp_init_vip os n vip w =
     (let (st0, iov0, w0) = vrrp_arp_eth_build os (topo_slot vip 0) (net_vrid n) w;
          (st1, iov1, w1) = vrrp_arp_build os (topo_slot vip 1) (net_vrid n) w0;
          (st2, iov2, w2) = vrrp_arp_vrrp_build os (topo_slot vip 2) vip n w1
      in (st0 OR st1 OR st2, vip\<lparr>topology := [iov0, iov1, iov2]\<rparr>, w2))"

text \<open>
  The loop over the list, last address first.  The status variable is overwritten in
  every round, so only the last round counts.
\<close>

fun topo_init :: "(vrrp_ip \<Rightarrow> world \<Rightarrow> int \<times> vrrp_ip \<times> world) \<Rightarrow> int \<Rightarrow> vrrp_ip list \<Rightarrow> world
     \<Rightarrow> int \<times> vrrp_ip list \<times> world" where
  "topo_init f st [] w = (st, [], w)"
| "topo_init f st (vip # vs) w =
     (let (st', vip', w') = f vip w; (st'', vs', w'') = topo_init f st' vs w'
      in (st'', vip' # vs', w''))"

definition vrrp_arp_init :: "os \<Rightarrow> vrrp_net \<Rightarrow> world \<Rightarrow> int \<times> vrrp_net \<times> world" where
  "vrrp_arp_init os n w =
     (case topo_init (arp_init_vip os n) (-1) (rev (vip_list n)) w of
        (st, vs, w') \<Rightarrow> (st, n\<lparr>vip_list := rev vs\<rparr>, w'))"

fun topo_send :: "os \<Rightarrow> vrrp_net \<Rightarrow> vrrp_ip list \<Rightarrow> world \<Rightarrow> world run" where
  "topo_send os n [] w = Ret w"
| "topo_send os n (vip # vs) w =
     bind_run (vrrp_net_send os n (Some (topology vip)) 3 w) (\<lambda>(st, w'). topo_send os n vs w')"

definition vrrp_arp_send :: "os \<Rightarrow> vrrp_net \<Rightarrow> world \<Rightarrow> (int \<times> world) run" where
  "vrrp_arp_send os n w =
     bind_run (topo_send os n (rev (vip_list n)) w) (\<lambda>w'. Ret (0, w'))"

definition topo_release :: "vrrp_net \<Rightarrow> vrrp_net" where
  "topo_release n = n\<lparr>vip_list := map (\<lambda>vip. vip\<lparr>topology :=
     map (\<lambda>iov. iov\<lparr>iov_base := None\<rparr>) (topology vip)\<rparr>) (vip_list n)\<rparr>"

definition vrrp_arp_cleanup :: "vrrp_net \<Rightarrow> vrrp_net" where
  "vrrp_arp_cleanup n = topo_release n"

section \<open>Neighbour advertisements (\<open>vrrp_na.c\<close>)\<close>

definition IPPROTO_ICMPV6 :: u8 where "IPPROTO_ICMPV6 = 58"
definition ND_NEIGHBOR_ADVERT :: u8 where "ND_NEIGHBOR_ADVERT = 136"
definition ND_NA_SIZE :: nat where "ND_NA_SIZE = 24"

definition vrrp_na_eth :: bytes where
  "vrrp_na_eth = [0x33, 0x33, 0x00, 0x00, 0x00, 0x01, 0x00, 0x00, 0x52, 0x00, 0x01, 0x00, 0, 0]"

definition vrrp_na_eth_build :: "os \<Rightarrow> iovec \<Rightarrow> u8 \<Rightarrow> world \<Rightarrow> int \<times> iovec \<times> world" where
  "vrrp_na_eth_build os iov vid w =
     (case os_malloc os (tick w) of
        None \<Rightarrow> (-1, iov\<lparr>iov_base := None\<rparr>, syscall w)
      | Some old \<Rightarrow>
          (0, \<lparr>iov_base = Some (take 12 (vrrp_na_eth[11 := vid]) @ store16 (htons ETH_P_IPV6)),
               iov_len = ETHDR_SIZE\<rparr>, syscall w))"

definition vrrp_na_ip6_build :: "os \<Rightarrow> iovec \<Rightarrow> vrrp_ip \<Rightarrow> world \<Rightarrow> int \<times> iovec \<times> world" where
  "vrrp_na_ip6_build os iov vip w =
     (case os_malloc os (tick w) of
        None \<Rightarrow> (-1, iov\<lparr>iov_base := None\<rparr>, syscall w)
      | Some old \<Rightarrow>
          (let hd = [0x60, 0, 0, 0] @ store16 (htons (of_nat ND_NA_SIZE)) @ [IPPROTO_ICMPV6, 0xff]
                    @ addr6 (ipx vip)
           in case os_pton os AF_INET6 ''ff02::1'' of
                None \<Rightarrow> (-1, iov\<lparr>iov_base := Some (hd @ map old [24..<40])\<rparr>, syscall w)
              | Some dst \<Rightarrow> (0, \<lparr>iov_base = Some (hd @ dst), iov_len = 40\<rparr>, syscall w)))"

text \<open>The checksum field of the 24-byte message is at offset 2.\<close>

definition vrrp_na_chksum :: "iovec \<Rightarrow> bytes \<Rightarrow> u16 option" where
  "vrrp_na_chksum iov na =
     (case iov_base iov of
        None \<Rightarrow> None
      | Some iph \<Rightarrow>
          cksum (pshdr_ip6 (bslice iph 8 16) (bslice iph 24 16) ND_NA_SIZE IPPROTO_ICMPV6
                 @ na[2 := 0, 3 := 0]) (40 + ND_NA_SIZE))"

text \<open>\<open>ND_NA_FLAG_ROUTER | ND_NA_FLAG_OVERRIDE\<close> in network order is \<open>a0 00 00 00\<close>.\<close>

definition vrrp_na_build ::
    "os \<Rightarrow> iovec \<Rightarrow> iovec \<Rightarrow> vrrp_ip \<Rightarrow> world \<Rightarrow> (int \<times> iovec \<times> world) run" where
  "vrrp_na_build os iov iov_ip6 vip w =
     (case os_malloc os (tick w) of
        None \<Rightarrow> Ret (-1, iov\<lparr>iov_base := None\<rparr>, syscall w)
      | Some old \<Rightarrow>
          (let na = [ND_NEIGHBOR_ADVERT, 0, 0, 0] @ [0xa0, 0, 0, 0] @ addr6 (ipx vip) in
           bind_run (run_opt (vrrp_na_chksum iov_ip6 na)) (\<lambda>c.
             Ret (0, \<lparr>iov_base = Some (na[2 := ucast c, 3 := ucast (drop_bit 8 c)]),
                      iov_len = ND_NA_SIZE\<rparr>, syscall w))))"

definition na_init_vip :: "os \<Rightarrow> vrrp_net \<Rightarrow> vrrp_ip \<Rightarrow> world \<Rightarrow> (int \<times> vrrp_ip \<times> world) run" where
  "na_init_vip os n vip w =
     (let (st0, iov0, w0) = vrrp_na_eth_build os (topo_slot vip 0) (net_vrid n) w;
          (st1, iov1, w1) = vrrp_na_ip6_build os (topo_slot vip 1) vip w0
      in bind_run (vrrp_na_build os (topo_slot vip 2) iov1 vip w1) (\<lambda>(st2, iov2, w2).
           Ret (st0 OR st1 OR st2, vip\<lparr>topology := [iov0, iov1, iov2]\<rparr>, w2)))"

fun na_init_list :: "os \<Rightarrow> vrrp_net \<Rightarrow> int \<Rightarrow> vrrp_ip list \<Rightarrow> world
     \<Rightarrow> (int \<times> vrrp_ip list \<times> world) run" where
  "na_init_list os n st [] w = Ret (st, [], w)"
| "na_init_list os n st (vip # vs) w =
     bind_run (na_init_vip os n vip w) (\<lambda>(st', vip', w').
       bind_run (na_init_list os n st' vs w') (\<lambda>(st'', vs', w''). Ret (st'', vip' # vs', w'')))"

definition vrrp_na_init :: "os \<Rightarrow> vrrp_net \<Rightarrow> world \<Rightarrow> (int \<times> vrrp_net \<times> world) run" where
  "vrrp_na_init os n w =
     bind_run (na_init_list os n (-1) (rev (vip_list n)) w)
       (\<lambda>(st, vs, w'). Ret (st, n\<lparr>vip_list := rev vs\<rparr>, w'))"

definition vrrp_na_send :: "os \<Rightarrow> vrrp_net \<Rightarrow> world \<Rightarrow> (int \<times> world) run" where
  "vrrp_na_send os n w =
     bind_run (topo_send os n (rev (vip_list n)) w) (\<lambda>w'. Ret (0, w'))"

definition vrrp_na_cleanup :: "vrrp_net \<Rightarrow> vrrp_net" where
  "vrrp_na_cleanup n = topo_release n"

section \<open>Sending\<close>

definition topo_ready :: "vrrp_ip \<Rightarrow> bool" where
  "topo_ready vip \<longleftrightarrow> length (topology vip) = 3 \<and> (\<forall>v \<in> set (topology vip). \<exists>k. iov_exact k v)"

definition topo_frame :: "vrrp_ip \<Rightarrow> bytes" where
  "topo_frame vip = concat (map iov_bytes (topology vip))"

lemma transmit_tick [simp]: "tick w \<le> tick (snd (transmit os nm f w))"
  by (simp add: transmit_def)

lemma transmit_frame:
  "reg (snd (transmit os nm f w)) = reg w"
  "trace (snd (transmit os nm f w)) = trace w @ (if fst (transmit os nm f w) = 0 then [Sent f] else [])"
  by (simp_all add: transmit_def)

text \<open>Sending never fails fatally; what gets out is a selection of the frames, in order.\<close>

lemma topo_send_total:
  assumes "ifname (vif n) = Some nm" and "list_all topo_ready vs"
  shows "\<exists>w' fs. topo_send os n vs w = Ret w' \<and> reg w' = reg w \<and> tick w \<le> tick w'
     \<and> trace w' = trace w @ map Sent fs \<and> set fs \<subseteq> topo_frame ` set vs"
  using assms(2)
proof (induction vs arbitrary: w)
  case (Cons vip vs)
  let ?r = "transmit os nm (topo_frame vip) w"
  have snd: "vrrp_net_send os n (Some (topology vip)) 3 w = Ret ?r"
    using Cons.prems vrrp_net_send_exact [OF assms(1), of "topology vip"]
    by (simp add: topo_ready_def topo_frame_def)
  obtain w' fs where "topo_send os n vs (snd ?r) = Ret w'" "reg w' = reg (snd ?r)" "tick (snd ?r) \<le> tick w'"
      "trace w' = trace (snd ?r) @ map Sent fs" "set fs \<subseteq> topo_frame ` set vs"
    using Cons.IH [of "snd ?r"] Cons.prems by auto
  then show ?case
    using snd transmit_frame [of os nm "topo_frame vip" w] transmit_tick [of w os nm "topo_frame vip"]
    by (intro exI [of _ w'] exI [of _ "(if fst ?r = 0 then [topo_frame vip] else []) @ fs"])
      (auto simp: split_beta simp del: transmit_tick)
qed (simp add: exI [of _ "[]"])

text \<open>A link that works: the interface exists and \<open>sendmsg\<close> succeeds.\<close>

definition link_up :: "os \<Rightarrow> bool" where
  "link_up os \<longleftrightarrow> (\<forall>t nm. os_ifindex os t nm \<noteq> 0) \<and> (\<forall>t. os_sendmsg os t)"

lemma topo_send_up:
  assumes "link_up os" and "ifname (vif n) = Some nm" and "list_all topo_ready vs"
  shows "\<exists>w'. topo_send os n vs w = Ret w' \<and> reg w' = reg w \<and> tick w \<le> tick w'
     \<and> trace w' = trace w @ map (\<lambda>v. Sent (topo_frame v)) vs"
  using assms(3)
proof (induction vs arbitrary: w)
  case (Cons vip vs)
  have "vrrp_net_send os n (Some (topology vip)) 3 w
      = Ret (0, emit (Sent (topo_frame vip)) (syscall (syscall w)))"
    using Cons.prems assms(1) vrrp_net_send_exact [OF assms(2), of "topology vip"]
    by (simp add: topo_ready_def topo_frame_def transmit_def link_up_def)
  then show ?case using Cons by fastforce
qed simp

section \<open>The frames\<close>

text \<open>The virtual router MAC address of RFC 5798 for IPv4.\<close>

definition vmac4 :: "u8 \<Rightarrow> bytes" where
  "vmac4 vid = [0x00, 0x00, 0x5e, 0x00, 0x01, vid]"

text \<open>A gratuitous ARP request for \<open>a\<close>: broadcast, sender and target address \<open>a\<close>.\<close>

definition gratuitous_arp :: "u8 \<Rightarrow> bytes \<Rightarrow> bytes" where
  "gratuitous_arp vid a =
     [0xff, 0xff, 0xff, 0xff, 0xff, 0xff] @ vmac4 vid @ [0x08, 0x06] @ [0, 1, 0x08, 0x00, 6, 4, 0, 1]
     @ vmac4 vid @ a @ replicate 6 0xff @ a"

lemma arp_init_vip_ok:
  assumes "\<forall>t. os_malloc os t \<noteq> None" and "length (ipx vip) = 16"
  shows "\<exists>vip'. arp_init_vip os n vip w = (0, vip', syscall (syscall (syscall w)))
     \<and> ipx vip' = ipx vip \<and> netmask vip' = netmask vip \<and> topo_ready vip'
     \<and> topo_frame vip' = gratuitous_arp (net_vrid n) (addr4 (ipx vip))"
proof -
  have m: "\<exists>old. os_malloc os t = Some old" for t using assms(1) by auto
  obtain o0 where 0: "os_malloc os (tick w) = Some o0" using m by blast
  obtain o1 where 1: "os_malloc os (Suc (tick w)) = Some o1" using m by blast
  obtain o2 where 2: "os_malloc os (Suc (Suc (tick w))) = Some o2" using m by blast
  show ?thesis
    using assms(2)
    by (simp add: arp_init_vip_def vrrp_arp_eth_build_def vrrp_arp_build_def vrrp_arp_vrrp_build_def
        0 1 2 Let_def topo_ready_def iov_exact_def topo_frame_def iov_bytes_def gratuitous_arp_def
        vmac4_def vrrp_arp_eth_def ETHDR_SIZE_def ETHERTYPE_ARP_def ETHERTYPE_IP_def
        ARPHRD_ETHER_def ARPOP_REQUEST_def store16_htons drop_bit_eq_div numeral_eq_Suc [of num.One])
qed

lemma topo_init_all:
  assumes "\<forall>vip \<in> set vs. \<forall>w. \<exists>vip' w'. f vip w = (0, vip', w') \<and> P vip vip'"
  shows "\<exists>vs' w'. topo_init f st vs w = ((if vs = [] then st else 0), vs', w') \<and> list_all2 P vs vs'"
  using assms
proof (induction vs arbitrary: st w)
  case (Cons vip vs)
  obtain vip' w1 where 1: "f vip w = (0, vip', w1)" "P vip vip'" using Cons.prems by force
  obtain vs' w2 where "topo_init f 0 vs w1 = ((if vs = [] then 0 else 0), vs', w2)" "list_all2 P vs vs'"
    using Cons.IH [of 0 w1] Cons.prems by auto
  with 1 show ?case by simp
qed simp

lemma vrrp_arp_init_ok:
  assumes "\<forall>t. os_malloc os t \<noteq> None" and "list_all (\<lambda>vip. length (ipx vip) = 16) (vip_list n)"
    and "vip_list n \<noteq> []"
  shows "\<exists>vs w'. vrrp_arp_init os n w = (0, n\<lparr>vip_list := vs\<rparr>, w')
     \<and> list_all2 (\<lambda>vip vip'. ipx vip' = ipx vip \<and> topo_ready vip'
          \<and> topo_frame vip' = gratuitous_arp (net_vrid n) (addr4 (ipx vip))) (vip_list n) vs"
proof -
  let ?P = "\<lambda>vip vip'. ipx vip' = ipx vip \<and> topo_ready vip'
     \<and> topo_frame vip' = gratuitous_arp (net_vrid n) (addr4 (ipx vip))"
  have "\<forall>vip \<in> set (rev (vip_list n)). \<forall>w. \<exists>vip' w'. arp_init_vip os n vip w = (0, vip', w') \<and> ?P vip vip'"
    using arp_init_vip_ok [OF assms(1)] assms(2) by (fastforce simp: list_all_iff)
  then obtain vs w' where "topo_init (arp_init_vip os n) (-1) (rev (vip_list n)) w = (0, vs, w')"
      "list_all2 ?P (rev (vip_list n)) vs"
    using topo_init_all [of "rev (vip_list n)" "arp_init_vip os n" ?P "-1" w] assms(3) by auto
  then show ?thesis
    by (intro exI [of _ "rev vs"] exI [of _ w']) (simp add: vrrp_arp_init_def list_all2_rev1)
qed

lemma list_all2_map_eq: "list_all2 (\<lambda>x y. P x y \<and> f y = g x) xs ys \<Longrightarrow> map f ys = map g xs"
  by (induction rule: list_all2_induct) auto

text \<open>
  C30. A new IPv4 master updates the topology for every virtual address: after
  \<open>vrrp_arp_init\<close>, one call of \<open>vrrp_arp_send\<close> on a working link puts exactly one well-formed
  gratuitous ARP request per address on the wire, from the virtual router MAC.
\<close>
theorem arp_announces_every_address:
  assumes "\<forall>t. os_malloc os t \<noteq> None" and "link_up os" and "ifname (vif n) = Some nm"
    and "list_all (\<lambda>vip. length (ipx vip) = 16) (vip_list n)" and "vip_list n \<noteq> []"
  shows "\<exists>n' w1 w2. vrrp_arp_init os n w = (0, n', w1) \<and> vrrp_arp_send os n' w1 = Ret (0, w2)
     \<and> trace w2 = trace w1 @
         map (\<lambda>vip. Sent (gratuitous_arp (net_vrid n) (addr4 (ipx vip)))) (rev (vip_list n))"
proof -
  obtain vs w1 where i: "vrrp_arp_init os n w = (0, n\<lparr>vip_list := vs\<rparr>, w1)"
    and p: "list_all2 (\<lambda>vip vip'. ipx vip' = ipx vip \<and> topo_ready vip'
          \<and> topo_frame vip' = gratuitous_arp (net_vrid n) (addr4 (ipx vip))) (vip_list n) vs"
    using vrrp_arp_init_ok [OF assms(1,4,5)] by blast
  have "list_all topo_ready vs" using p by (auto simp: list_all2_conv_all_nth list_all_length)
  then obtain w2 where "topo_send os (n\<lparr>vip_list := vs\<rparr>) (rev vs) w1 = Ret w2"
      "trace w2 = trace w1 @ map (\<lambda>v. Sent (topo_frame v)) (rev vs)"
    using topo_send_up [OF assms(2), of "n\<lparr>vip_list := vs\<rparr>" nm "rev vs" w1] assms(3)
    by (auto simp: list_all_rev)
  moreover have "map (\<lambda>v. Sent (topo_frame v)) vs
      = map (\<lambda>vip. Sent (gratuitous_arp (net_vrid n) (addr4 (ipx vip)))) (vip_list n)"
    using p by (intro list_all2_map_eq [where P = "\<lambda>x y. True"]) (auto elim: list_all2_mono)
  ultimately show ?thesis
    using i by (intro exI [of _ "n\<lparr>vip_list := vs\<rparr>"] exI [of _ w1] exI [of _ w2])
      (simp add: vrrp_arp_send_def flip: rev_map)
qed

theorem arp_announces_every_address_witness:
  "\<exists>n' w1 w2. vrrp_arp_init quiet_os vnet0 world0 = (0, n', w1) \<and> vrrp_arp_send quiet_os n' w1 = Ret (0, w2)
     \<and> trace w2 = trace w1 @ [Sent (gratuitous_arp 42 [10, 0, 0, 254])]"
  using arp_announces_every_address [of quiet_os vnet0 "''eth0''" world0]
  by (simp add: example_defs link_up_def addr4_def)

text \<open>
  Only the last address processed decides: when building the buffers of the first
  address fails, \<open>vrrp_arp_init\<close> still reports success and leaves a null buffer behind.
\<close>
theorem arp_init_hides_failure:
  "let os = quiet_os\<lparr>os_malloc := (\<lambda>t. if t = 0 then None else Some (\<lambda>_. 0))\<rparr>;
       vip = \<lparr>ipx = replicate 16 1, netmask = 0, topology = []\<rparr>;
       n = vnet0\<lparr>vip_list := [vip, vip]\<rparr>
   in case vrrp_arp_init os n world0 of
        (st, n', w) \<Rightarrow> st = 0 \<and> iov_base (topology (vip_list n' ! 1) ! 0) = None"
  by (simp add: Let_def vrrp_arp_init_def arp_init_vip_def vrrp_arp_eth_build_def vrrp_arp_build_def
      vrrp_arp_vrrp_build_def example_defs)

section \<open>Neighbour advertisements verify\<close>

lemma na_sealed:
  assumes "length (ipx vip) = 16" and "iov_base iov = Some iph" and "length iph = 40"
  defines "psh \<equiv> pshdr_ip6 (bslice iph 8 16) (bslice iph 24 16) ND_NA_SIZE IPPROTO_ICMPV6"
  shows "\<exists>c. vrrp_na_chksum iov ([136, 0, x, y] @ [0xa0, 0, 0, 0] @ addr6 (ipx vip)) = Some c
     \<and> cksum (psh @ [136, 0] @ store16 c @ [0xa0, 0, 0, 0] @ addr6 (ipx vip)) (40 + ND_NA_SIZE) = Some 0"
proof -
  let ?post = "[0xa0, 0, 0, 0] @ addr6 (ipx vip)"
  have len: "length (psh @ [136, 0]) = 42" "length ?post = 20"
    using assms by simp_all
  obtain c where c: "cksum ((psh @ [136, 0]) @ [0, 0] @ ?post) 64 = Some c"
    using cksum_total [of 64 "(psh @ [136, 0]) @ [0, 0] @ ?post"] len by auto
  then have "cksum ((psh @ [136, 0]) @ store16 c @ ?post) 64 = Some 0"
    using cksum_seal [of "psh @ [136, 0]" ?post c] len by simp
  with c show ?thesis
    by (simp add: vrrp_na_chksum_def assms(2) psh_def ND_NA_SIZE_def)
qed

text \<open>
  The frame of a neighbour advertisement for address \<open>a\<close>: to the all-nodes group \<open>dst\<close>, the
  router and override flags set, the target \<open>a\<close>, and an ICMPv6 checksum that verifies
  over the pseudo header.
\<close>

definition na_frame :: "u8 \<Rightarrow> bytes \<Rightarrow> bytes \<Rightarrow> bytes \<Rightarrow> bool" where
  "na_frame vid dst a f \<longleftrightarrow> (\<exists>c.
     f = [0x33, 0x33, 0, 0, 0, 1] @ [0, 0, 0x52, 0, 1, vid] @ [0x86, 0xdd]
         @ [0x60, 0, 0, 0, 0, 24, 58, 255] @ a @ dst
         @ [136, 0] @ store16 c @ [0xa0, 0, 0, 0] @ a
     \<and> cksum (pshdr_ip6 a dst 24 58 @ [136, 0] @ store16 c @ [0xa0, 0, 0, 0] @ a) 64 = Some 0)"

definition na_os :: "os \<Rightarrow> bytes \<Rightarrow> bool" where
  "na_os os dst \<longleftrightarrow> (\<forall>t. os_malloc os t \<noteq> None) \<and> os_pton os AF_INET6 ''ff02::1'' = Some dst \<and> length dst = 16"

lemma vrrp_na_build_ok:
  assumes "os_malloc os (tick w) = Some old" and "length (ipx vip) = 16"
    and "iov_base iov1 = Some iph" and "length iph = 40"
  shows "\<exists>c. vrrp_na_build os iov iov1 vip w
        = Ret (0, \<lparr>iov_base = Some ([136, 0] @ store16 c @ [0xa0, 0, 0, 0] @ ipx vip), iov_len = 24\<rparr>, syscall w)
     \<and> cksum (pshdr_ip6 (bslice iph 8 16) (bslice iph 24 16) 24 58
         @ [136, 0] @ store16 c @ [0xa0, 0, 0, 0] @ ipx vip) 64 = Some 0"
proof -
  obtain c where c: "vrrp_na_chksum iov1 ([136, 0, 0, 0] @ [0xa0, 0, 0, 0] @ addr6 (ipx vip)) = Some c"
    "cksum (pshdr_ip6 (bslice iph 8 16) (bslice iph 24 16) ND_NA_SIZE IPPROTO_ICMPV6
       @ [136, 0] @ store16 c @ [0xa0, 0, 0, 0] @ addr6 (ipx vip)) (40 + ND_NA_SIZE) = Some 0"
    using na_sealed [OF assms(2-4)] by blast
  then show ?thesis
    using assms(1,2)
    by (intro exI [of _ c])
      (simp add: vrrp_na_build_def Let_def ND_NEIGHBOR_ADVERT_def store16_def ND_NA_SIZE_def addr6_def
        IPPROTO_ICMPV6_def)
qed

lemma na_init_vip_ok:
  assumes "na_os os dst" and "length (ipx vip) = 16"
  shows "\<exists>vip'. na_init_vip os n vip w = Ret (0, vip', syscall (syscall (syscall w)))
     \<and> ipx vip' = ipx vip \<and> topo_ready vip' \<and> na_frame (net_vrid n) dst (ipx vip) (topo_frame vip')"
proof -
  have m: "\<exists>old. os_malloc os t = Some old" for t using assms(1) by (auto simp: na_os_def)
  obtain o0 where 0: "os_malloc os (tick w) = Some o0" using m by blast
  obtain o1 where 1: "os_malloc os (Suc (tick w)) = Some o1" using m by blast
  obtain o2 where 2: "os_malloc os (Suc (Suc (tick w))) = Some o2" using m by blast
  have dst: "os_pton os AF_INET6 ''ff02::1'' = Some dst" "length dst = 16" using assms(1) by (simp_all add: na_os_def)
  define iph where "iph = [0x60, 0, 0, 0, 0, 24, 58, 255] @ ipx vip @ dst"
  have iph: "length iph = 40" "bslice iph 8 16 = ipx vip" "bslice iph 24 16 = dst"
    using assms(2) dst(2) by (simp_all add: iph_def bslice_def)
  have ip: "vrrp_na_ip6_build os (topo_slot vip 1) vip (syscall w)
      = (0, \<lparr>iov_base = Some iph, iov_len = 40\<rparr>, syscall (syscall w))"
    using 1 dst(1) assms(2) by (simp add: vrrp_na_ip6_build_def iph_def addr6_def store16_htons ND_NA_SIZE_def
        IPPROTO_ICMPV6_def drop_bit_eq_div)
  let ?e = "[0x33, 0x33, 0, 0, 0, 1] @ [0, 0, 0x52, 0, 1, net_vrid n] @ [0x86, 0xdd] :: bytes"
  have e: "vrrp_na_eth_build os (topo_slot vip 0) (net_vrid n) w = (0, \<lparr>iov_base = Some ?e, iov_len = 14\<rparr>, syscall w)"
    using 0 by (simp add: vrrp_na_eth_build_def vrrp_na_eth_def store16_htons ETH_P_IPV6_def ETHDR_SIZE_def
        drop_bit_eq_div)
  obtain c where c: "vrrp_na_build os (topo_slot vip 2) \<lparr>iov_base = Some iph, iov_len = 40\<rparr> vip (syscall (syscall w))
        = Ret (0, \<lparr>iov_base = Some ([136, 0] @ store16 c @ [0xa0, 0, 0, 0] @ ipx vip), iov_len = 24\<rparr>,
            syscall (syscall (syscall w)))"
      "cksum (pshdr_ip6 (ipx vip) dst 24 58 @ [136, 0] @ store16 c @ [0xa0, 0, 0, 0] @ ipx vip) 64 = Some 0"
    using vrrp_na_build_ok [of os "syscall (syscall w)" o2 vip "\<lparr>iov_base = Some iph, iov_len = 40\<rparr>" iph]
      2 assms(2) iph by auto
  let ?vip = "vip\<lparr>topology := [\<lparr>iov_base = Some ?e, iov_len = 14\<rparr>, \<lparr>iov_base = Some iph, iov_len = 40\<rparr>,
      \<lparr>iov_base = Some ([136, 0] @ store16 c @ [0xa0, 0, 0, 0] @ ipx vip), iov_len = 24\<rparr>]\<rparr>"
  have "na_init_vip os n vip w = Ret (0, ?vip, syscall (syscall (syscall w)))"
    by (simp add: na_init_vip_def e ip c(1) del: append_Cons append_Nil One_nat_def)
  moreover have "topo_ready ?vip" using iph(1) assms(2) by (simp add: topo_ready_def iov_exact_def)
  moreover have "topo_frame ?vip = ?e @ iph @ [136, 0] @ store16 c @ [0xa0, 0, 0, 0] @ ipx vip"
    using iph(1) assms(2) by (simp add: topo_frame_def iov_bytes_def)
  then have "na_frame (net_vrid n) dst (ipx vip) (topo_frame ?vip)"
    unfolding na_frame_def using c(2) by (intro exI [of _ c]) (simp add: iph_def)
  ultimately show ?thesis by fastforce
qed

lemma na_init_list_ok:
  assumes "na_os os dst" and "list_all (\<lambda>vip. length (ipx vip) = 16) vs"
  shows "\<exists>vs' w'. na_init_list os n st vs w = Ret ((if vs = [] then st else 0), vs', w')
     \<and> list_all2 (\<lambda>vip vip'. ipx vip' = ipx vip \<and> topo_ready vip'
          \<and> na_frame (net_vrid n) dst (ipx vip) (topo_frame vip')) vs vs'"
  using assms(2)
proof (induction vs arbitrary: st w)
  case (Cons vip vs)
  obtain vip' where 1: "na_init_vip os n vip w = Ret (0, vip', syscall (syscall (syscall w)))"
      "ipx vip' = ipx vip" "topo_ready vip'" "na_frame (net_vrid n) dst (ipx vip) (topo_frame vip')"
    using na_init_vip_ok [OF assms(1), of vip n w] Cons.prems by auto
  obtain vs' w' where 2: "na_init_list os n 0 vs (syscall (syscall (syscall w))) = Ret (0, vs', w')"
      "list_all2 (\<lambda>vip vip'. ipx vip' = ipx vip \<and> topo_ready vip'
          \<and> na_frame (net_vrid n) dst (ipx vip) (topo_frame vip')) vs vs'"
    using Cons.IH [of 0 "syscall (syscall (syscall w))"] Cons.prems by auto
  show ?case using 1 2 by simp
qed simp

lemma vrrp_na_init_ok:
  assumes "na_os os dst" and "list_all (\<lambda>vip. length (ipx vip) = 16) (vip_list n)" and "vip_list n \<noteq> []"
  shows "\<exists>vs w'. vrrp_na_init os n w = Ret (0, n\<lparr>vip_list := vs\<rparr>, w')
     \<and> list_all2 (\<lambda>vip vip'. ipx vip' = ipx vip \<and> topo_ready vip'
          \<and> na_frame (net_vrid n) dst (ipx vip) (topo_frame vip')) (vip_list n) vs"
proof -
  obtain vs w' where "na_init_list os n (-1) (rev (vip_list n)) w = Ret (0, vs, w')"
      "list_all2 (\<lambda>vip vip'. ipx vip' = ipx vip \<and> topo_ready vip'
          \<and> na_frame (net_vrid n) dst (ipx vip) (topo_frame vip')) (rev (vip_list n)) vs"
    using na_init_list_ok [OF assms(1), of "rev (vip_list n)" n "-1" w] assms(2,3) by (auto simp: list_all_rev)
  then show ?thesis
    by (intro exI [of _ "rev vs"] exI [of _ w']) (simp add: vrrp_na_init_def list_all2_rev1)
qed

lemma topo_ready_all: "list_all2 (\<lambda>x y. P x y \<and> topo_ready y \<and> Q x y) xs ys \<Longrightarrow> list_all topo_ready ys"
  by (auto simp: list_all2_conv_all_nth list_all_length)

text \<open>
  C31. A new IPv6 master updates the topology for every virtual address: after \<open>vrrp_na_init\<close>, one call of
  \<open>vrrp_na_send\<close> on a working link puts exactly one neighbour advertisement per address on the
  wire, in the order of the list from its end, each with its address as source and
  target, the router and override flags, and an ICMPv6 checksum that verifies.
\<close>
theorem na_announces_every_address:
  assumes "na_os os dst" and "link_up os" and "ifname (vif n) = Some nm"
    and "list_all (\<lambda>vip. length (ipx vip) = 16) (vip_list n)" and "vip_list n \<noteq> []"
  shows "\<exists>n' w1 w2 fs. vrrp_na_init os n w = Ret (0, n', w1) \<and> vrrp_na_send os n' w1 = Ret (0, w2)
     \<and> trace w2 = trace w1 @ map Sent fs
     \<and> list_all2 (\<lambda>vip f. na_frame (net_vrid n) dst (ipx vip) f) (rev (vip_list n)) fs"
proof -
  obtain vs w1 where i: "vrrp_na_init os n w = Ret (0, n\<lparr>vip_list := vs\<rparr>, w1)"
    and p: "list_all2 (\<lambda>vip vip'. ipx vip' = ipx vip \<and> topo_ready vip'
          \<and> na_frame (net_vrid n) dst (ipx vip) (topo_frame vip')) (vip_list n) vs"
    using vrrp_na_init_ok [OF assms(1,4,5)] by blast
  obtain w2 where "topo_send os (n\<lparr>vip_list := vs\<rparr>) (rev vs) w1 = Ret w2"
      "trace w2 = trace w1 @ map (\<lambda>v. Sent (topo_frame v)) (rev vs)"
    using topo_send_up [OF assms(2), of "n\<lparr>vip_list := vs\<rparr>" nm "rev vs" w1] assms(3) topo_ready_all [OF p]
    by (auto simp: list_all_rev)
  moreover have "list_all2 (\<lambda>vip f. na_frame (net_vrid n) dst (ipx vip) f) (rev (vip_list n)) (map topo_frame (rev vs))"
    using p by (auto simp: list_all2_conv_all_nth rev_nth)
  ultimately show ?thesis
    using i by (intro exI [of _ "n\<lparr>vip_list := vs\<rparr>"] exI [of _ w1] exI [of _ w2] exI [of _ "map topo_frame (rev vs)"])
      (simp add: vrrp_na_send_def comp_def)
qed

theorem na_announces_every_address_witness:
  "\<exists>n' w1 w2 f. vrrp_na_init quiet_os (vnet0\<lparr>vip_list := [\<lparr>ipx = replicate 16 9, netmask = 0, topology = []\<rparr>]\<rparr>) world0
       = Ret (0, n', w1)
     \<and> vrrp_na_send quiet_os n' w1 = Ret (0, w2) \<and> trace w2 = trace w1 @ [Sent f]
     \<and> na_frame 42 (replicate 16 1) (replicate 16 9) f"
proof -
  let ?n = "vnet0\<lparr>vip_list := [\<lparr>ipx = replicate 16 9, netmask = 0, topology = []\<rparr>]\<rparr>"
  have "na_os quiet_os (replicate 16 1)" by (simp add: na_os_def quiet_os_def AF_INET6_def)
  moreover have "link_up quiet_os" by (simp add: link_up_def quiet_os_def)
  ultimately obtain n' w1 w2 fs where "vrrp_na_init quiet_os ?n world0 = Ret (0, n', w1)"
      "vrrp_na_send quiet_os n' w1 = Ret (0, w2)" "trace w2 = trace w1 @ map Sent fs"
      "list_all2 (\<lambda>vip f. na_frame (net_vrid ?n) (replicate 16 1) (ipx vip) f) (rev (vip_list ?n)) fs"
    using na_announces_every_address [of quiet_os "replicate 16 1" ?n "''eth0''" world0] by (auto simp: vnet0_def)
  then show ?thesis by (auto simp: list_all2_Cons1 vnet0_def)
qed

text \<open>
  Neighbour advertisements leave from a MAC address that is not the one the
  advertisements use: the third octet is 0x52 instead of 0x5e, so switches do not learn
  the virtual router MAC from them.
\<close>
theorem na_source_mac_is_not_virtual:
  "bslice (vrrp_na_eth[11 := vid]) 6 6 \<noteq> bslice (vrrp_adv_eth[11 := vid]) 6 6"
  by (simp add: bslice_def vrrp_na_eth_def vrrp_adv_eth_def)

end
