(* ===== verification/Vrrp_Exec.thy ===== *)
theory Vrrp_Exec
  imports Vrrp_Topology
begin

text \<open>
  The hook script, \<^verbatim>\<open>vrrp_exec.c\<close>: the argument vector, the fork of the child that runs
  the script and the wait for its end, and the scheduling switches of \<^verbatim>\<open>uvrrpd.c\<close> around
  it.  \<open>vrrp->argv\<close> is the list of its nine strings, \<open>None\<close> once it has been freed.
\<close>

section \<open>Arguments\<close>

definition SCRIPT_ARG_MAX :: nat where "SCRIPT_ARG_MAX = 46 * 1025"
definition SCRIPT_NARGS :: nat where "SCRIPT_NARGS = 10"

text \<open>\<open>snprintf\<close> writes at most one character less than the size it is given.\<close>

definition snprintf :: "nat \<Rightarrow> string \<Rightarrow> string" where
  "snprintf sz s = take (sz - 1) s"

text \<open>The script name from the character after its first slash.\<close>

definition script_basename :: "string \<Rightarrow> string" where
  "script_basename s =
     (case dropWhile (\<lambda>c. c \<noteq> CHR ''/'') s of [] \<Rightarrow> s | slash # nm \<Rightarrow> nm)"

fun serialize_vips :: "vrrp_ipx \<Rightarrow> os \<Rightarrow> vrrp_ip list \<Rightarrow> string \<Rightarrow> string" where
  "serialize_vips h os [] acc = acc"
| "serialize_vips h os (vip # vs) acc =
     (let plen = length acc;
          acc1 = (if plen \<noteq> 0 then acc @ '','' else acc)
      in serialize_vips h os vs
           (acc1 @ snprintf (SCRIPT_ARG_MAX - plen + 1) (ipx_to_str h os (ipx vip))))"

text \<open>Undefined when the vector has been freed, or the interface or the helper is null.\<close>

definition vrrp_build_args ::
    "os \<Rightarrow> string \<Rightarrow> string list option \<Rightarrow> vrrp \<Rightarrow> vrrp_net \<Rightarrow> vrrp_state \<Rightarrow> string list option" where
  "vrrp_build_args os script av v n st =
     (case (av, ifname (vif n), ipx_helper n) of
        (Some _, Some nm, Some h) \<Rightarrow>
          Some [snprintf SCRIPT_ARG_MAX (script_basename script),
                snprintf SCRIPT_ARG_MAX (STR_STATE st),
                snprintf SCRIPT_ARG_MAX (nat_str (unat (vrid v))),
                snprintf SCRIPT_ARG_MAX nm,
                snprintf SCRIPT_ARG_MAX (nat_str (unat (priority v))),
                snprintf SCRIPT_ARG_MAX (nat_str (unat (adv_int v))),
                snprintf SCRIPT_ARG_MAX (nat_str (unat (naddr v))),
                snprintf SCRIPT_ARG_MAX (nat_str (if family n = AF_INET then 4 else 6)),
                serialize_vips h os (rev (vip_list n)) []]
      | _ \<Rightarrow> None)"

section \<open>Execution\<close>

definition uvrrpd_sched_set :: "os \<Rightarrow> world \<Rightarrow> int \<times> world" where
  "uvrrpd_sched_set os w = ((if os_call os (tick w) \<noteq> 0 then -1 else 0), syscall w)"

definition uvrrpd_sched_unset :: "os \<Rightarrow> world \<Rightarrow> int \<times> world" where
  "uvrrpd_sched_unset os w = ((if os_call os (tick w) \<noteq> 0 then -1 else 0), syscall w)"

definition vrrp_exec_cleanup :: "vrrp \<Rightarrow> vrrp" where
  "vrrp_exec_cleanup v = v\<lparr>argv := None\<rparr>"

text \<open>\<open>malloc\<close> of the array and of its nine strings, which are zeroed.\<close>

definition vrrp_exec_init :: "os \<Rightarrow> vrrp \<Rightarrow> world \<Rightarrow> int \<times> vrrp \<times> world" where
  "vrrp_exec_init os v w =
     (if os_malloc os (tick w) = None then (-1, v\<lparr>argv := None\<rparr>, syscall w)
      else if list_ex (\<lambda>i. os_malloc os (tick w + 1 + i) = None) [0..<SCRIPT_NARGS - 1]
      then (-1, v\<lparr>argv := Some []\<rparr>, w\<lparr>tick := tick w + SCRIPT_NARGS\<rparr>)
      else (0, v\<lparr>argv := Some (replicate (SCRIPT_NARGS - 1) [])\<rparr>, w\<lparr>tick := tick w + SCRIPT_NARGS\<rparr>))"

text \<open>
  The loop around \<open>waitpid\<close>: interrupted calls are repeated.  \<open>None\<close> is a loop that never
  ends.
\<close>

partial_function (option) wait_child :: "os \<Rightarrow> world \<Rightarrow> (int \<times> world) option" where
  "wait_child os w =
     (case os_waitpid os (tick w) of
        Wait_status st \<Rightarrow> Some (st, syscall w)
      | Wait_error \<Rightarrow> Some (-1, syscall w)
      | Wait_eintr \<Rightarrow> wait_child os (syscall w))"

text \<open>
  \<open>Fork_child\<close> is the child in which \<open>execve\<close> failed (otherwise it is another program): it
  returns from the function like the parent.  In the parent the script runs with the
  arguments just built.
\<close>

definition vrrp_exec ::
    "os \<Rightarrow> vrrp \<Rightarrow> vrrp_net \<Rightarrow> vrrp_state \<Rightarrow> world \<Rightarrow> (int \<times> vrrp \<times> world) run" where
  "vrrp_exec os v n st w =
     (let script = (case scriptname v of None \<Rightarrow> os_script os | Some s \<Rightarrow> s);
          (ok, w0) = is_file_executable os script w
      in if \<not> ok then Ret (-1, v, w0)
         else bind_run (run_opt (vrrp_build_args os script (argv v) v n st)) (\<lambda>args.
           let v1 = v\<lparr>argv := Some args\<rparr>; w1 = snd (uvrrpd_sched_unset os w0) in
           case os_fork os (tick w1) of
             Fork_error \<Rightarrow> Ret (-1, vrrp_exec_cleanup v1, syscall w1)
           | Fork_child \<Rightarrow> Ret (-1, vrrp_exec_cleanup v1, syscall w1)
           | Fork_parent \<Rightarrow>
               (let w2 = emit (Exec script args) (syscall w1);
                    w3 = snd (uvrrpd_sched_set os w2)
                in case wait_child os w3 of
                     None \<Rightarrow> Diverge
                   | Some (status, w4) \<Rightarrow> Ret (status, v1, w4))))"

section \<open>Termination and effect\<close>

text \<open>The kernel eventually answers: not every \<open>waitpid\<close> from some point on is interrupted.\<close>

definition wait_ends :: "os \<Rightarrow> bool" where
  "wait_ends os \<longleftrightarrow> (\<forall>t. \<exists>u \<ge> t. os_waitpid os u \<noteq> Wait_eintr)"

lemma wait_child_reaches:
  assumes "os_waitpid os (tick w + k) \<noteq> Wait_eintr"
  shows "\<exists>st w'. wait_child os w = Some (st, w') \<and> reg w' = reg w \<and> trace w' = trace w
    \<and> tick w \<le> tick w'"
  using assms
proof (induction k arbitrary: w)
  case 0
  then show ?case by (subst wait_child.simps) (auto split: wait_result.split)
next
  case (Suc k)
  have "\<exists>st w'. wait_child os (syscall w) = Some (st, w') \<and> reg w' = reg w \<and> trace w' = trace w
      \<and> Suc (tick w) \<le> tick w'"
    using Suc.IH [of "syscall w"] Suc.prems by simp
  then show ?case by (subst wait_child.simps) (auto split: wait_result.split)
qed

lemma wait_child_total:
  assumes "wait_ends os"
  shows "\<exists>st w'. wait_child os w = Some (st, w') \<and> reg w' = reg w \<and> trace w' = trace w
    \<and> tick w \<le> tick w'"
proof -
  obtain u where "u \<ge> tick w" "os_waitpid os u \<noteq> Wait_eintr" using assms by (auto simp: wait_ends_def)
  then show ?thesis using wait_child_reaches [of os w "u - tick w"] by simp
qed

text \<open>What the state machine relies on: the vector is allocated and the instance set up.\<close>

definition exec_ready :: "vrrp \<Rightarrow> vrrp_net \<Rightarrow> bool" where
  "exec_ready v n \<longleftrightarrow> argv v \<noteq> None \<and> ifname (vif n) \<noteq> None \<and> ipx_helper n \<noteq> None"

text \<open>Forking succeeds and this is the parent.\<close>

definition fork_ok :: "os \<Rightarrow> bool" where
  "fork_ok os \<longleftrightarrow> (\<forall>t. os_fork os t = Fork_parent)"

lemma executable_frame:
  "is_file_executable os f w = (ok, w') \<Longrightarrow> w' = syscall w"
  by (auto simp: is_file_executable_def split: option.splits)

lemma vrrp_exec_total:
  assumes "exec_ready v n" and "fork_ok os" and "wait_ends os"
  shows "\<exists>r av w' es. vrrp_exec os v n st w = Ret (r, v\<lparr>argv := Some av\<rparr>, w')
     \<and> reg w' = reg w \<and> trace w' = trace w @ es \<and> tick w \<le> tick w'
     \<and> (es = [] \<or> (\<exists>sc. es = [Exec sc av] \<and> 1 < length av \<and> av ! 1 = STR_STATE st))"
proof -
  obtain av0 nm h where r: "argv v = Some av0" "ifname (vif n) = Some nm" "ipx_helper n = Some h"
    using assms(1) by (auto simp: exec_ready_def)
  let ?sc = "case scriptname v of None \<Rightarrow> os_script os | Some s \<Rightarrow> s"
  obtain ok w0 where ex: "is_file_executable os ?sc w = (ok, w0)" by fastforce
  then have w0: "w0 = syscall w" by (rule executable_frame)
  obtain av where av: "vrrp_build_args os ?sc (argv v) v n st = Some av"
    using r by (simp add: vrrp_build_args_def)
  have "snprintf SCRIPT_ARG_MAX (STR_STATE st) = STR_STATE st"
    by (simp add: snprintf_def STR_STATE_def SCRIPT_ARG_MAX_def)
  then have av1: "1 < length av" "av ! 1 = STR_STATE st"
    using av r by (auto simp: vrrp_build_args_def)
  let ?w2 = "emit (Exec ?sc av) (syscall (syscall w0))"
  obtain s w4 where wait: "wait_child os (syscall ?w2) = Some (s, w4)" "reg w4 = reg w"
      "trace w4 = trace w @ [Exec ?sc av]" "tick w \<le> tick w4"
    using wait_child_total [OF assms(3), of "syscall ?w2"] w0 by auto
  have same: "v = v\<lparr>argv := Some av0\<rparr>" using r(1) by simp
  show ?thesis
  proof (cases ok)
    case True
    then have "vrrp_exec os v n st w = Ret (s, v\<lparr>argv := Some av\<rparr>, w4)"
      using ex av wait(1) assms(2)
      by (simp add: vrrp_exec_def Let_def uvrrpd_sched_unset_def uvrrpd_sched_set_def fork_ok_def)
    with wait av1 show ?thesis by blast
  next
    case False
    then have "vrrp_exec os v n st w = Ret (-1, v\<lparr>argv := Some av0\<rparr>, w0)"
      using ex same by (simp add: vrrp_exec_def Let_def)
    with w0 show ?thesis by auto
  qed
qed

section \<open>The hook is run\<close>

fun join_comma :: "string list \<Rightarrow> string" where
  "join_comma [] = []"
| "join_comma [s] = s"
| "join_comma (s # t # r) = s @ '','' @ join_comma (t # r)"

lemma join_comma_snoc: "xs \<noteq> [] \<Longrightarrow> join_comma (xs @ [s]) = join_comma xs @ '','' @ s"
  by (induction xs rule: join_comma.induct) simp_all

lemma join_comma_length:
  "\<forall>s \<in> set xs. length s \<le> 45 \<Longrightarrow> length (join_comma xs) \<le> 46 * length xs"
  by (induction xs rule: join_comma.induct) auto

lemma join_comma_nonempty: "\<forall>s \<in> set xs. s \<noteq> [] \<Longrightarrow> join_comma xs = [] \<longleftrightarrow> xs = []"
  by (induction xs rule: join_comma.induct) auto

text \<open>What \<open>inet_ntop\<close> writes fits \<open>INET6_ADDRSTRLEN\<close> and is not empty.\<close>

definition ntop_ok :: "os \<Rightarrow> bool" where
  "ntop_ok os \<longleftrightarrow> (\<forall>f a. os_ntop os f a \<noteq> [] \<and> length (os_ntop os f a) \<le> 45)"

lemma ipx_to_str_ok:
  "ntop_ok os \<Longrightarrow> ipx_to_str h os a \<noteq> [] \<and> length (ipx_to_str h os a) \<le> 45"
  by (cases h) (simp_all add: vrrp_ip4_ntop_def vrrp_ip6_ntop_def ntop_ok_def)

lemma serialize_vips_join:
  assumes "ntop_ok os" and "length done + length vs \<le> 255"
    and "\<forall>s \<in> set done. s \<noteq> [] \<and> length s \<le> 45"
  shows "serialize_vips h os vs (join_comma done)
    = join_comma (done @ map (\<lambda>vip. ipx_to_str h os (ipx vip)) vs)"
  using assms(2,3)
proof (induction vs arbitrary: "done")
  case (Cons vip vs)
  let ?s = "ipx_to_str h os (ipx vip)"
  have s: "?s \<noteq> []" "length ?s \<le> 45" using ipx_to_str_ok [OF assms(1)] by simp_all
  have "length (join_comma done) \<le> 46 * length done" using Cons.prems(2) by (intro join_comma_length) auto
  then have "length (join_comma done) \<le> 11730" using Cons.prems(1) by simp
  then have "snprintf (SCRIPT_ARG_MAX - length (join_comma done) + 1) ?s = ?s"
    using s(2) by (simp add: snprintf_def SCRIPT_ARG_MAX_def)
  moreover have "(if length (join_comma done) \<noteq> 0 then join_comma done @ '','' else join_comma done) @ ?s
      = join_comma (done @ [?s])"
    using join_comma_nonempty [of "done"] join_comma_snoc [of "done" ?s] Cons.prems(2)
    by (cases "done = []") auto
  ultimately have "serialize_vips h os (vip # vs) (join_comma done)
      = serialize_vips h os vs (join_comma (done @ [?s]))"
    by (simp add: Let_def)
  also have "\<dots> = join_comma ((done @ [?s]) @ map (\<lambda>vip. ipx_to_str h os (ipx vip)) vs)"
    using Cons.prems s by (intro Cons.IH) auto
  finally show ?case by simp
qed simp

lemma nat_str_short: "n < 65536 \<Longrightarrow> length (nat_str n) \<le> 5"
proof -
  have "length (nat_str n) \<le> k" if "n < 10 ^ k" "0 < k" for n k
    using that
  proof (induction k arbitrary: n)
    case (Suc k)
    show ?case
    proof (cases "n < 10")
      case False
      then have "n div 10 < 10 ^ k" "0 < k" using Suc.prems by (auto intro: ccontr)
      then have "length (nat_str (n div 10)) \<le> k" by (rule Suc.IH)
      then show ?thesis using False by (subst nat_str.simps) simp
    qed (subst nat_str.simps, simp)
  qed simp
  from this [of n 5] show "n < 65536 \<Longrightarrow> length (nat_str n) \<le> 5" by simp
qed

lemma snprintf_short: "length s \<le> 6 \<Longrightarrow> snprintf SCRIPT_ARG_MAX s = s"
  by (simp add: snprintf_def SCRIPT_ARG_MAX_def)

lemma snprintf_nat [simp]:
  "snprintf SCRIPT_ARG_MAX (nat_str (unat (x :: u8))) = nat_str (unat x)"
  "snprintf SCRIPT_ARG_MAX (nat_str (unat (y :: u16))) = nat_str (unat y)"
  "snprintf SCRIPT_ARG_MAX (STR_STATE st) = STR_STATE st"
proof -
  have "unat x < 65536" using unat_u8_less [of x] by linarith
  then have "length (nat_str (unat x)) \<le> 5" "length (nat_str (unat y)) \<le> 5"
    using nat_str_short unat_u16_less by blast+
  then show "snprintf SCRIPT_ARG_MAX (nat_str (unat x)) = nat_str (unat x)"
    "snprintf SCRIPT_ARG_MAX (nat_str (unat y)) = nat_str (unat y)"
    by (simp_all add: snprintf_short)
  show "snprintf SCRIPT_ARG_MAX (STR_STATE st) = STR_STATE st"
    by (rule snprintf_short) (simp add: STR_STATE_def)
qed

lemma vrrp_build_args_value:
  assumes "argv v = Some av0" and "ifname (vif n) = Some nm" and "ipx_helper n = Some h"
    and "ntop_ok os" and "length (vip_list n) \<le> 255"
  shows "vrrp_build_args os sc (argv v) v n st = Some
     [snprintf SCRIPT_ARG_MAX (script_basename sc), STR_STATE st, nat_str (unat (vrid v)),
      snprintf SCRIPT_ARG_MAX nm, nat_str (unat (priority v)), nat_str (unat (adv_int v)),
      nat_str (unat (naddr v)), if family n = AF_INET then ''4'' else ''6'',
      join_comma (map (\<lambda>vip. ipx_to_str h os (ipx vip)) (rev (vip_list n)))]"
proof -
  have "nat_str 4 = ''4''" "nat_str 6 = ''6''" by code_simp+
  then have "snprintf SCRIPT_ARG_MAX (nat_str (if family n = AF_INET then 4 else 6))
      = (if family n = AF_INET then ''4'' else ''6'')"
    by (simp add: snprintf_short)
  moreover have "serialize_vips h os (rev (vip_list n)) []
      = join_comma (map (\<lambda>vip. ipx_to_str h os (ipx vip)) (rev (vip_list n)))"
    using serialize_vips_join [OF assms(4), of "[]" "rev (vip_list n)" h] assms(5) by simp
  ultimately show ?thesis using assms(1-3) by (simp add: vrrp_build_args_def)
qed



section \<open>Limits of the error paths\<close>

text \<open>
  C36. A failed \<open>fork\<close> is not survived: the argument vector is freed and the pointer is
  cleared, so the next transition of the daemon writes through a null pointer.
\<close>
theorem fork_failure_breaks_next_exec:
  assumes "exec_ready v n" and "fst (is_file_executable os sc w)" and "scriptname v = Some sc"
    and "os_fork os (tick w + 2) = Fork_error"
  shows "\<exists>v' w'. vrrp_exec os v n st w = Ret (-1, v', w') \<and> argv v' = None
     \<and> (fst (is_file_executable os' sc w') \<longrightarrow> vrrp_exec os' v' n st' w' = Undef)"
proof -
  obtain av0 nm h where r: "argv v = Some av0" "ifname (vif n) = Some nm" "ipx_helper n = Some h"
    using assms(1) by (auto simp: exec_ready_def)
  have ex: "is_file_executable os sc w = (True, syscall w)"
    using assms(2) executable_frame by (metis prod.collapse)
  have "vrrp_exec os v n st w = Ret (-1, v\<lparr>argv := None\<rparr>, syscall (syscall (syscall w)))"
    using ex r assms(3,4)
    by (simp add: vrrp_exec_def Let_def vrrp_build_args_def uvrrpd_sched_unset_def
        vrrp_exec_cleanup_def eval_nat_numeral)
  then show ?thesis
    using assms(3) by (auto simp: vrrp_exec_def vrrp_build_args_def split_beta)
qed

theorem fork_failure_breaks_next_exec_witness:
  "\<exists>v' w'. vrrp_exec (quiet_os\<lparr>os_fork := (\<lambda>_. Fork_error)\<rparr>) (vrrp0\<lparr>scriptname := Some ''/s''\<rparr>)
       vnet0 BACKUP world0 = Ret (-1, v', w')
     \<and> vrrp_exec quiet_os v' vnet0 MASTER w' = Undef"
  using fork_failure_breaks_next_exec [of "vrrp0\<lparr>scriptname := Some ''/s''\<rparr>" vnet0
      "quiet_os\<lparr>os_fork := (\<lambda>_. Fork_error)\<rparr>" "''/s''" world0 BACKUP quiet_os MASTER]
  by (auto simp: example_defs exec_ready_def is_file_executable_def)

text \<open>The name passed as \<open>argv[0]\<close> is not a base name for a path with two slashes.\<close>

lemma script_basename_first_slash:
  "script_basename ''/etc/uvrrpd/vrrp_switch.sh'' = ''etc/uvrrpd/vrrp_switch.sh''"
  by code_simp

end
