(* ===== verification/Vrrp_Bits.thy ===== *)
theory Vrrp_Bits
  imports Vrrp_Prelude
begin

text \<open>
  The bit operations of \<^verbatim>\<open>bits.h\<close> on the control register
  \<open>unsigned long reg\<close> and the flags of \<^verbatim>\<open>uvrrpd.h\<close>.  \<open>BIT_MASK(nr)\<close> is an
  \<open>int\<close> shift, converted (with its sign) to \<open>unsigned long\<close> where it meets the
  register.  The enumerators of \<open>uvrrpd_control\<close> are themselves masks and are passed
  as bit numbers, so \<open>UVRRPD_RELOAD\<close> is bit 8.  The locale \<open>flag_register\<close> is the
  contract the rest of the daemon relies on.
\<close>

section \<open>The operations\<close>

definition BIT_MASK :: "nat \<Rightarrow> u32" where
  "BIT_MASK nr = push_bit nr 1"

definition mask_ul :: "u32 \<Rightarrow> u64" where
  "mask_ul m = scast m"

definition set_bit :: "nat \<Rightarrow> u64 \<Rightarrow> u64" where
  "set_bit nr r = r OR mask_ul (BIT_MASK nr)"

definition clear_bit :: "nat \<Rightarrow> u64 \<Rightarrow> u64" where
  "clear_bit nr r = r AND mask_ul (NOT (BIT_MASK nr))"

definition change_bit :: "nat \<Rightarrow> u64 \<Rightarrow> u64" where
  "change_bit nr r = r XOR mask_ul (BIT_MASK nr)"

definition test_and_set_bit :: "nat \<Rightarrow> u64 \<Rightarrow> bool \<times> u64" where
  "test_and_set_bit nr r =
     (let mask = mask_ul (BIT_MASK nr); old = r in (old AND mask \<noteq> 0, old OR mask))"

definition test_and_clear_bit :: "nat \<Rightarrow> u64 \<Rightarrow> bool \<times> u64" where
  "test_and_clear_bit nr r =
     (let mask = mask_ul (BIT_MASK nr); old = r in (old AND mask \<noteq> 0, old AND NOT mask))"

definition test_and_change_bit :: "nat \<Rightarrow> u64 \<Rightarrow> bool \<times> u64" where
  "test_and_change_bit nr r =
     (let mask = mask_ul (BIT_MASK nr); old = r in (old AND mask \<noteq> 0, old XOR mask))"

definition test_bit :: "nat \<Rightarrow> u64 \<Rightarrow> bool" where
  "test_bit nr r \<longleftrightarrow> 1 AND drop_bit nr r \<noteq> 0"

text \<open>\<open>enum uvrrpd_control\<close>: each enumerator is \<open>BIT_MASK(k)\<close>, used as a bit number.\<close>

definition KEEP_GOING :: nat where "KEEP_GOING = unat (BIT_MASK 0)"
definition UVRRPD_DUMP :: nat where "UVRRPD_DUMP = unat (BIT_MASK 1)"
definition UVRRPD_LOGOUT :: nat where "UVRRPD_LOGOUT = unat (BIT_MASK 2)"
definition UVRRPD_RELOAD :: nat where "UVRRPD_RELOAD = unat (BIT_MASK 3)"

lemmas control_defs = KEEP_GOING_def UVRRPD_DUMP_def UVRRPD_LOGOUT_def UVRRPD_RELOAD_def

section \<open>The contract of a flag register\<close>

text \<open>
  \<open>valid\<close> are the usable flag numbers.  The laws are what the callers of
  \<^verbatim>\<open>bits.h\<close> rely on: a flag reads back what was last written to it, and
  writing a flag leaves the others alone.
\<close>

locale flag_register =
  fixes valid :: "'i \<Rightarrow> bool"
    and seti :: "'i \<Rightarrow> 'r \<Rightarrow> 'r"
    and cleari :: "'i \<Rightarrow> 'r \<Rightarrow> 'r"
    and testi :: "'i \<Rightarrow> 'r \<Rightarrow> bool"
    and tcleari :: "'i \<Rightarrow> 'r \<Rightarrow> bool \<times> 'r"
  assumes test_set: "valid i \<Longrightarrow> valid j \<Longrightarrow> testi j (seti i r) \<longleftrightarrow> i = j \<or> testi j r"
    and test_clear: "valid i \<Longrightarrow> valid j \<Longrightarrow> testi j (cleari i r) \<longleftrightarrow> i \<noteq> j \<and> testi j r"
    and tclear: "valid i \<Longrightarrow> tcleari i r = (testi i r, cleari i r)"
begin

lemma consume:
  assumes "valid i" and "valid j"
  shows "fst (tcleari i r) = testi i r"
    and "testi j (snd (tcleari i r)) \<longleftrightarrow> i \<noteq> j \<and> testi j r"
  using assms by (simp_all add: tclear test_clear)

lemma consume_once: "valid i \<Longrightarrow> fst (tcleari i (snd (tcleari i r))) = False"
  by (simp add: tclear test_clear)

lemma set_consume: "valid i \<Longrightarrow> fst (tcleari i (seti i r))"
  by (simp add: tclear test_set)

end

section \<open>The register of the daemon meets the contract\<close>

text \<open>Up to bit 30 the \<open>int\<close> mask converts without its sign.\<close>

abbreviation bit_ok :: "nat \<Rightarrow> bool" where "bit_ok nr \<equiv> nr < 31"

lemma bit_mask_ul: "bit_ok nr \<Longrightarrow> bit (mask_ul (BIT_MASK nr)) k \<longleftrightarrow> k = nr"
  by (auto simp: mask_ul_def BIT_MASK_def bit_signed_iff bit_exp_iff min_def split: if_splits)

lemma bit_mask_ul_not:
  "bit_ok nr \<Longrightarrow> bit (mask_ul (NOT (BIT_MASK nr))) k \<longleftrightarrow> k < 64 \<and> k \<noteq> nr"
  by (auto simp: mask_ul_def BIT_MASK_def bit_signed_iff bit_exp_iff bit_not_iff min_def
      split: if_splits)

lemma test_bit_iff: "test_bit nr r \<longleftrightarrow> bit r nr"
  by (simp add: test_bit_def bit_iff_odd_drop_bit and.commute [of 1] and_one_eq odd_iff_mod_2_eq_one)

lemma and_mask_nonzero: "bit_ok nr \<Longrightarrow> r AND mask_ul (BIT_MASK nr) \<noteq> 0 \<longleftrightarrow> bit r nr"
  using bit_eq_iff [of "r AND mask_ul (BIT_MASK nr)" 0] by (auto simp: bit_and_iff bit_mask_ul)

lemma clear_bit_eq: "bit_ok nr \<Longrightarrow> clear_bit nr r = r AND NOT (mask_ul (BIT_MASK nr))"
  by (rule bit_eqI) (auto simp: clear_bit_def bit_and_iff bit_mask_ul bit_mask_ul_not bit_not_iff)

interpretation reg: flag_register bit_ok set_bit clear_bit test_bit test_and_clear_bit
proof
  fix i j :: nat and r :: u64
  assume ok: "bit_ok i" "bit_ok j"
  show "test_bit j (set_bit i r) \<longleftrightarrow> i = j \<or> test_bit j r"
    using ok by (auto simp: test_bit_iff set_bit_def bit_or_iff bit_mask_ul)
  show "test_bit j (clear_bit i r) \<longleftrightarrow> i \<noteq> j \<and> test_bit j r"
    using ok by (auto simp: test_bit_iff clear_bit_def bit_and_iff bit_mask_ul_not)
next
  fix i :: nat and r :: u64
  assume "bit_ok i"
  then show "test_and_clear_bit i r = (test_bit i r, clear_bit i r)"
    by (simp add: test_and_clear_bit_def Let_def and_mask_nonzero clear_bit_eq test_bit_iff)
qed

lemma control_bits [simp]:
  "KEEP_GOING = 1" "UVRRPD_DUMP = 2" "UVRRPD_LOGOUT = 4" "UVRRPD_RELOAD = 8"
  by (simp_all add: control_defs BIT_MASK_def)

text \<open>The remaining test-and-modify operations of \<^verbatim>\<open>bits.h\<close>.\<close>

lemma test_and_set_bit_spec:
  "bit_ok nr \<Longrightarrow> test_and_set_bit nr r = (test_bit nr r, set_bit nr r)"
  by (simp add: test_and_set_bit_def Let_def and_mask_nonzero test_bit_iff set_bit_def)

lemma test_and_change_bit_spec:
  "bit_ok nr \<Longrightarrow> test_and_change_bit nr r = (test_bit nr r, change_bit nr r)"
  by (simp add: test_and_change_bit_def Let_def and_mask_nonzero test_bit_iff change_bit_def)

lemma test_change_bit:
  "bit_ok i \<Longrightarrow> bit_ok j \<Longrightarrow> test_bit j (change_bit i r) \<longleftrightarrow> (test_bit j r \<noteq> (i = j))"
  by (auto simp: test_bit_iff change_bit_def bit_xor_iff bit_mask_ul)

end
