(* ===== verification/Vrrp_Ctrl.thy ===== *)
theory Vrrp_Ctrl
  imports Vrrp_Bits Vrrp_Adv
begin

text \<open>
  The control fifo, \<^verbatim>\<open>vrrp_ctrl.c\<close>: reading a message into the 64-byte buffer, splitting
  it in place into words (the words are pointers into the buffer), and the commands
  \<open>stop\<close>, \<open>reload\<close>, \<open>state\<close>, \<open>status\<close> and \<open>prio\<close>.
\<close>

section \<open>Reading and splitting\<close>

definition EWOULDBLOCK :: int where "EWOULDBLOCK = 11"

text \<open>
  The loop ends with the first read that returns no byte; \<open>None\<close> is a fifo that never
  runs dry.  At end of file \<open>errno\<close> is left over from an earlier call.
\<close>

partial_function (option) flush_fifo :: "os \<Rightarrow> world \<Rightarrow> (int \<times> world) option" where
  "flush_fifo os w =
     (case os_fifo os (tick w) of
        Fifo_data s \<Rightarrow>
          if s = [] then Some ((if os_errno os (tick w) = EWOULDBLOCK then 0 else -1), syscall w)
          else flush_fifo os (syscall w)
      | Fifo_wouldblock \<Rightarrow> Some (0, syscall w)
      | Fifo_error \<Rightarrow> Some (-1, syscall w))"

text \<open>
  \<open>strsep(&str, WHITESPACE)\<close> on the buffer from position \<open>p\<close>: the delimiter found is
  overwritten with a terminator, and the new position is behind it.
\<close>

definition word_end :: "string \<Rightarrow> nat \<Rightarrow> nat" where
  "word_end m p = p + length (takeWhile (\<lambda>c. c \<noteq> NUL \<and> \<not> isspace c) (drop p m))"

definition strsep :: "string \<Rightarrow> nat \<Rightarrow> string \<times> nat option" where
  "strsep m p =
     (let e = word_end m p
      in if e < length m \<and> m ! e \<noteq> NUL then (m[e := NUL], Some (Suc e)) else (m, None))"

definition skip_space :: "string \<Rightarrow> nat \<Rightarrow> nat" where
  "skip_space m p = p + length (takeWhile isspace (drop p m))"

text \<open>
  One round of the loop, for word \<open>i\<close>; and the rounds from number \<open>i\<close> on, \<open>k\<close> of them left.
\<close>

definition split_step ::
    "nat \<Rightarrow> nat option \<Rightarrow> string \<Rightarrow> wptr list \<Rightarrow> nat option \<times> string \<times> wptr list" where
  "split_step i str m ws =
     (case str of
        None \<Rightarrow> (None, m, ws)
      | Some p \<Rightarrow>
          (let q = skip_space m p
           in if m ! q \<noteq> NUL then (let (m', s') = strsep m q in (s', m', ws[i := At q]))
              else (Some q, m, ws)))"

fun split_loop :: "nat \<Rightarrow> nat \<Rightarrow> nat option \<Rightarrow> string \<Rightarrow> wptr list \<Rightarrow> nat \<times> string \<times> wptr list" where
  "split_loop 0 i str m ws = (i, m, ws)"
| "split_loop (Suc k) i str m ws =
     (case split_step i str m ws of (str1, m1, ws1) \<Rightarrow>
        if ws1 ! i = Null then (i, m1, ws1) else split_loop k (Suc i) str1 m1 ws1)"

definition split_cmd :: "string \<Rightarrow> wptr list \<Rightarrow> nat \<Rightarrow> nat \<times> string \<times> wptr list" where
  "split_cmd m ws max_words = split_loop max_words 0 (Some 0) m ws"

section \<open>The commands\<close>

text \<open>
  \<open>malloc\<close> does not clear the array of words: an element is null only if its eight bytes
  happen to be 0.
\<close>

definition vrrp_ctrl_init :: "os \<Rightarrow> vrrp_ctrl \<Rightarrow> world \<Rightarrow> int \<times> vrrp_ctrl \<times> world" where
  "vrrp_ctrl_init os c w =
     (case os_malloc os (tick w) of
        None \<Rightarrow> (-1, c\<lparr>cmd := []\<rparr>, syscall w)
      | Some old \<Rightarrow>
          (0, c\<lparr>cmd := map (\<lambda>i. if list_all (\<lambda>j. old (8 * i + j) = 0) [0..<8] then Null else Wild)
                          [0..<CTRL_CMD_NTOKEN],
                msg := replicate CTRL_MAXCHAR NUL\<rparr>, syscall w))"

definition vrrp_ctrl_cmd_flush :: "vrrp_ctrl \<Rightarrow> vrrp_ctrl" where
  "vrrp_ctrl_cmd_flush c =
     c\<lparr>cmd := replicate CTRL_CMD_NTOKEN Null, msg := replicate CTRL_MAXCHAR NUL\<rparr>"

text \<open>The memory a word points to; null and wild pointers cannot be read.\<close>

definition word_at :: "string \<Rightarrow> wptr \<Rightarrow> string option" where
  "word_at m p = (case p of At i \<Rightarrow> Some (drop i m) | _ \<Rightarrow> None)"

definition ctrl_prio ::
    "nat \<Rightarrow> string \<Rightarrow> wptr list \<Rightarrow> vrrp \<Rightarrow> vrrp_net \<Rightarrow> world
       \<Rightarrow> (vrrp_event \<times> vrrp \<times> vrrp_net \<times> world) run" where
  "ctrl_prio nword m ws v n w =
     (let vf = v\<lparr>ctrl := vrrp_ctrl_cmd_flush (ctrl v)\<rparr> in
      if nword \<noteq> 2 then Ret (INVALID, vf, n, w)
      else bind_run (run_opt (word_at m (ws ! 1))) (\<lambda>s.
        case mystrtoul (takeWhile (\<lambda>c. c \<noteq> NUL) s) VRRP_PRIO_MAX of
          Inl e \<Rightarrow> Ret (INVALID, vf, n, w)
        | Inr opt \<Rightarrow>
            (let w1 = w\<lparr>reg := set_bit UVRRPD_RELOAD (reg w)\<rparr> in
             if priority vf \<noteq> of_nat opt
             then bind_run (vrrp_adv_set_priority n (of_nat opt)) (\<lambda>n1.
                    Ret (CTRL_FIFO, vf\<lparr>priority := of_nat opt\<rparr>, n1, w1))
             else Ret (CTRL_FIFO, vf, n, w1))))"

definition vrrp_ctrl_cmd ::
    "vrrp \<Rightarrow> vrrp_net \<Rightarrow> world \<Rightarrow> (vrrp_event \<times> vrrp \<times> vrrp_net \<times> world) run" where
  "vrrp_ctrl_cmd v n w =
     (case split_cmd (msg (ctrl v)) (cmd (ctrl v)) CTRL_CMD_NTOKEN of (nword, m, ws) \<Rightarrow>
        (let v1 = v\<lparr>ctrl := (ctrl v)\<lparr>msg := m, cmd := ws\<rparr>\<rparr>;
             vf = v1\<lparr>ctrl := vrrp_ctrl_cmd_flush (ctrl v1)\<rparr>
         in if nword = 0 then Ret (INVALID, v1, n, w)
            else bind_run (run_opt (word_at m (ws ! 0))) (\<lambda>s.
              if matches s ''stop''
              then Ret (CTRL_FIFO, vf, n,
                     w\<lparr>reg := clear_bit KEEP_GOING (set_bit UVRRPD_RELOAD (reg w))\<rparr>)
              else if matches s ''reload''
              then Ret (CTRL_FIFO, vf, n, w\<lparr>reg := set_bit UVRRPD_RELOAD (reg w)\<rparr>)
              else if matches s ''state'' \<or> matches s ''status''
              then Ret (CTRL_FIFO, vf, n, w\<lparr>reg := set_bit UVRRPD_DUMP (reg w)\<rparr>)
              else if matches s ''prio'' then ctrl_prio nword m ws v1 n w
              else Ret (INVALID, vf, n, w))))"

definition vrrp_ctrl_read ::
    "os \<Rightarrow> vrrp \<Rightarrow> vrrp_net \<Rightarrow> world \<Rightarrow> (vrrp_event \<times> vrrp \<times> vrrp_net \<times> world) run" where
  "vrrp_ctrl_read os v n w =
     (case os_fifo os (tick w) of
        Fifo_data s \<Rightarrow>
          (let d = take CTRL_MAXCHAR s;
               m = d @ drop (length d) (msg (ctrl v))
           in if d = [] then Ret (INVALID, v, n, syscall w)
              else case flush_fifo os (syscall w) of
                     None \<Rightarrow> Diverge
                   | Some (r, w1) \<Rightarrow>
                       vrrp_ctrl_cmd (v\<lparr>ctrl := (ctrl v)\<lparr>msg := m[CTRL_MAXCHAR - 1 := NUL]\<rparr>\<rparr>) n w1)
      | _ \<Rightarrow> Ret (INVALID, v, n, syscall w))"

definition vrrp_ctrl_cleanup :: "vrrp_ctrl \<Rightarrow> vrrp_ctrl" where
  "vrrp_ctrl_cleanup c = c\<lparr>cmd := []\<rparr>"

section \<open>The invariant of the command buffer\<close>

definition ctrl_wf :: "vrrp_ctrl \<Rightarrow> bool" where
  "ctrl_wf c \<longleftrightarrow> length (msg c) = CTRL_MAXCHAR \<and> cmd c = replicate CTRL_CMD_NTOKEN Null"

lemma flush_wf [simp]: "ctrl_wf (vrrp_ctrl_cmd_flush c)"
  by (simp add: ctrl_wf_def vrrp_ctrl_cmd_flush_def)

lemma flush_twice [simp]:
  "vrrp_ctrl_cmd_flush (c\<lparr>msg := m, cmd := x\<rparr>) = vrrp_ctrl_cmd_flush c"
  by (cases c) (simp add: vrrp_ctrl_cmd_flush_def)

lemma strsep_length [simp]: "length (fst (strsep m p)) = length m"
  by (simp add: strsep_def Let_def)

lemma split_step_effect:
  assumes "split_step i str m ws = (str1, m1, ws1)"
  shows "length m1 = length m" and "ws1 = ws \<or> (\<exists>q. ws1 = ws[i := At q])"
proof -
  show "ws1 = ws \<or> (\<exists>q. ws1 = ws[i := At q])"
    using assms by (auto simp: split_step_def Let_def split_beta split: option.splits if_splits)
  show "length m1 = length m"
    using assms by (auto simp: split_step_def Let_def split_beta split: option.splits if_splits)
qed

text \<open>Every word below the returned count is a position in the buffer.\<close>

lemma split_loop_words:
  assumes "split_loop k i str m ws = (nw, m', ws')" and "length ws = i + k"
    and "\<forall>j < i. \<exists>p. ws ! j = At p" and "\<forall>j \<ge> i. j < length ws \<longrightarrow> ws ! j = Null"
  shows "length m' = length m \<and> length ws' = length ws \<and> nw \<le> i + k
     \<and> (\<forall>j < nw. \<exists>p. ws' ! j = At p) \<and> (\<forall>j \<ge> nw. j < length ws \<longrightarrow> ws' ! j = Null)"
  using assms
proof (induction k arbitrary: i str m ws)
  case (Suc k)
  obtain str1 m1 ws1 where st: "split_step i str m ws = (str1, m1, ws1)"
    by (cases "split_step i str m ws")
  note step = split_step_effect [OF st]
  show ?case
  proof (cases "ws1 ! i = Null")
    case True
    then have "ws1 = ws" using step(2) Suc.prems(2) by auto
    then show ?thesis using True st Suc.prems step(1) by auto
  next
    case False
    have null: "ws ! i = Null" using Suc.prems(2,4) by simp
    then obtain q where q: "ws1 = ws[i := At q]" using False step(2) by auto
    have "split_loop k (Suc i) str1 m1 ws1 = (nw, m', ws')"
      using Suc.prems(1) st False by simp
    moreover have "length ws1 = Suc i + k" using Suc.prems(2) q by simp
    moreover have "\<forall>j < Suc i. \<exists>p. ws1 ! j = At p"
      using Suc.prems(2,3) q by (auto simp: nth_list_update elim: less_SucE)
    moreover have "\<forall>j \<ge> Suc i. j < length ws1 \<longrightarrow> ws1 ! j = Null"
      using Suc.prems(4) q by simp
    ultimately show ?thesis
      using Suc.IH [of "Suc i" str1 m1 ws1] step(1) q Suc.prems(2) by simp
  qed
qed auto

lemma split_cmd_words:
  assumes "split_cmd m (replicate CTRL_CMD_NTOKEN Null) CTRL_CMD_NTOKEN = (nw, m', ws')"
  shows "length m' = length m" and "0 < nw \<Longrightarrow> \<exists>p. ws' ! 0 = At p"
    and "nw = 2 \<Longrightarrow> \<exists>p. ws' ! 1 = At p" and "nw = 0 \<Longrightarrow> ws' = replicate CTRL_CMD_NTOKEN Null"
proof -
  have s: "length m' = length m \<and> length ws' = 3 \<and> nw \<le> 3 \<and> (\<forall>j < nw. \<exists>p. ws' ! j = At p)
     \<and> (\<forall>j \<ge> nw. j < 3 \<longrightarrow> ws' ! j = Null)"
    using split_loop_words [of 3 0 "Some 0" m "replicate 3 Null" nw m' ws'] assms
    by (simp add: split_cmd_def CTRL_CMD_NTOKEN_def)
  show "length m' = length m" "0 < nw \<Longrightarrow> \<exists>p. ws' ! 0 = At p" "nw = 2 \<Longrightarrow> \<exists>p. ws' ! 1 = At p"
    using s by auto
  show "nw = 0 \<Longrightarrow> ws' = replicate CTRL_CMD_NTOKEN Null"
    using s by (auto simp: CTRL_CMD_NTOKEN_def intro!: nth_equalityI)
qed


section \<open>Commands are total and keep the instance well formed\<close>

text \<open>The fifo runs dry at some point.\<close>

definition fifo_ends :: "os \<Rightarrow> bool" where
  "fifo_ends os \<longleftrightarrow> (\<forall>t. \<exists>u \<ge> t. \<forall>s. os_fifo os u = Fifo_data s \<longrightarrow> s = [])"

lemma flush_fifo_reaches:
  assumes "\<forall>s. os_fifo os (tick w + k) = Fifo_data s \<longrightarrow> s = []"
  shows "\<exists>r w'. flush_fifo os w = Some (r, w') \<and> reg w' = reg w \<and> trace w' = trace w
    \<and> tick w \<le> tick w'"
  using assms
proof (induction k arbitrary: w)
  case 0
  then show ?case by (subst flush_fifo.simps) (auto split: fifo_read.split)
next
  case (Suc k)
  have "\<exists>r w'. flush_fifo os (syscall w) = Some (r, w') \<and> reg w' = reg w \<and> trace w' = trace w
      \<and> Suc (tick w) \<le> tick w'"
    using Suc.IH [of "syscall w"] Suc.prems by simp
  then show ?case by (subst flush_fifo.simps) (auto split: fifo_read.split)
qed

lemma flush_fifo_total:
  assumes "fifo_ends os"
  shows "\<exists>r w'. flush_fifo os w = Some (r, w') \<and> reg w' = reg w \<and> trace w' = trace w
    \<and> tick w \<le> tick w'"
proof -
  obtain u where "u \<ge> tick w" "\<forall>s. os_fifo os u = Fifo_data s \<longrightarrow> s = []"
    using assms unfolding fifo_ends_def by blast
  then show ?thesis using flush_fifo_reaches [of os w "u - tick w"] by simp
qed

text \<open>The emitted packet carries the priority of the instance.\<close>

definition adv_sync :: "vrrp \<Rightarrow> vrrp_net \<Rightarrow> bool" where
  "adv_sync v n \<longleftrightarrow> (case adv_pkt n of None \<Rightarrow> False | Some p \<Rightarrow> h_priority p = priority v)"

lemma adv_sync_upd [simp]: "adv_sync (v\<lparr>ctrl := c\<rparr>) n = adv_sync v n"
  by (simp add: adv_sync_def split: option.split)

text \<open>
  What a command may do: change the priority together with the packet, the command
  buffer, and the flags.
\<close>

definition ctrl_effect :: "vrrp \<Rightarrow> vrrp_net \<Rightarrow> world \<Rightarrow> vrrp_event \<times> vrrp \<times> vrrp_net \<times> world \<Rightarrow> bool" where
  "ctrl_effect v n w res \<longleftrightarrow> (case res of (e, v', n', w') \<Rightarrow>
     e \<in> {INVALID, CTRL_FIFO} \<and> v' = v\<lparr>ctrl := ctrl v', priority := priority v'\<rparr> \<and> ctrl_wf (ctrl v')
     \<and> n' = n\<lparr>adv_iov := adv_iov n'\<rparr> \<and> adv_ready n' \<and> adv_sync v' n' \<and> trace w' = trace w \<and> tick w \<le> tick w'
     \<and> (e = INVALID \<longrightarrow> reg w' = reg w \<and> priority v' = priority v \<and> n' = n)
     \<and> (priority v' \<noteq> priority v \<longrightarrow> test_bit UVRRPD_RELOAD (reg w')))"

lemma set_priority_ready:
  assumes "adv_ready n"
  shows "\<exists>n'. vrrp_adv_set_priority n x = Ret n' \<and> n' = n\<lparr>adv_iov := adv_iov n'\<rparr> \<and> adv_ready n'
     \<and> adv_sync (v\<lparr>priority := x\<rparr>) n'"
proof -
  obtain h p where n: "ipx_helper n = Some h" "net_wf h n" "adv_pkt n = Some p"
      "length p = adv_getsize h n" "length (adv_iov n) = 3"
    using adv_ready_wf [OF assms] by metis
  have p8: "8 \<le> length p" using n(4) tab.size_min [of h n] by (simp add: size_defs)
  obtain c where c: "adv_checksum h n (set_h_priority x p) None None = Some c"
      "adv_checksum h n (reprio x c p) None None = Some c"
    using reprio_seals [OF n(2,4)] by blast
  have "vrrp_adv_set_priority n x = Ret (set_adv_pkt (reprio x c p) n)"
    by (simp add: vrrp_adv_set_priority_def n(1,3) Let_def c(1) reprio_def)
  moreover have "adv_ready (set_adv_pkt (reprio x c p) n)"
    using assms n(1,4) c(2) reprio_layout(2,3) [OF p8] by (simp add: adv_ready_set_adv_pkt)
  moreover have "adv_sync (v\<lparr>priority := x\<rparr>) (set_adv_pkt (reprio x c p) n)"
    using reprio_layout(1) [OF p8] n(5) by (simp add: adv_sync_def adv_pkt_set)
  ultimately show ?thesis by (auto simp: set_adv_pkt_def)
qed


definition ctrl_done ::
    "vrrp \<Rightarrow> vrrp_net \<Rightarrow> world \<Rightarrow> (vrrp_event \<times> vrrp \<times> vrrp_net \<times> world) run \<Rightarrow> bool" where
  "ctrl_done v n w x \<longleftrightarrow> (\<exists>res. x = Ret res \<and> ctrl_effect v n w res)"

lemma ctrl_done_same:
  assumes "adv_ready n" and "adv_sync v n" and "ctrl_wf c"
  shows "ctrl_done v n w (Ret (INVALID, v\<lparr>ctrl := c\<rparr>, n, w))"
    and "ctrl_done v n w (Ret (CTRL_FIFO, v\<lparr>ctrl := c\<rparr>, n, w\<lparr>reg := x\<rparr>))"
  using assms by (simp_all add: ctrl_done_def ctrl_effect_def)

lemma ctrl_done_prio:
  assumes "adv_ready n" and "ctrl_wf c"
  shows "ctrl_done v n w (bind_run (vrrp_adv_set_priority n x) (\<lambda>n1.
     Ret (CTRL_FIFO, v\<lparr>ctrl := c, priority := x\<rparr>, n1, w\<lparr>reg := set_bit UVRRPD_RELOAD (reg w)\<rparr>)))"
proof -
  have "test_bit UVRRPD_RELOAD (set_bit UVRRPD_RELOAD (reg w))"
    using reg.test_set [of UVRRPD_RELOAD UVRRPD_RELOAD] by simp
  moreover obtain n1 where "vrrp_adv_set_priority n x = Ret n1" "n1 = n\<lparr>adv_iov := adv_iov n1\<rparr>"
      "adv_ready n1" "adv_sync (v\<lparr>ctrl := c, priority := x\<rparr>) n1"
    using set_priority_ready [OF assms(1), of x "v\<lparr>ctrl := c\<rparr>"] by auto
  ultimately show ?thesis using assms(2) by (simp add: ctrl_done_def ctrl_effect_def)
qed

lemma ctrl_prio_done:
  assumes "adv_ready n" and "adv_sync v n" and "nw = 2 \<longrightarrow> (\<exists>p. ws ! 1 = At p)"
  shows "ctrl_done v n w (ctrl_prio nw m ws (v\<lparr>ctrl := c\<rparr>) n w)"
proof (cases "nw = 2")
  case True
  then obtain p where "ws ! 1 = At p" using assms(3) by blast
  then have "word_at m (ws ! 1) = Some (drop p m)" by (simp add: word_at_def)
  then show ?thesis
    using True ctrl_done_same [OF assms(1,2) flush_wf] ctrl_done_prio [OF assms(1) flush_wf]
    by (auto simp: ctrl_prio_def Let_def split: sum.split)
next
  case False
  then show ?thesis using ctrl_done_same(1) [OF assms(1,2) flush_wf] by (simp add: ctrl_prio_def)
qed

lemma vrrp_ctrl_cmd_done:
  assumes "ctrl_wf (ctrl v)" and "adv_ready n" and "adv_sync v n"
  shows "ctrl_done v n w (vrrp_ctrl_cmd v n w)"
proof -
  obtain nw m ws where sp: "split_cmd (msg (ctrl v)) (cmd (ctrl v)) CTRL_CMD_NTOKEN = (nw, m, ws)"
    by (cases "split_cmd (msg (ctrl v)) (cmd (ctrl v)) CTRL_CMD_NTOKEN")
  note words = split_cmd_words [of "msg (ctrl v)" nw m ws]
  have null: "cmd (ctrl v) = replicate CTRL_CMD_NTOKEN Null" and len: "length (msg (ctrl v)) = CTRL_MAXCHAR"
    using assms(1) by (simp_all add: ctrl_wf_def)
  show ?thesis
  proof (cases "nw = 0")
    case True
    then have "ctrl_wf ((ctrl v)\<lparr>msg := m, cmd := ws\<rparr>)"
      using words sp null len by (simp add: ctrl_wf_def)
    then show ?thesis
      using True ctrl_done_same(1) [OF assms(2,3)] by (simp add: vrrp_ctrl_cmd_def sp Let_def)
  next
    case False
    then obtain p where "ws ! 0 = At p" using words(2) sp null by auto
    then have "word_at m (ws ! 0) = Some (drop p m)" by (simp add: word_at_def)
    moreover have "nw = 2 \<longrightarrow> (\<exists>p. ws ! 1 = At p)" using words(3) sp null by simp
    ultimately show ?thesis
      using False ctrl_done_same [OF assms(2,3) flush_wf] ctrl_prio_done [OF assms(2,3)]
      by (simp add: vrrp_ctrl_cmd_def sp Let_def)
  qed
qed

lemma ctrl_effect_ticks:
  assumes "ctrl_effect (v\<lparr>ctrl := c\<rparr>) n w1 res" and "reg w1 = reg w" and "trace w1 = trace w"
    and "tick w \<le> tick w1"
  shows "ctrl_effect v n w res"
  using assms by (auto simp: ctrl_effect_def)

lemma vrrp_ctrl_read_done:
  assumes "ctrl_wf (ctrl v)" and "adv_ready n" and "adv_sync v n" and "fifo_ends os"
  shows "\<exists>res. vrrp_ctrl_read os v n w = Ret res \<and> ctrl_effect v n w res"
proof -
  have same: "ctrl_effect v n w (INVALID, v, n, syscall w)"
    using assms by (simp add: ctrl_effect_def)
  show ?thesis
  proof (cases "os_fifo os (tick w)")
    case (Fifo_data s)
    let ?d = "take CTRL_MAXCHAR s" let ?m = "(?d @ drop (length ?d) (msg (ctrl v)))[CTRL_MAXCHAR - 1 := NUL]"
    let ?v = "v\<lparr>ctrl := (ctrl v)\<lparr>msg := ?m\<rparr>\<rparr>"
    show ?thesis
    proof (cases "?d = []")
      case True
      then show ?thesis using same Fifo_data by (simp add: vrrp_ctrl_read_def Let_def)
    next
      case False
      obtain r w1 where fl: "flush_fifo os (syscall w) = Some (r, w1)" "reg w1 = reg w" "trace w1 = trace w"
          "tick w \<le> tick w1"
        using flush_fifo_total [OF assms(4), of "syscall w"] by auto
      have "ctrl_wf (ctrl ?v)" using assms(1) by (simp add: ctrl_wf_def)
      then obtain res where "vrrp_ctrl_cmd ?v n w1 = Ret res" "ctrl_effect ?v n w1 res"
        using vrrp_ctrl_cmd_done [of ?v n w1] assms(2,3) by (auto simp: ctrl_done_def)
      then show ?thesis
        using False Fifo_data fl ctrl_effect_ticks by (auto simp: vrrp_ctrl_read_def Let_def)
    qed
  qed (use same in \<open>simp_all add: vrrp_ctrl_read_def\<close>)
qed



section \<open>Splitting a message\<close>

definition is_word :: "string \<Rightarrow> bool" where
  "is_word a \<longleftrightarrow> a \<noteq> [] \<and> list_all (\<lambda>c. c \<noteq> NUL \<and> \<not> isspace c) a"

lemma isspace_NUL [simp]: "\<not> isspace NUL"
  by (simp add: isspace_def)

lemma takeWhile_stop: "list_all P a \<Longrightarrow> \<not> P c \<Longrightarrow> takeWhile P (a @ c # r) = a"
  by (induction a) simp_all

lemma split_step_word:
  assumes "is_word a" and "length pre = p" and "c = NUL \<or> isspace c"
  shows "split_step i (Some p) (pre @ a @ c # r) ws =
    ((if c = NUL then None else Some (p + length a + 1)), pre @ a @ NUL # r, ws[i := At p])"
proof -
  obtain x y where a: "a = x # y" and x: "x \<noteq> NUL" "\<not> isspace x"
    using assms(1) by (cases a) (auto simp: is_word_def)
  have skip: "skip_space (pre @ a @ c # r) p = p" using assms(2) a x by (simp add: skip_space_def)
  have "word_end (pre @ a @ c # r) p = p + length a"
    using assms takeWhile_stop [of "\<lambda>c. c \<noteq> NUL \<and> \<not> isspace c" a c r]
    by (auto simp: word_end_def is_word_def)
  moreover have "(pre @ a @ c # r) ! (p + length a) = c"
    using assms(2) by (simp add: nth_append)
  moreover have "(pre @ a @ c # r)[p + length a := NUL] = pre @ a @ NUL # r"
    using assms(2) by (simp add: list_update_append)
  moreover have "(pre @ a @ c # r) ! p \<noteq> NUL" using assms(2) a x by (simp add: nth_append)
  ultimately show ?thesis
    using assms(2) by (auto simp: split_step_def skip strsep_def Let_def)
qed

lemma split_step_blank:
  assumes "list_all isspace sp" and "length pre = p"
  shows "split_step i (Some p) (pre @ sp @ NUL # r) ws = (Some (p + length sp), pre @ sp @ NUL # r, ws)"
proof -
  have "skip_space (pre @ sp @ NUL # r) p = p + length sp"
    using assms takeWhile_stop [of isspace sp NUL r] by (simp add: skip_space_def)
  moreover have "(pre @ sp @ NUL # r) ! (p + length sp) = NUL" using assms(2) by (simp add: nth_append)
  ultimately show ?thesis by (simp add: split_step_def)
qed

text \<open>Trailing blanks and the zeroed rest of the buffer end the command.\<close>

lemma split_rest:
  assumes "list_all isspace sp" and "length pre = p" and "0 < k" and "ws ! i = Null"
  shows "split_loop (Suc j) i (Some p) (pre @ sp @ replicate k NUL) ws = (i, pre @ sp @ replicate k NUL, ws)"
  using split_step_blank [OF assms(1,2), of i "replicate (k - 1) NUL" ws] assms(3,4)
  by (cases k) simp_all

lemma split_loop_null: "ws ! i = Null \<Longrightarrow> split_loop (Suc j) i None m ws = (i, m, ws)"
  by (simp add: split_step_def)

text \<open>One word, followed by blanks.\<close>

lemma split_last:
  assumes "is_word a" and "list_all isspace sp" and "length pre = p" and "0 < k"
    and "i < length ws" and "ws ! Suc i = Null"
  shows "\<exists>r. split_loop (Suc (Suc j)) i (Some p) (pre @ a @ sp @ replicate k NUL) ws
    = (Suc i, pre @ a @ NUL # r, ws[i := At p])"
proof (cases sp)
  case Nil
  then have "split_step i (Some p) (pre @ a @ NUL # replicate (k - 1) NUL) ws
      = (None, pre @ a @ NUL # replicate (k - 1) NUL, ws[i := At p])"
    using split_step_word [OF assms(1,3), of NUL i "replicate (k - 1) NUL" ws] by simp
  moreover have "replicate k NUL = NUL # replicate (k - 1) NUL" using assms(4) by (cases k) simp_all
  ultimately show ?thesis
    using Nil assms(5,6) split_loop_null [of "ws[i := At p]" "Suc i" j] by (simp del: split_loop.simps(2) add: split_loop.simps(2) [of "Suc j"])
next
  case (Cons c sp')
  let ?m = "(pre @ a @ [NUL]) @ sp' @ replicate k NUL"
  have "c \<noteq> NUL" "isspace c" "list_all isspace sp'" using assms(2) Cons by auto
  then have "split_step i (Some p) (pre @ a @ sp @ replicate k NUL) ws
      = (Some (p + length a + 1), ?m, ws[i := At p])"
    using split_step_word [OF assms(1,3), of c i "sp' @ replicate k NUL" ws] Cons by simp
  moreover have "split_loop (Suc j) (Suc i) (Some (p + length a + 1)) ?m (ws[i := At p])
      = (Suc i, ?m, ws[i := At p])"
    using \<open>list_all isspace sp'\<close> assms by (intro split_rest) simp_all
  ultimately show ?thesis using assms(5) by (simp del: split_loop.simps(2) add: split_loop.simps(2) [of "Suc j"])
qed


lemma split_one:
  assumes "is_word a" and "list_all isspace sp" and "0 < k"
  shows "\<exists>r. split_cmd (a @ sp @ replicate k NUL) [Null, Null, Null] 3
    = (1, a @ NUL # r, [At 0, Null, Null])"
  using split_last [OF assms(1,2), of "[]" 0 k 0 "[Null, Null, Null]" 1] assms(3)
  by (simp add: split_cmd_def numeral_3_eq_3)

lemma split_two:
  assumes "is_word a" and "isspace c" and "is_word b" and "list_all isspace sp" and "0 < k"
  shows "\<exists>r. split_cmd (a @ c # b @ sp @ replicate k NUL) [Null, Null, Null] 3
    = (2, a @ NUL # b @ NUL # r, [At 0, At (length a + 1), Null])"
proof -
  let ?t = "b @ sp @ replicate k NUL"
  have "c \<noteq> NUL" using assms(2) by auto
  then have "split_step 0 (Some 0) (a @ c # ?t) [Null, Null, Null]
      = (Some (length a + 1), (a @ [NUL]) @ ?t, [At 0, Null, Null])"
    using split_step_word [OF assms(1), of "[]" 0 c 0 ?t "[Null, Null, Null]"] assms(2) by simp
  moreover obtain r where "split_loop (Suc (Suc 0)) 1 (Some (length a + 1)) ((a @ [NUL]) @ ?t) [At 0, Null, Null]
      = (Suc 1, (a @ [NUL]) @ b @ NUL # r, [At 0, Null, Null][1 := At (length a + 1)])"
    using split_last [OF assms(3,4), of "a @ [NUL]" "length a + 1" k 1 "[At 0, Null, Null]" 0] assms(5) by auto
  ultimately show ?thesis
    by (simp add: split_cmd_def numeral_3_eq_3 del: split_loop.simps(2)
        add: split_loop.simps(2) [of "Suc (Suc 0)" 0])
qed

lemma matches_word: "is_word a \<Longrightarrow> NUL \<notin> set c \<Longrightarrow> matches (a @ NUL # r) c \<longleftrightarrow> a = c"
  using matches_cstr [of a c r] by (auto simp: is_word_def list_all_iff cstr_def)

section \<open>What the commands do\<close>

text \<open>A command buffer as it is after start-up or after any command.\<close>

definition ctrl_clean :: "vrrp_ctrl \<Rightarrow> bool" where
  "ctrl_clean c \<longleftrightarrow> msg c = replicate CTRL_MAXCHAR NUL \<and> cmd c = replicate CTRL_CMD_NTOKEN Null"

lemma replicate_update: "(replicate k x)[i := x] = replicate k x"
  by (cases "i < k") (simp_all add: list_update_same_conv list_update_beyond)

lemma read_message:
  assumes "ctrl_clean (ctrl v)" and "fifo_ends os" and "os_fifo os (tick w) = Fifo_data t"
    and "t \<noteq> []" and "length t < CTRL_MAXCHAR"
  shows "\<exists>w1. reg w1 = reg w \<and> trace w1 = trace w \<and> vrrp_ctrl_read os v n w
    = vrrp_ctrl_cmd (v\<lparr>ctrl := (ctrl v)\<lparr>msg := t @ replicate (CTRL_MAXCHAR - length t) NUL\<rparr>\<rparr>) n w1"
proof -
  obtain r w1 where fl: "flush_fifo os (syscall w) = Some (r, w1)" "reg w1 = reg w" "trace w1 = trace w"
    using flush_fifo_total [OF assms(2), of "syscall w"] by auto
  have "(t @ replicate (CTRL_MAXCHAR - length t) NUL)[CTRL_MAXCHAR - 1 := NUL]
      = t @ replicate (CTRL_MAXCHAR - length t) NUL"
    using assms(5) by (auto simp: list_update_append replicate_update)
  then show ?thesis
    using assms fl by (intro exI [of _ w1]) (simp add: vrrp_ctrl_read_def Let_def ctrl_clean_def)
qed

text \<open>
  C28. The one-word commands: \<open>stop\<close> asks for the transition to the initial state and ends
  the main loop, \<open>reload\<close> only the former, \<open>state\<close> and \<open>status\<close> ask for a dump; anything else is
  refused and leaves every flag as it was.  Blanks and a newline after the word do
  not matter.
\<close>
theorem ctrl_one_word_commands:
  assumes "ctrl_clean (ctrl v)" and "fifo_ends os" and "os_fifo os (tick w) = Fifo_data (a @ sp)"
    and "is_word a" and "list_all isspace sp" and "length (a @ sp) < CTRL_MAXCHAR"
  shows "\<exists>w1. trace w1 = trace w \<and> vrrp_ctrl_read os v n w = Ret
     (if a \<in> {''stop'', ''reload'', ''state'', ''status''} then CTRL_FIFO else INVALID,
      v\<lparr>ctrl := vrrp_ctrl_cmd_flush (ctrl v)\<rparr>, n,
      w1\<lparr>reg := (if a = ''stop'' then clear_bit KEEP_GOING (set_bit UVRRPD_RELOAD (reg w))
                else if a = ''reload'' then set_bit UVRRPD_RELOAD (reg w)
                else if a \<in> {''state'', ''status''} then set_bit UVRRPD_DUMP (reg w)
                else reg w)\<rparr>)"
proof -
  let ?k = "CTRL_MAXCHAR - length (a @ sp)"
  obtain w1 where w1: "reg w1 = reg w" "trace w1 = trace w" "vrrp_ctrl_read os v n w
      = vrrp_ctrl_cmd (v\<lparr>ctrl := (ctrl v)\<lparr>msg := (a @ sp) @ replicate ?k NUL\<rparr>\<rparr>) n w1"
    using read_message [OF assms(1-3)] assms(4,6) by (auto simp: is_word_def)
  obtain r where sp: "split_cmd (a @ sp @ replicate ?k NUL) [Null, Null, Null] 3
      = (1, a @ NUL # r, [At 0, Null, Null])"
    using split_one [OF assms(4,5), of ?k] assms(6) by auto
  have "cmd (ctrl v) = [Null, Null, Null]"
    using assms(1) by (simp add: ctrl_clean_def CTRL_CMD_NTOKEN_def numeral_3_eq_3)
  moreover have "matches (a @ NUL # r) c \<longleftrightarrow> a = c" if "NUL \<notin> set c" for c
    using matches_word [OF assms(4)] that .
  moreover have "w1\<lparr>reg := reg w\<rparr> = w1" using w1(1) by simp
  moreover consider "a = ''stop''" | "a = ''reload''" | "a = ''state''" | "a = ''status''" | "a = ''prio''"
    | "a \<notin> {''stop'', ''reload'', ''state'', ''status'', ''prio''}" by auto
  then show ?thesis
    unfolding w1(3) using sp calculation w1(1,2)
    by (intro exI [of _ w1], cases) (simp_all add: vrrp_ctrl_cmd_def CTRL_CMD_NTOKEN_def word_at_def ctrl_prio_def Let_def)
qed


lemma fifo_ends_once: "fifo_ends (os\<lparr>os_fifo := (\<lambda>t. if t = k then d else Fifo_wouldblock)\<rparr>)"
  unfolding fifo_ends_def
proof
  fix t
  show "\<exists>u \<ge> t. \<forall>s. os_fifo (os\<lparr>os_fifo := (\<lambda>t. if t = k then d else Fifo_wouldblock)\<rparr>) u = Fifo_data s
      \<longrightarrow> s = []"
    by (rule exI [of _ "t + k + 1"]) simp
qed

theorem ctrl_one_word_commands_witness:
  "\<exists>w1. vrrp_ctrl_read (quiet_os\<lparr>os_fifo := (\<lambda>t. if t = 0 then Fifo_data ''stop '' else Fifo_wouldblock)\<rparr>)
      vrrp0 vnet0 world0
    = Ret (CTRL_FIFO, vrrp0\<lparr>ctrl := vrrp_ctrl_cmd_flush (ctrl vrrp0)\<rparr>, vnet0,
        w1\<lparr>reg := clear_bit KEEP_GOING (set_bit UVRRPD_RELOAD 0)\<rparr>)"
proof -
  let ?os = "quiet_os\<lparr>os_fifo := (\<lambda>t. if t = 0 then Fifo_data ''stop '' else Fifo_wouldblock)\<rparr>"
  have "fifo_ends ?os" by (rule fifo_ends_once)
  moreover have "ctrl_clean (ctrl vrrp0)"
    by (simp add: ctrl_clean_def vrrp0_def CTRL_MAXCHAR_def CTRL_CMD_NTOKEN_def numeral_3_eq_3)
  ultimately show ?thesis
    using ctrl_one_word_commands [of vrrp0 ?os world0 "''stop''" "'' ''" vnet0]
    by (auto simp: world0_def is_word_def isspace_def CTRL_MAXCHAR_def)
qed


lemma digit_char_word:
  fixes d :: nat
  assumes "d < 10"
  shows "char_of (48 + d) \<noteq> NUL"
proof -
  have "d \<in> {0, 1, 2, 3, 4, 5, 6, 7, 8, 9}" using assms by auto
  then show ?thesis by (auto simp: char_of_def)
qed

lemma nat_str_word: "is_word (nat_str k)"
proof (induction k rule: nat_str.induct)
  case (1 n)
  have digit: "char_of (48 + d) \<noteq> NUL \<and> \<not> isspace (char_of (48 + d))" if "d < 10" for d :: nat
    using digit_char_word [OF that] digit_char_plain(1) [OF that] by simp
  show ?case
  proof (cases "n < 10")
    case True
    then show ?thesis using digit [of n] by (subst nat_str.simps) (simp add: is_word_def)
  next
    case False
    then have "is_word (nat_str (n div 10))" by (rule 1)
    then show ?thesis
      using False digit [of "n mod 10"] by (subst nat_str.simps) (simp add: is_word_def)
  qed
qed

lemma word_takeWhile: "is_word b \<Longrightarrow> takeWhile (\<lambda>c. c \<noteq> NUL) (b @ NUL # r) = b"
  using takeWhile_stop [of "\<lambda>c. c \<noteq> NUL" b NUL r] by (auto simp: is_word_def list_all_iff)

text \<open>
  C27. \<open>prio\<close> followed by a decimal number: up to 255 the instance takes that priority, its
  emitted packet is rewritten with it (and still verifies), and the reload flag sends
  the state machine through its initial state; a larger number is refused and changes
  neither the priority nor the packet nor the flags.
\<close>
theorem ctrl_prio_command:
  assumes "ctrl_clean (ctrl v)" and "fifo_ends os" and "adv_ready n" and "adv_sync v n"
    and "os_fifo os (tick w) = Fifo_data (''prio '' @ nat_str k @ sp)" and "list_all isspace sp"
    and "length (''prio '' @ nat_str k @ sp) < CTRL_MAXCHAR"
  shows "\<exists>n' w1. vrrp_ctrl_read os v n w = Ret
     (if k \<le> 255
      then (CTRL_FIFO, v\<lparr>ctrl := vrrp_ctrl_cmd_flush (ctrl v), priority := of_nat k\<rparr>, n',
            w1\<lparr>reg := set_bit UVRRPD_RELOAD (reg w)\<rparr>)
      else (INVALID, v\<lparr>ctrl := vrrp_ctrl_cmd_flush (ctrl v)\<rparr>, n, w1\<lparr>reg := reg w\<rparr>))
     \<and> (k \<le> 255 \<longrightarrow> adv_ready n' \<and> adv_sync (v\<lparr>priority := of_nat k\<rparr>) n')"
proof -
  let ?t = "''prio '' @ nat_str k @ sp" let ?z = "CTRL_MAXCHAR - length ?t"
  let ?v = "v\<lparr>ctrl := (ctrl v)\<lparr>msg := ?t @ replicate ?z NUL\<rparr>\<rparr>"
  obtain w1 where w1: "reg w1 = reg w" "vrrp_ctrl_read os v n w = vrrp_ctrl_cmd ?v n w1"
    using read_message [OF assms(1,2,5)] assms(7) by auto
  obtain r where sp: "split_cmd (''prio'' @ CHR '' '' # nat_str k @ sp @ replicate ?z NUL) [Null, Null, Null] 3
      = (2, ''prio'' @ NUL # nat_str k @ NUL # r, [At 0, At 5, Null])"
    using split_two [of "''prio''" "CHR '' ''" "nat_str k" sp ?z] assms(6,7) nat_str_word
    by (auto simp: is_word_def isspace_def)
  have cmd: "cmd (ctrl v) = [Null, Null, Null]"
    using assms(1) by (simp add: ctrl_clean_def CTRL_CMD_NTOKEN_def numeral_3_eq_3)
  have m: "matches (''prio'' @ NUL # x) c \<longleftrightarrow> ''prio'' = c" if "NUL \<notin> set c" for c x
    using that by (intro matches_word) (simp_all add: is_word_def isspace_def)
  have tw: "takeWhile (\<lambda>c. c \<noteq> NUL) (nat_str k @ NUL # r) = nat_str k"
    by (rule word_takeWhile [OF nat_str_word])
  have num: "mystrtoul (nat_str k) VRRP_PRIO_MAX = (if k \<le> 255 then Inr k else Inl ERANGE)"
    unfolding VRRP_PRIO_MAX_def by (rule mystrtoul_nat_str) simp
  let ?vf = "v\<lparr>ctrl := vrrp_ctrl_cmd_flush (ctrl v)\<rparr>" and ?r = "set_bit UVRRPD_RELOAD (reg w)"
  have cmdv: "vrrp_ctrl_cmd ?v n w1 =
     (if k \<le> 255 then
        (if priority v \<noteq> of_nat k
         then bind_run (vrrp_adv_set_priority n (of_nat k)) (\<lambda>n1.
                Ret (CTRL_FIFO, ?vf\<lparr>priority := of_nat k\<rparr>, n1, w1\<lparr>reg := ?r\<rparr>))
         else Ret (CTRL_FIFO, ?vf, n, w1\<lparr>reg := ?r\<rparr>))
      else Ret (INVALID, ?vf, n, w1\<lparr>reg := reg w\<rparr>))"
    using sp m [of _ "nat_str k @ NUL # r"] cmd tw num w1(1)
    by (simp add: vrrp_ctrl_cmd_def CTRL_CMD_NTOKEN_def word_at_def ctrl_prio_def Let_def)
  obtain n1 where "vrrp_adv_set_priority n (of_nat k) = Ret n1" "adv_ready n1"
      "adv_sync (v\<lparr>priority := of_nat k\<rparr>) n1"
    using set_priority_ready [OF assms(3)] by blast
  then show ?thesis
    using cmdv w1(2) assms(3,4)
    by (cases "priority v = of_nat k") (force simp: adv_sync_def split: option.splits)+
qed

theorem ctrl_prio_command_witness:
  "\<exists>n w' n' w1. vrrp_adv_init quiet_os vnet0 vrrp0 world0 = Ret (0, n, w')
     \<and> vrrp_ctrl_read (quiet_os\<lparr>os_fifo := (\<lambda>t. if t = 0 then Fifo_data (''prio '' @ nat_str 150 @ '' '')
           else Fifo_wouldblock)\<rparr>) vrrp0 n world0
       = Ret (CTRL_FIFO, vrrp0\<lparr>ctrl := vrrp_ctrl_cmd_flush (ctrl vrrp0), priority := 150\<rparr>, n',
           w1\<lparr>reg := set_bit UVRRPD_RELOAD 0\<rparr>)"
proof -
  let ?os = "quiet_os\<lparr>os_fifo := (\<lambda>t. if t = 0 then Fifo_data (''prio '' @ nat_str 150 @ '' '')
    else Fifo_wouldblock)\<rparr>"
  have h: "ipx_helper vnet0 = Some VRRP_IP4" by (simp add: vnet0_def)
  obtain n w' p where n: "vrrp_adv_init quiet_os vnet0 vrrp0 world0 = Ret (0, n, w')" "adv_ready n"
      "adv_pkt n = Some p" "h_priority p = priority vrrp0"
    by (rule init_example [OF conf_ok_examples(1) h])
  have "adv_sync vrrp0 n" using n(3,4) by (simp add: adv_sync_def)
  moreover have "ctrl_clean (ctrl vrrp0)"
    by (simp add: ctrl_clean_def vrrp0_def CTRL_MAXCHAR_def CTRL_CMD_NTOKEN_def numeral_3_eq_3)
  moreover have "nat_str 150 = ''150''" by code_simp
  ultimately show ?thesis
    using ctrl_prio_command [of vrrp0 ?os n world0 150 "'' ''"] fifo_ends_once n(1,2)
    by (fastforce simp: world0_def isspace_def CTRL_MAXCHAR_def)
qed


section \<open>The first command\<close>


end
