(* ===== verification/Vrrp_State.thy ===== *)
theory Vrrp_State
  imports Vrrp_Timer Vrrp_Exec Vrrp_Ctrl
begin

text \<open>
  The state machine: \<^verbatim>\<open>vrrp.c\<close> (initial values, waiting for an event, the dispatch),
  \<^verbatim>\<open>vrrp_state.c\<close> (the handlers of the three states) and the signal handler of
  \<^verbatim>\<open>uvrrpd.c\<close>, which runs only while \<open>pselect\<close> waits, because the signals are blocked at
  every other moment (but SIGCHLD, SIGALRM and SIGPIPE, of which only the last changes the register, in
  a flag nothing reads).
\<close>

section \<open>Signals (\<open>uvrrpd.c\<close>)\<close>

definition SIGHUP :: int where "SIGHUP = 1"
definition SIGINT :: int where "SIGINT = 2"
definition SIGQUIT :: int where "SIGQUIT = 3"
definition SIGUSR1 :: int where "SIGUSR1 = 10"
definition SIGUSR2 :: int where "SIGUSR2 = 12"
definition SIGPIPE :: int where "SIGPIPE = 13"
definition SIGTERM :: int where "SIGTERM = 15"
definition SIGCHLD :: int where "SIGCHLD = 17"

lemmas signal_defs = SIGHUP_def SIGINT_def SIGQUIT_def SIGUSR1_def SIGUSR2_def SIGPIPE_def
  SIGTERM_def SIGCHLD_def

definition signal_handler :: "int \<Rightarrow> u64 \<Rightarrow> u64" where
  "signal_handler sig r =
     (if sig = SIGHUP then set_bit UVRRPD_RELOAD r
      else if sig = SIGUSR1 \<or> sig = SIGUSR2 then set_bit UVRRPD_DUMP r
      else if sig = SIGPIPE then set_bit UVRRPD_LOGOUT r
      else if sig = SIGINT \<or> sig = SIGTERM \<or> sig = SIGQUIT
      then clear_bit KEEP_GOING (set_bit UVRRPD_RELOAD r)
      else r)"

section \<open>Initial values and dump (\<open>vrrp.c\<close>)\<close>

definition vrrp_init :: "vrrp \<Rightarrow> vrrp" where
  "vrrp_init v = v\<lparr>version := RFC3768, vrid := 0, priority := PRIO_DFL, naddr := 0,
     auth_type := NOAUTH, auth_data := None, state := INIT, preempt := True,
     scriptname := None, argv := None, adv_int := 0, start_delay := 0, master_adv_int := 0,
     adv_timer := clear_member (adv_timer v), masterdown_timer := clear_member (masterdown_timer v)\<rparr>"

definition vrrp_context :: "vrrp \<Rightarrow> world \<Rightarrow> world" where
  "vrrp_context v w = foldl (\<lambda>w s. emit (Notice s) w) w
     ([''===================='',
       ''VRID          '' @ nat_str (unat (vrid v)),
       ''current_state '' @ STR_STATE (state v),
       ''priority      '' @ nat_str (unat (priority v)),
       ''adv_int       '' @ nat_str (unat (adv_int v))]
      @ (if version v = RFC5798 then [''master_adv_int      '' @ nat_str (unat (master_adv_int v))] else [])
      @ [''preempt       '' @ STR_PREEMPT (preempt v),
         ''naddr         '' @ nat_str (unat (naddr v)),
         ''====================''])"

section \<open>Waiting for an event (\<open>vrrp_listen\<close>)\<close>

datatype which_timer = Adv_timer | Masterdown_timer

definition get_timer :: "which_timer \<Rightarrow> vrrp \<Rightarrow> vrrp_timer" where
  "get_timer t v = (case t of Adv_timer \<Rightarrow> adv_timer v | Masterdown_timer \<Rightarrow> masterdown_timer v)"

definition put_timer :: "which_timer \<Rightarrow> vrrp_timer \<Rightarrow> vrrp \<Rightarrow> vrrp" where
  "put_timer t x v =
     (case t of Adv_timer \<Rightarrow> v\<lparr>adv_timer := x\<rparr> | Masterdown_timer \<Rightarrow> v\<lparr>masterdown_timer := x\<rparr>)"

definition running_timer :: "vrrp \<Rightarrow> which_timer option" where
  "running_timer v =
     (if vrrp_timer_is_running (adv_timer v) then Some Adv_timer
      else if vrrp_timer_is_running (masterdown_timer v) then Some Masterdown_timer
      else None)"

definition vrrp_listen ::
    "os \<Rightarrow> vrrp \<Rightarrow> vrrp_net \<Rightarrow> world \<Rightarrow> (vrrp_event \<times> vrrp \<times> vrrp_net \<times> world) run" where
  "vrrp_listen os v n w =
     (case running_timer v of
        None \<Rightarrow> Exit
      | Some vt \<Rightarrow>
          (case vrrp_timer_update os (get_timer vt v) w of (r, t1, w1) \<Rightarrow>
             (let v1 = put_timer vt t1 v in
              if r \<noteq> 0 then Ret (TIMER, v1, n, w1)
              else let w2 = syscall w1 in
                case os_pselect os (tick w1) of
                  Sel_ready sockr ctrlr \<Rightarrow>
                    (case vrrp_timer_is_expired os t1 w2 of (expired, t2, w3) \<Rightarrow>
                       (let v2 = put_timer vt t2 v1 in
                        if expired then Ret (TIMER, v2, n, w3)
                        else if sockr
                        then bind_run (vrrp_net_recv os n v2 w3) (\<lambda>(e, n', w'). Ret (e, v2, n', w'))
                        else if ctrlr then vrrp_ctrl_read os v2 n w3
                        else Ret (INVALID, v2, n, w3)))
                | Sel_signals sigs \<Rightarrow>
                    Ret (SIGNAL, v1, n, w2\<lparr>reg := fold signal_handler sigs (reg w2)\<rparr>)
                | Sel_error \<Rightarrow> Ret (INVALID, v1, n, w2))))"

section \<open>Transitions (\<open>vrrp_state.c\<close>)\<close>

definition vrrp_state_goto_master ::
    "os \<Rightarrow> vrrp \<Rightarrow> vrrp_net \<Rightarrow> world \<Rightarrow> (vrrp \<times> vrrp_net \<times> world) run" where
  "vrrp_state_goto_master os v n w =
     (let v1 = v\<lparr>state := MASTER\<rparr> in
      bind_run (vrrp_adv_send os n w) (\<lambda>(r1, w1).
      bind_run (if family n = AF_INET then vrrp_arp_send os n w1
                else if family n = AF_INET6 then vrrp_na_send os n w1 else Ret (0, w1)) (\<lambda>(r2, w2).
      bind_run (vrrp_exec os v1 n (state v1) w2) (\<lambda>(r3, v2, w3).
        case VRRP_SET_ADV_TIMER os (v2\<lparr>masterdown_timer := clear_member (masterdown_timer v2)\<rparr>) w3 of
          (v3, w4) \<Rightarrow> Ret (v3, n, w4)))))"

definition vrrp_state_goto_backup ::
    "os \<Rightarrow> vrrp \<Rightarrow> vrrp_net \<Rightarrow> world \<Rightarrow> (vrrp \<times> vrrp_net \<times> world) run" where
  "vrrp_state_goto_backup os v n w =
     (let previous_state = state v; v1 = v\<lparr>state := BACKUP\<rparr> in
      bind_run (if previous_state \<noteq> INIT then vrrp_exec os v1 n (state v1) w else Ret (0, v1, w))
        (\<lambda>(r, v2, w2).
           let v3 = (if version v2 = RFC5798 then
                       (if previous_state = INIT then v2\<lparr>master_adv_int := adv_int v2\<rparr>
                        else if previous_state = MASTER
                        then v2\<lparr>master_adv_int := vrrp_adv_get_advint n\<rparr> else v2)
                     else v2);
               v4 = v3\<lparr>adv_timer := clear_member (adv_timer v3)\<rparr>;
               (v5, w5) = (if previous_state = INIT \<and> start_delay v4 \<noteq> 0
                           then VRRP_SET_STARTDELAY_TIMER os v4 w2
                           else VRRP_SET_MASTERDOWN_TIMER os v4 w2)
           in Ret (v5, n, w5)))"

definition vrrp_state_init ::
    "os \<Rightarrow> vrrp \<Rightarrow> vrrp_net \<Rightarrow> world \<Rightarrow> (vrrp \<times> vrrp_net \<times> world) run" where
  "vrrp_state_init os v n w =
     bind_run (vrrp_exec os v n INIT w) (\<lambda>(r, v1, w1).
       let v2 = v1\<lparr>master_adv_int := adv_int v1\<rparr> in
       if priority v2 = 255 then vrrp_state_goto_master os v2 n w1
       else vrrp_state_goto_backup os v2 n w1)"

definition backup_pkt ::
    "os \<Rightarrow> vrrp \<Rightarrow> vrrp_net \<Rightarrow> world \<Rightarrow> (vrrp \<times> vrrp_net \<times> world) run" where
  "backup_pkt os v n w =
     (if vrrp_adv_get_version n = 0 then Ret (v, n, w)
      else if vrrp_adv_get_priority n = 0
      then (case VRRP_SET_SKEW_TIME os v w of (v1, w1) \<Rightarrow> Ret (v1, n, w1))
      else if \<not> preempt v \<or> vrrp_adv_get_priority n \<ge> uint (priority v)
      then (let v1 = (if version v = RFC5798 then v\<lparr>master_adv_int := vrrp_adv_get_advint n\<rparr> else v)
            in case VRRP_SET_MASTERDOWN_TIMER os v1 w of (v2, w2) \<Rightarrow> Ret (v2, n, w2))
      else Ret (v, n, w))"

definition backup_ctrl :: "vrrp \<Rightarrow> vrrp_net \<Rightarrow> world \<Rightarrow> (vrrp \<times> vrrp_net \<times> world) run" where
  "backup_ctrl v n w =
     (case test_and_clear_bit UVRRPD_RELOAD (reg w) of (was, r) \<Rightarrow>
        (let w1 = w\<lparr>reg := r\<rparr> in
         if was then Ret (v\<lparr>masterdown_timer := clear_member (masterdown_timer v), state := INIT\<rparr>, n, w1)
         else Ret (v, n, w1)))"

text \<open>In the invalid case only the source address is printed, through the table.\<close>

definition vrrp_state_backup ::
    "os \<Rightarrow> vrrp \<Rightarrow> vrrp_net \<Rightarrow> world \<Rightarrow> (vrrp_event \<times> vrrp \<times> vrrp_net \<times> world) run" where
  "vrrp_state_backup os v n w =
     bind_run (vrrp_listen os v n w) (\<lambda>(event, v1, n1, w1).
       bind_run (case event of
           TIMER \<Rightarrow> vrrp_state_goto_master os v1 n1 w1
         | PKT \<Rightarrow> backup_pkt os v1 n1 w1
         | SIGNAL \<Rightarrow> backup_ctrl v1 n1 w1
         | CTRL_FIFO \<Rightarrow> backup_ctrl v1 n1 w1
         | VRID_MISMATCH \<Rightarrow> Ret (v1, n1, w1)
         | INVALID \<Rightarrow> bind_run (vrrp_adv_addr_to_str os n1) (\<lambda>_. Ret (v1, n1, w1)))
         (\<lambda>(v2, n2, w2). Ret (event, v2, n2, w2)))"

definition master_advertise ::
    "os \<Rightarrow> vrrp \<Rightarrow> vrrp_net \<Rightarrow> world \<Rightarrow> (vrrp \<times> vrrp_net \<times> world) run" where
  "master_advertise os v n w =
     bind_run (vrrp_adv_send os n w) (\<lambda>(r, w1).
       case VRRP_SET_ADV_TIMER os v w1 of (v1, w2) \<Rightarrow> Ret (v1, n, w2))"

definition master_pkt ::
    "os \<Rightarrow> vrrp \<Rightarrow> vrrp_net \<Rightarrow> world \<Rightarrow> (vrrp \<times> vrrp_net \<times> world) run" where
  "master_pkt os v n w =
     (if vrrp_adv_get_version n = 0 then Ret (v, n, w)
      else if vrrp_adv_get_priority n = 0 then master_advertise os v n w
      else if vrrp_adv_get_priority n > uint (priority v) then vrrp_state_goto_backup os v n w
      else if vrrp_adv_get_priority n = uint (priority v)
      then bind_run (vrrp_adv_addr_cmp n) (\<lambda>c.
             if c > 0 then vrrp_state_goto_backup os v n w else Ret (v, n, w))
      else Ret (v, n, w))"

definition master_ctrl ::
    "os \<Rightarrow> vrrp \<Rightarrow> vrrp_net \<Rightarrow> world \<Rightarrow> (vrrp \<times> vrrp_net \<times> world) run" where
  "master_ctrl os v n w =
     (case test_and_clear_bit UVRRPD_RELOAD (reg w) of (was, r) \<Rightarrow>
        (let w1 = w\<lparr>reg := r\<rparr> in
         if was then
           (let v1 = v\<lparr>adv_timer := clear_member (adv_timer v)\<rparr> in
            bind_run (vrrp_adv_send_zero os n w1) (\<lambda>(s, n1, w2).
            bind_run (vrrp_exec os v1 n1 BACKUP w2) (\<lambda>(s', v2, w3).
              Ret (v2\<lparr>state := INIT\<rparr>, n1, w3))))
         else Ret (v, n, w1)))"

definition vrrp_state_master ::
    "os \<Rightarrow> vrrp \<Rightarrow> vrrp_net \<Rightarrow> world \<Rightarrow> (vrrp_event \<times> vrrp \<times> vrrp_net \<times> world) run" where
  "vrrp_state_master os v n w =
     bind_run (vrrp_listen os v n w) (\<lambda>(event, v1, n1, w1).
       bind_run (case event of
           TIMER \<Rightarrow> master_advertise os v1 n1 w1
         | PKT \<Rightarrow> master_pkt os v1 n1 w1
         | SIGNAL \<Rightarrow> master_ctrl os v1 n1 w1
         | CTRL_FIFO \<Rightarrow> master_ctrl os v1 n1 w1
         | VRID_MISMATCH \<Rightarrow> Ret (v1, n1, w1)
         | INVALID \<Rightarrow> Ret (v1, n1, w1))
         (\<lambda>(v2, n2, w2). Ret (event, v2, n2, w2)))"

section \<open>Dispatch (\<open>vrrp_process\<close>)\<close>

text \<open>
  The three enumerators are all there is, so the error branch for an invalid state is not
  reachable and the result is always 0.
\<close>

definition vrrp_process ::
    "os \<Rightarrow> vrrp \<Rightarrow> vrrp_net \<Rightarrow> world \<Rightarrow> (int \<times> vrrp \<times> vrrp_net \<times> world) run" where
  "vrrp_process os v n w =
     bind_run (case state v of
         INIT \<Rightarrow> vrrp_state_init os v n w
       | BACKUP \<Rightarrow> bind_run (vrrp_state_backup os v n w) (\<lambda>(e, r). Ret r)
       | MASTER \<Rightarrow> bind_run (vrrp_state_master os v n w) (\<lambda>(e, r). Ret r))
       (\<lambda>(v1, n1, w1).
          case test_and_clear_bit UVRRPD_DUMP (reg w1) of (was, r) \<Rightarrow>
            Ret (0, v1, n1, (if was then vrrp_context v1 (w1\<lparr>reg := r\<rparr>) else w1\<lparr>reg := r\<rparr>)))"

definition vrrp_cleanup :: "vrrp \<Rightarrow> vrrp" where
  "vrrp_cleanup v = v\<lparr>scriptname := None, auth_data := None\<rparr>"

section \<open>The instance is well formed\<close>

text \<open>
  What the set-up in \<open>main\<close> establishes and the handlers rely on: the buffers of the
  emitted packets are allocated and sealed, the packet carries the current priority,
  the command buffer is empty, the argument vector exists.
\<close>

definition inst_wf :: "vrrp \<Rightarrow> vrrp_net \<Rightarrow> bool" where
  "inst_wf v n \<longleftrightarrow> net_ready n v \<and> adv_ready n \<and> adv_sync v n \<and> ctrl_wf (ctrl v) \<and> exec_ready v n
     \<and> list_all topo_ready (vip_list n) \<and> (version v = 2 \<or> version v = 3)
     \<and> (family n = AF_INET \<or> family n = AF_INET6)"

text \<open>In each state exactly the timer of that state runs, and none in the initial state.\<close>

definition timers_ok :: "vrrp \<Rightarrow> bool" where
  "timers_ok v \<longleftrightarrow> (vrrp_timer_is_running (adv_timer v) \<longleftrightarrow> state v = MASTER)
     \<and> (vrrp_timer_is_running (masterdown_timer v) \<longleftrightarrow> state v = BACKUP)"

text \<open>
  The environment: the clock can be read, forks succeed and children end, the control
  fifo runs dry, and \<open>recvmsg\<close> fills in addresses.
\<close>

definition os_ok :: "os \<Rightarrow> bool" where
  "os_ok os \<longleftrightarrow> clock_ok os \<and> fork_ok os \<and> wait_ends os \<and> fifo_ends os \<and> os_recv_ok os"

lemma os_okD:
  assumes "os_ok os"
  shows "clock_ok os" "fork_ok os" "wait_ends os" "fifo_ends os" "os_recv_ok os"
  using assms by (simp_all add: os_ok_def)

lemma net_ready_cong:
  assumes "pkt_wf (pkt n')" and "ipx_helper n' = ipx_helper n" and "vif n' = vif n"
    and "adv_ready n'" and "net_ready n v" and "auth_type v' = auth_type v" and "auth_data v' = auth_data v"
  shows "net_ready n' v'"
proof -
  obtain h where "ipx_helper n' = Some h" "net_wf h n'" using assms(4) by (rule adv_ready_wf)
  then show ?thesis using assms by (simp add: net_ready_def)
qed

lemma adv_sync_alt: "adv_sync v n \<longleftrightarrow> map_option h_priority (adv_pkt n) = Some (priority v)"
  by (auto simp: adv_sync_def split: option.split)

lemma adv_ready_pkt [simp]: "adv_ready (n\<lparr>pkt := r\<rparr>) = adv_ready n"
  by (simp add: adv_ready_def adv_pkt_def cong: option.case_cong)

text \<open>Updates that keep the instance well formed.\<close>

lemma inst_wf_upd [simp]:
  "inst_wf (v\<lparr>state := s\<rparr>) n = inst_wf v n"
  "inst_wf (v\<lparr>adv_timer := t\<rparr>) n = inst_wf v n"
  "inst_wf (v\<lparr>masterdown_timer := t\<rparr>) n = inst_wf v n"
  "inst_wf (v\<lparr>master_adv_int := i\<rparr>) n = inst_wf v n"
  by (simp_all add: inst_wf_def net_ready_def adv_sync_alt exec_ready_def)

lemma inst_wf_argv [simp]: "inst_wf v n \<Longrightarrow> inst_wf (v\<lparr>argv := Some av\<rparr>) n"
  by (simp add: inst_wf_def net_ready_def adv_sync_alt exec_ready_def)

lemma inst_wf_pkt: "inst_wf v n \<Longrightarrow> pkt_wf r \<Longrightarrow> inst_wf v (n\<lparr>pkt := r\<rparr>)"
  by (simp add: inst_wf_def net_ready_def adv_sync_alt exec_ready_def adv_pkt_def
      cong: option.case_cong)

lemma inst_wf_ctrl:
  assumes "inst_wf v n" and "v' = v\<lparr>ctrl := c, priority := p\<rparr>" and "ctrl_wf c"
    and "n' = n\<lparr>adv_iov := iov\<rparr>" and "adv_ready n'" and "adv_sync v' n'"
  shows "inst_wf v' n'"
  using assms net_ready_cong [of n' n v v'] by (simp add: inst_wf_def exec_ready_def net_ready_def)

lemma inst_wfE:
  assumes "inst_wf v n"
  obtains nm h p where "ifname (vif n) = Some nm" "ipx_helper n = Some h" "adv_pkt n = Some p"
    "adv_ready n" "h_priority p = priority v"
  using assms by (auto simp: inst_wf_def exec_ready_def adv_sync_def split: option.splits)

section \<open>Setting a timer\<close>

text \<open>Intervals are in centiseconds in VRRPv3 and in seconds in VRRPv2.\<close>

definition now_at :: "os \<Rightarrow> world \<Rightarrow> timespec" where
  "now_at os w = (case os_clock os (tick w) of None \<Rightarrow> timespec_zero | Some t \<Rightarrow> t)"

definition time_unit :: "vrrp \<Rightarrow> int" where
  "time_unit v = (if version v = 3 then CENTUL else NANOUL)"

definition ADV_INT :: "vrrp \<Rightarrow> int" where
  "ADV_INT v = (if version v = 3 then uint (master_adv_int v) else uint (adv_int v))"

definition armed :: "vrrp \<Rightarrow> timespec \<Rightarrow> int \<Rightarrow> vrrp_timer" where
  "armed v now x =
     \<lparr>ts = \<lparr>tv_sec = tv_sec now + (if version v = 3 then 0 else x),
            tv_nsec = tv_nsec now + (if version v = 3 then x else 0) * CENTUL\<rparr>, delta = timespec_zero\<rparr>"

lemma armed_deadline: "nanos (ts (armed v now x)) = nanos now + x * time_unit v"
  by (simp add: armed_def nanos_def time_unit_def algebra_simps)

lemma armed_cong: "version v' = version v \<Longrightarrow> armed v' = armed v"
  by (intro ext) (simp add: armed_def)

lemma armed_running: "clock_reading now \<Longrightarrow> 0 \<le> x \<Longrightarrow> vrrp_timer_is_running (armed v now x)"
  by (auto simp: armed_def vrrp_timer_is_running_def clock_reading_def)

lemma now_at_reading: "clock_ok os \<Longrightarrow> clock_reading (now_at os w)"
  by (auto simp: now_at_def elim: clock_okE [of os "tick w"])

lemma set_timers:
  assumes "clock_ok os"
  shows "VRRP_SET_ADV_TIMER os v w = (v\<lparr>adv_timer := armed v (now_at os w) (ADV_INT v)\<rparr>, syscall w)"
    and "VRRP_SET_MASTERDOWN_TIMER os v w
      = (v\<lparr>masterdown_timer := armed v (now_at os w) (MASTERDOWN_INT v)\<rparr>, syscall w)"
    and "VRRP_SET_SKEW_TIME os v w
      = (v\<lparr>masterdown_timer := armed v (now_at os w) (SKEW_TIME v)\<rparr>, syscall w)"
    and "VRRP_SET_STARTDELAY_TIMER os v w
      = (v\<lparr>masterdown_timer := armed v (now_at os w) (uint (start_delay v))\<rparr>, syscall w)"
proof -
  obtain t where "os_clock os (tick w) = Some t" using assms by (rule clock_okE)
  then show "VRRP_SET_ADV_TIMER os v w = (v\<lparr>adv_timer := armed v (now_at os w) (ADV_INT v)\<rparr>, syscall w)"
    and "VRRP_SET_MASTERDOWN_TIMER os v w
      = (v\<lparr>masterdown_timer := armed v (now_at os w) (MASTERDOWN_INT v)\<rparr>, syscall w)"
    and "VRRP_SET_SKEW_TIME os v w
      = (v\<lparr>masterdown_timer := armed v (now_at os w) (SKEW_TIME v)\<rparr>, syscall w)"
    and "VRRP_SET_STARTDELAY_TIMER os v w
      = (v\<lparr>masterdown_timer := armed v (now_at os w) (uint (start_delay v))\<rparr>, syscall w)"
    by (simp_all add: VRRP_SET_ADV_TIMER_def VRRP_SET_MASTERDOWN_TIMER_def VRRP_SET_SKEW_TIME_def
        VRRP_SET_STARTDELAY_TIMER_def vrrp_timer_set_def clock_gettime_def armed_def now_at_def ADV_INT_def)
qed

lemma intervals_nonneg [simp]: "0 \<le> ADV_INT v" "0 \<le> SKEW_TIME v" "0 \<le> MASTERDOWN_INT v"
proof -
  have "uint (priority v) < 256" using uint_bounded [of "priority v"] by simp
  then show "0 \<le> SKEW_TIME v" by (simp add: SKEW_TIME_def pos_imp_zdiv_nonneg_iff)
  then show "0 \<le> MASTERDOWN_INT v" by (simp add: MASTERDOWN_INT_def)
  show "0 \<le> ADV_INT v" by (simp add: ADV_INT_def)
qed

section \<open>The transitions\<close>

text \<open>
  What a transition may add to the trace: the frames \<open>fs\<close> (all of them when the link
  works), then at most one run of the hook, announcing state \<open>st\<close>.
\<close>

definition sends_then_hook ::
    "os \<Rightarrow> bytes list \<Rightarrow> vrrp_state \<Rightarrow> out_event list \<Rightarrow> bool" where
  "sends_then_hook os fs st es \<longleftrightarrow> (\<exists>ss xs. es = map Sent ss @ xs
     \<and> set ss \<subseteq> set fs \<and> (link_up os \<longrightarrow> ss = fs)
     \<and> (xs = [] \<or> (\<exists>sc av. xs = [Exec sc av] \<and> 1 < length av \<and> av ! 1 = STR_STATE st)))"

definition master_frames :: "vrrp_net \<Rightarrow> bytes list" where
  "master_frames n = adv_frame n # map topo_frame (rev (vip_list n))"

lemma transmit_sent:
  obtains r w' ss where "transmit os nm f w = (r, w')" "reg w' = reg w"
    "trace w' = trace w @ map Sent ss" "tick w \<le> tick w'" "set ss \<subseteq> {f}" "link_up os \<longrightarrow> ss = [f]"
proof -
  obtain r w' where t: "transmit os nm f w = (r, w')" by fastforce
  then show ?thesis
    by (intro that [of r w' "if r = 0 then [f] else []"])
      (auto simp: transmit_def link_up_def split: if_splits)
qed

lemma topo_send_sent:
  assumes "ifname (vif n) = Some nm" and "list_all topo_ready vs"
  obtains w' ss where "topo_send os n vs w = Ret w'" "reg w' = reg w"
    "trace w' = trace w @ map Sent ss" "tick w \<le> tick w'" "set ss \<subseteq> topo_frame ` set vs"
    "link_up os \<longrightarrow> ss = map topo_frame vs"
proof (cases "link_up os")
  case True
  then show ?thesis using topo_send_up [OF True assms, of w] that [of _ "map topo_frame vs"] by auto
next
  case False
  then show ?thesis using topo_send_total [OF assms, of os w] that by blast
qed

text \<open>Announcing the addresses: gratuitous ARP or neighbour advertisements.\<close>

lemma announce_sent:
  assumes "ifname (vif n) = Some nm" and "list_all topo_ready (vip_list n)"
    and "family n = AF_INET \<or> family n = AF_INET6"
  obtains r w' ss where "(if family n = AF_INET then vrrp_arp_send os n w
       else if family n = AF_INET6 then vrrp_na_send os n w else Ret (0, w)) = Ret (r, w')"
    "reg w' = reg w" "trace w' = trace w @ map Sent ss" "tick w \<le> tick w'" "set ss \<subseteq> topo_frame ` set (vip_list n)"
    "link_up os \<longrightarrow> ss = map topo_frame (rev (vip_list n))"
proof -
  obtain w' ss where s: "topo_send os n (rev (vip_list n)) w = Ret w'" "reg w' = reg w"
    "trace w' = trace w @ map Sent ss" "tick w \<le> tick w'" "set ss \<subseteq> topo_frame ` set (vip_list n)"
    "link_up os \<longrightarrow> ss = map topo_frame (rev (vip_list n))"
    using topo_send_sent [OF assms(1), of "rev (vip_list n)" os w] assms(2)
    by (metis list_all_rev set_rev)
  show ?thesis
    by (rule that [of 0 w' ss]) (use s assms(3) in \<open>auto simp: vrrp_arp_send_def vrrp_na_send_def\<close>)
qed

lemma vrrp_exec_effect:
  assumes "inst_wf v n" and "os_ok os"
  obtains r av w' xs where "vrrp_exec os (v\<lparr>state := s\<rparr>) n st w = Ret (r, v\<lparr>state := s, argv := Some av\<rparr>, w')"
    "reg w' = reg w" "trace w' = trace w @ xs" "tick w \<le> tick w'"
    "xs = [] \<or> (\<exists>sc av. xs = [Exec sc av] \<and> 1 < length av \<and> av ! 1 = STR_STATE st)"
proof -
  have "exec_ready (v\<lparr>state := s\<rparr>) n" using assms(1) by (simp add: inst_wf_def exec_ready_def)
  then obtain r av w' xs where "vrrp_exec os (v\<lparr>state := s\<rparr>) n st w
        = Ret (r, (v\<lparr>state := s\<rparr>)\<lparr>argv := Some av\<rparr>, w')" "reg w' = reg w" "trace w' = trace w @ xs" "tick w \<le> tick w'"
      "xs = [] \<or> (\<exists>sc. xs = [Exec sc av] \<and> 1 < length av \<and> av ! 1 = STR_STATE st)"
    using vrrp_exec_total os_okD(2,3) [OF assms(2)] by metis
  then show ?thesis by (intro that [of r av w' xs]) blast+
qed

text \<open>
  Becoming master: the advertisement, one announcement per address and the hook, in this
  order; the advertisement timer is armed and the other one cleared.
\<close>

lemma goto_master_effect:
  assumes "inst_wf v n" and "os_ok os"
  obtains av w1 es where
    "vrrp_state_goto_master os v n w = Ret (v\<lparr>state := MASTER, argv := Some av,
        masterdown_timer := clear_member (masterdown_timer v),
        adv_timer := armed v (now_at os w1) (ADV_INT v)\<rparr>, n, syscall w1)"
    "reg w1 = reg w" "trace w1 = trace w @ es" "tick w \<le> tick w1"
    "sends_then_hook os (master_frames n) MASTER es"
proof -
  obtain nm where nm: "ifname (vif n) = Some nm" using assms(1) by (rule inst_wfE)
  have rdy: "adv_ready n" "list_all topo_ready (vip_list n)" "family n = AF_INET \<or> family n = AF_INET6"
    using assms(1) by (simp_all add: inst_wf_def)
  obtain r1 w1 s1 where 1: "transmit os nm (adv_frame n) w = (r1, w1)" "reg w1 = reg w"
      "trace w1 = trace w @ map Sent s1" "tick w \<le> tick w1" "set s1 \<subseteq> {adv_frame n}" "link_up os \<longrightarrow> s1 = [adv_frame n]"
    by (rule transmit_sent)
  have snd: "vrrp_adv_send os n w = Ret (r1, w1)"
    using vrrp_adv_send_ready [OF rdy(1) nm] 1(1) by simp
  obtain r2 w2 s2 where 2: "(if family n = AF_INET then vrrp_arp_send os n w1
       else if family n = AF_INET6 then vrrp_na_send os n w1 else Ret (0, w1)) = Ret (r2, w2)"
    "reg w2 = reg w1" "trace w2 = trace w1 @ map Sent s2" "tick w1 \<le> tick w2" "set s2 \<subseteq> topo_frame ` set (vip_list n)"
    "link_up os \<longrightarrow> s2 = map topo_frame (rev (vip_list n))"
    using announce_sent [OF nm rdy(2,3)] .
  obtain r3 av w3 xs where 3: "vrrp_exec os (v\<lparr>state := MASTER\<rparr>) n MASTER w2
        = Ret (r3, v\<lparr>state := MASTER, argv := Some av\<rparr>, w3)"
    "reg w3 = reg w2" "trace w3 = trace w2 @ xs" "tick w2 \<le> tick w3"
    "xs = [] \<or> (\<exists>sc av. xs = [Exec sc av] \<and> 1 < length av \<and> av ! 1 = STR_STATE MASTER)"
    using vrrp_exec_effect [OF assms] .
  let ?v = "v\<lparr>state := MASTER, argv := Some av, masterdown_timer := clear_member (masterdown_timer v)\<rparr>"
  have "armed ?v = armed v" "ADV_INT ?v = ADV_INT v"
    by (rule armed_cong) (simp_all add: ADV_INT_def)
  then have "vrrp_state_goto_master os v n w
      = Ret (?v\<lparr>adv_timer := armed v (now_at os w3) (ADV_INT v)\<rparr>, n, syscall w3)"
    using 2(1) 3(1) set_timers(1) [OF os_okD(1) [OF assms(2)], of ?v w3]
    by (simp add: vrrp_state_goto_master_def snd Let_def)
  moreover have "sends_then_hook os (master_frames n) MASTER (map Sent (s1 @ s2) @ xs)"
    unfolding sends_then_hook_def master_frames_def
    using 1(5,6) 2(5,6) 3(5) by (intro exI [of _ "s1 @ s2"] exI [of _ xs]) auto
  moreover have "tick w \<le> tick w3" using 1(4) 2(4) 3(4) by linarith
  ultimately show ?thesis using 1(2,3) 2(2,3) 3(2,3) by (intro that) simp_all
qed

text \<open>
  Becoming backup: the hook runs unless the instance starts; the master-down timer is
  armed for the start delay, or for three intervals and the skew time.
\<close>

definition backup_mint :: "vrrp \<Rightarrow> vrrp_net \<Rightarrow> u16" where
  "backup_mint v n =
     (if version v = 3 \<and> state v = INIT then adv_int v
      else if version v = 3 \<and> state v = MASTER then vrrp_adv_get_advint n
      else master_adv_int v)"

definition backup_wait :: "vrrp \<Rightarrow> vrrp_net \<Rightarrow> int" where
  "backup_wait v n = (if state v = INIT \<and> start_delay v \<noteq> 0 then uint (start_delay v)
     else MASTERDOWN_INT (v\<lparr>master_adv_int := backup_mint v n\<rparr>))"

lemma goto_backup_effect:
  assumes "inst_wf v n" and "os_ok os"
  obtains av w1 es where
    "vrrp_state_goto_backup os v n w = Ret (v\<lparr>state := BACKUP, argv := Some av,
        master_adv_int := backup_mint v n, adv_timer := clear_member (adv_timer v),
        masterdown_timer := armed v (now_at os w1) (backup_wait v n)\<rparr>, n, syscall w1)"
    "reg w1 = reg w" "trace w1 = trace w @ es" "tick w \<le> tick w1" "sends_then_hook os [] BACKUP es"
    "state v = INIT \<longrightarrow> es = []"
proof -
  obtain av0 where av0: "argv v = Some av0" using assms(1) by (auto simp: inst_wf_def exec_ready_def)
  obtain r av w1 es where 1: "(if state v \<noteq> INIT then vrrp_exec os (v\<lparr>state := BACKUP\<rparr>) n BACKUP w
        else Ret (0, v\<lparr>state := BACKUP\<rparr>, w)) = Ret (r, v\<lparr>state := BACKUP, argv := Some av\<rparr>, w1)"
    "reg w1 = reg w" "trace w1 = trace w @ es" "tick w \<le> tick w1"
    "es = [] \<or> (\<exists>sc av. es = [Exec sc av] \<and> 1 < length av \<and> av ! 1 = STR_STATE BACKUP)"
    "state v = INIT \<longrightarrow> es = []"
  proof (cases "state v = INIT")
    case True
    then show ?thesis using av0 by (intro that [of 0 av0 w "[]"]) simp_all
  next
    case False
    obtain r av w1 xs where "vrrp_exec os (v\<lparr>state := BACKUP\<rparr>) n BACKUP w
          = Ret (r, v\<lparr>state := BACKUP, argv := Some av\<rparr>, w1)" "reg w1 = reg w" "trace w1 = trace w @ xs"
        "tick w \<le> tick w1" "xs = [] \<or> (\<exists>sc av. xs = [Exec sc av] \<and> 1 < length av \<and> av ! 1 = STR_STATE BACKUP)"
      using vrrp_exec_effect [OF assms] .
    with False show ?thesis by (intro that [of r av w1 xs]) simp_all
  qed
  define v2 where "v2 = v\<lparr>state := BACKUP, argv := Some av\<rparr>"
  have mint: "(if version v2 = RFC5798 then
        (if state v = INIT then v2\<lparr>master_adv_int := adv_int v2\<rparr>
         else if state v = MASTER then v2\<lparr>master_adv_int := vrrp_adv_get_advint n\<rparr> else v2)
      else v2) = v2\<lparr>master_adv_int := backup_mint v n\<rparr>"
  proof -
    have same: "v2\<lparr>master_adv_int := master_adv_int v2\<rparr> = v2" by simp
    have "version v2 = version v" "adv_int v2 = adv_int v" "master_adv_int v2 = master_adv_int v"
      by (simp_all add: v2_def)
    then show ?thesis using same by (simp add: backup_mint_def)
  qed
  let ?v = "v2\<lparr>master_adv_int := backup_mint v n, adv_timer := clear_member (adv_timer v2)\<rparr>"
  have c: "armed ?v = armed v" "MASTERDOWN_INT ?v = MASTERDOWN_INT (v\<lparr>master_adv_int := backup_mint v n\<rparr>)"
    "start_delay ?v = start_delay v"
    by (rule armed_cong) (simp_all add: MASTERDOWN_INT_def SKEW_TIME_def v2_def)
  have st: "state (v\<lparr>state := BACKUP\<rparr>) = BACKUP" by simp
  note set = set_timers(2,4) [OF os_okD(1) [OF assms(2)], of ?v w1, unfolded c]
  have "vrrp_state_goto_backup os v n w
      = Ret (?v\<lparr>masterdown_timer := armed v (now_at os w1) (backup_wait v n)\<rparr>, n, syscall w1)"
    unfolding vrrp_state_goto_backup_def Let_def st 1(1) bind_run.simps prod.case
      v2_def [symmetric] mint vrrp.simps
    using set c(3) by (simp add: backup_wait_def del: clear_member_simp)
  moreover have "sends_then_hook os [] BACKUP es"
    unfolding sends_then_hook_def using 1(5) by (intro exI [of _ "[]"] exI [of _ es]) auto
  ultimately show ?thesis using 1(2,3,4,6) unfolding v2_def by (intro that [of w1 av es]) simp_all
qed

section \<open>Events\<close>

text \<open>Only the remaining times of the timers differ, not the deadlines.\<close>

definition retimed :: "vrrp \<Rightarrow> vrrp \<Rightarrow> bool" where
  "retimed v v' \<longleftrightarrow> (\<exists>a m. v' = v\<lparr>adv_timer := a, masterdown_timer := m\<rparr>
     \<and> ts a = ts (adv_timer v) \<and> ts m = ts (masterdown_timer v))"

lemma retimed_put:
  assumes "ts t = ts (get_timer vt v)"
  shows "retimed v (put_timer vt t v)"
proof (cases vt)
  case Adv_timer
  then show ?thesis using assms unfolding retimed_def get_timer_def put_timer_def
    by (intro exI [of _ t] exI [of _ "masterdown_timer v"]) simp
next
  case Masterdown_timer
  then show ?thesis using assms unfolding retimed_def get_timer_def put_timer_def
    by (intro exI [of _ "adv_timer v"] exI [of _ t]) simp
qed

lemma put_timer_twice: "put_timer vt t (put_timer vt u v) = put_timer vt t v"
  by (cases vt) (simp_all add: put_timer_def)

lemma inst_wf_retimed: "retimed v v' \<Longrightarrow> inst_wf v' n = inst_wf v n"
  by (auto simp: retimed_def)

text \<open>
  What an event may change.  The priority and the emitted packet change only by a
  command, the flags only by a command or a signal; a reported packet is in the buffer.
\<close>

definition listen_effect ::
    "vrrp \<Rightarrow> vrrp_net \<Rightarrow> world \<Rightarrow> vrrp_event \<times> vrrp \<times> vrrp_net \<times> world \<Rightarrow> bool" where
  "listen_effect v n w res \<longleftrightarrow> (case res of (e, v', n', w') \<Rightarrow>
     inst_wf v' n' \<and> trace w' = trace w \<and> tick w < tick w'
     \<and> (\<exists>u. retimed v u \<and> v' = u\<lparr>ctrl := ctrl v', priority := priority v'\<rparr>)
     \<and> n' = n\<lparr>pkt := pkt n', adv_iov := adv_iov n'\<rparr>
     \<and> (e = PKT \<longrightarrow> vrrp_adv_get_version n' \<noteq> 0)
     \<and> (e \<noteq> CTRL_FIFO \<longrightarrow> priority v' = priority v \<and> adv_iov n' = adv_iov n)
     \<and> (e \<notin> {SIGNAL, CTRL_FIFO} \<longrightarrow> reg w' = reg w)
     \<and> (priority v' \<noteq> priority v \<longrightarrow> test_bit UVRRPD_RELOAD (reg w')))"

definition listened ::
    "vrrp \<Rightarrow> vrrp_net \<Rightarrow> world \<Rightarrow> (vrrp_event \<times> vrrp \<times> vrrp_net \<times> world) run \<Rightarrow> bool" where
  "listened v n w x \<longleftrightarrow> (\<exists>res. x = Ret res \<and> listen_effect v n w res)"

lemma listened_plain:
  assumes "inst_wf v n" and "retimed v u" and "e \<noteq> PKT" and "e \<noteq> CTRL_FIFO" and "trace w' = trace w"
    and "tick w < tick w'" and "e = SIGNAL \<or> reg w' = reg w"
  shows "listened v n w (Ret (e, u, n, w'))"
proof -
  have "u = u\<lparr>ctrl := ctrl u, priority := priority u\<rparr>" "n = n\<lparr>pkt := pkt n, adv_iov := adv_iov n\<rparr>" by simp_all
  moreover have "priority u = priority v" using assms(2) by (auto simp: retimed_def)
  moreover have "inst_wf u n" using inst_wf_retimed [OF assms(2)] assms(1) by simp
  ultimately show ?thesis
    using assms unfolding listened_def listen_effect_def by auto
qed

lemma listened_recv:
  assumes "inst_wf v n" and "os_ok os" and "retimed v u" and "trace w1 = trace w" and "reg w1 = reg w"
    and "tick w < tick w1"
  shows "listened v n w (bind_run (vrrp_net_recv os n u w1) (\<lambda>(e, n', w'). Ret (e, u, n', w')))"
proof -
  have u: "inst_wf u n" using inst_wf_retimed [OF assms(3)] assms(1) by simp
  then have rdy: "net_ready n u" "version u \<noteq> 0" by (auto simp: inst_wf_def)
  obtain e r where e: "vrrp_net_recv os n u w1 = Ret (e, n\<lparr>pkt := r\<rparr>, syscall w1)" "pkt_wf r"
      "e \<in> {INVALID, VRID_MISMATCH, PKT}"
    using vrrp_net_recv_classifies [OF rdy(1) os_okD(5) [OF assms(2)]] by blast
  have "inst_wf u (n\<lparr>pkt := r\<rparr>)" using u e(2) by (rule inst_wf_pkt)
  moreover have "vrrp_adv_get_version (n\<lparr>pkt := r\<rparr>) \<noteq> 0" if "e = PKT"
  proof -
    have "h_version_type (adv (pkt (n\<lparr>pkt := r\<rparr>))) \<noteq> 0"
      using vrrp_net_recv_PKT_version [OF e(1) [unfolded that] rdy(2)] .
    then show ?thesis by (simp add: vrrp_adv_get_version_def uint_0_iff)
  qed
  moreover have "u = u\<lparr>ctrl := ctrl u, priority := priority u\<rparr>" "priority u = priority v"
    using assms(3) by (auto simp: retimed_def)
  ultimately show ?thesis
    using assms(3-6) e unfolding listened_def listen_effect_def by auto
qed

lemma listened_ctrl:
  assumes "inst_wf v n" and "os_ok os" and "retimed v u" and "trace w1 = trace w" and "reg w1 = reg w"
    and "tick w < tick w1"
  shows "listened v n w (vrrp_ctrl_read os u n w1)"
proof -
  have u: "inst_wf u n" using inst_wf_retimed [OF assms(3)] assms(1) by simp
  then have "ctrl_wf (ctrl u)" "adv_ready n" "adv_sync u n" by (simp_all add: inst_wf_def)
  then obtain e v' n' w' where c: "vrrp_ctrl_read os u n w1 = Ret (e, v', n', w')"
      "ctrl_effect u n w1 (e, v', n', w')"
    using vrrp_ctrl_read_done [of u n os w1] os_okD(4) [OF assms(2)] unfolding ctrl_done_def by auto
  then have f: "v' = u\<lparr>ctrl := ctrl v', priority := priority v'\<rparr>" "n' = n\<lparr>adv_iov := adv_iov n'\<rparr>"
    and eff: "e \<in> {INVALID, CTRL_FIFO}" "trace w' = trace w1" "tick w1 \<le> tick w'"
      "e = INVALID \<longrightarrow> reg w' = reg w1 \<and> priority v' = priority u \<and> n' = n"
      "priority v' \<noteq> priority u \<longrightarrow> test_bit UVRRPD_RELOAD (reg w')"
    and wf: "ctrl_wf (ctrl v')" "adv_ready n'" "adv_sync v' n'"
    by (auto simp: ctrl_effect_def)
  have "inst_wf v' n'" using inst_wf_ctrl [OF u f(1) wf(1) f(2) wf(2,3)] .
  moreover have "n' = n\<lparr>pkt := pkt n', adv_iov := adv_iov n'\<rparr>" by (subst f(2), subst (2) f(2)) simp
  moreover have "priority u = priority v" using assms(3) by (auto simp: retimed_def)
  ultimately show ?thesis
    using assms(3-6) c(1) f(1) eff unfolding listened_def listen_effect_def by auto
qed

lemma vrrp_listen_done:
  assumes "inst_wf v n" and "os_ok os" and "running_timer v = Some vt"
  shows "listened v n w (vrrp_listen os v n w)"
proof -
  obtain r t1 w1 where 1: "vrrp_timer_update os (get_timer vt v) w = (r, t1, w1)" by (metis prod_cases3)
  then have t1: "ts t1 = ts (get_timer vt v)" and w1: "w1 = syscall w"
    by (simp_all add: update_ts update_world)
  let ?v1 = "put_timer vt t1 v" and ?w2 = "syscall w1"
  obtain b t2 w3 where 2: "vrrp_timer_is_expired os t1 ?w2 = (b, t2, w3)" by (metis prod_cases3)
  then have t2: "ts t2 = ts t1" and w3: "w3 = syscall ?w2"
    by (auto simp: vrrp_timer_is_expired_def split: prod.splits dest: update_ts update_world)
  have r1: "retimed v ?v1" and r2: "retimed v (put_timer vt t2 ?v1)"
    using retimed_put [of t1 vt v] retimed_put [of t2 vt v] t1 t2 by (simp_all add: put_timer_twice)
  note plain = listened_plain [OF assms(1)] and rc = listened_recv [OF assms(1,2)]
    and ct = listened_ctrl [OF assms(1,2)]
  show ?thesis
    unfolding vrrp_listen_def assms(3) option.case 1 prod.case Let_def 2
    using r1 r2 w1 w3
    by (auto intro!: plain rc ct split: pselect_result.split)
qed

end
