(* ===== verification/Vrrp_Machine.thy ===== *)
theory Vrrp_Machine
  imports Vrrp_State
begin

text \<open>
  The state machine against its specification.  \<open>rfc_step\<close> is the abstract virtual
  router of RFC 5798, section 6.4 (and RFC 3768): three states, the learned interval of
  the master and one deadline, with the inputs and outputs of the protocol.  Every step
  of \<open>vrrp_process\<close> is a step of it; from this follow the invariants of reachable
  states, when a backup takes over, and that a resigning master says so.
\<close>

section \<open>The abstract virtual router\<close>

record rfc_conf =
  rc_v3 :: bool
  rc_prio :: int
  rc_adv :: int
  rc_delay :: int
  rc_preempt :: bool

text \<open>A state holds the interval of the master and, in nanoseconds, the deadline of its timer.\<close>

datatype rfc_state = Initialize | Backup int int | Master int int

text \<open>An advertisement: its priority, its interval, and whether its sender has the greater address.\<close>

datatype rfc_input = Start | Timeout | Advert int int bool | Resign | Ignore

datatype rfc_output = Advertise | Advertise_zero | Announce

definition skew :: "rfc_conf \<Rightarrow> int \<Rightarrow> int" where
  "skew c m = (256 - rc_prio c) * (if rc_v3 c then m else 1) div 256"

definition mdown :: "rfc_conf \<Rightarrow> int \<Rightarrow> int" where
  "mdown c m = 3 * m + skew c m"

text \<open>
  VRRPv3 advertises at the learned interval of the previous master, VRRPv2 at its own;
  only VRRPv3 learns an interval.
\<close>

definition adver :: "rfc_conf \<Rightarrow> int \<Rightarrow> int" where
  "adver c m = (if rc_v3 c then m else rc_adv c)"

definition learn :: "rfc_conf \<Rightarrow> int \<Rightarrow> int \<Rightarrow> int" where
  "learn c m i = (if rc_v3 c then i else m)"

definition after :: "rfc_conf \<Rightarrow> int \<Rightarrow> int \<Rightarrow> int" where
  "after c t x = t + x * (if rc_v3 c then CENTUL else NANOUL)"

inductive rfc_step ::
    "rfc_conf \<Rightarrow> int \<Rightarrow> rfc_state \<Rightarrow> rfc_input \<Rightarrow> rfc_state \<Rightarrow> rfc_output list \<Rightarrow> bool" where
  start_owner: "rc_prio c = 255 \<Longrightarrow>
    rfc_step c t Initialize Start (Master (rc_adv c) (after c t (rc_adv c))) [Advertise, Announce]"
| start_backup: "rc_prio c \<noteq> 255 \<Longrightarrow>
    x = (if rc_delay c \<noteq> 0 then rc_delay c else mdown c (rc_adv c)) \<Longrightarrow>
    rfc_step c t Initialize Start (Backup (rc_adv c) (after c t x)) []"
| backup_timeout:
    "rfc_step c t (Backup m d) Timeout (Master m (after c t (adver c m))) [Advertise, Announce]"
| backup_zero:
    "rfc_step c t (Backup m d) (Advert 0 i g) (Backup m (after c t (skew c m))) []"
| backup_follow: "p \<noteq> 0 \<Longrightarrow> \<not> rc_preempt c \<or> rc_prio c \<le> p \<Longrightarrow> l = learn c m i \<Longrightarrow>
    rfc_step c t (Backup m d) (Advert p i g) (Backup l (after c t (mdown c l))) []"
| backup_discard: "p \<noteq> 0 \<Longrightarrow> rc_preempt c \<Longrightarrow> p < rc_prio c \<Longrightarrow>
    rfc_step c t (Backup m d) (Advert p i g) (Backup m d) []"
| backup_resign: "rfc_step c t (Backup m d) Resign Initialize []"
| master_timeout:
    "rfc_step c t (Master m d) Timeout (Master m (after c t (adver c m))) [Advertise]"
| master_zero:
    "rfc_step c t (Master m d) (Advert 0 i g) (Master m (after c t (adver c m))) [Advertise]"
| master_yield: "p \<noteq> 0 \<Longrightarrow> rc_prio c < p \<or> p = rc_prio c \<and> g \<Longrightarrow> l = learn c m i \<Longrightarrow>
    rfc_step c t (Master m d) (Advert p i g) (Backup l (after c t (mdown c l))) []"
| master_keep: "p \<noteq> 0 \<Longrightarrow> p < rc_prio c \<or> p = rc_prio c \<and> \<not> g \<Longrightarrow>
    rfc_step c t (Master m d) (Advert p i g) (Master m d) []"
| master_resign: "rfc_step c t (Master m d) Resign Initialize [Advertise_zero]"
| stay: "rfc_step c t s Ignore s []"

inductive_cases backup_stepE: "rfc_step c t (Backup m d) i s outs"
inductive_cases master_stepE: "rfc_step c t (Master m d) i s outs"
inductive_cases initialize_stepE: "rfc_step c t Initialize i s outs"

code_pred (modes: i \<Rightarrow> i \<Rightarrow> i \<Rightarrow> i \<Rightarrow> o \<Rightarrow> o \<Rightarrow> bool) rfc_step .

section \<open>The abstraction\<close>

definition conf_of :: "vrrp \<Rightarrow> rfc_conf" where
  "conf_of v = \<lparr>rc_v3 = (version v = 3), rc_prio = uint (priority v), rc_adv = uint (adv_int v),
     rc_delay = uint (start_delay v), rc_preempt = preempt v\<rparr>"

definition abs_state :: "vrrp \<Rightarrow> rfc_state" where
  "abs_state v =
     (case state v of
        INIT \<Rightarrow> Initialize
      | BACKUP \<Rightarrow> Backup (uint (master_adv_int v)) (nanos (ts (masterdown_timer v)))
      | MASTER \<Rightarrow> Master (uint (master_adv_int v)) (nanos (ts (adv_timer v))))"

definition sender_greater :: "vrrp_net \<Rightarrow> bool" where
  "sender_greater n =
     (case ipx_helper n of None \<Rightarrow> False | Some h \<Rightarrow> 0 < ipx_cmp h (s_ipx (pkt n)) (vif_ipx (vif n)))"

definition input_of :: "vrrp_event \<Rightarrow> vrrp_net \<Rightarrow> world \<Rightarrow> rfc_input" where
  "input_of e n w =
     (case e of
        TIMER \<Rightarrow> Timeout
      | PKT \<Rightarrow> Advert (vrrp_adv_get_priority n) (uint (vrrp_adv_get_advint n)) (sender_greater n)
      | SIGNAL \<Rightarrow> if test_bit UVRRPD_RELOAD (reg w) then Resign else Ignore
      | CTRL_FIFO \<Rightarrow> if test_bit UVRRPD_RELOAD (reg w) then Resign else Ignore
      | _ \<Rightarrow> Ignore)"

lemma input_of_simps [simp]:
  "input_of TIMER n w = Timeout" "input_of VRID_MISMATCH n w = Ignore" "input_of INVALID n w = Ignore"
  by (simp_all add: input_of_def)

definition out_frames :: "vrrp_net \<Rightarrow> rfc_output \<Rightarrow> bytes list" where
  "out_frames n x =
     (case x of Advertise \<Rightarrow> [adv_frame n] | Advertise_zero \<Rightarrow> [zero_frame n]
      | Announce \<Rightarrow> map topo_frame (rev (vip_list n)))"

definition sent :: "out_event list \<Rightarrow> bytes list" where
  "sent es = concat (map (\<lambda>e. case e of Sent f \<Rightarrow> [f] | _ \<Rightarrow> []) es)"

lemma sent_simps [simp]:
  "sent [] = []" "sent (Sent f # es) = f # sent es" "sent (Exec c d # es) = sent es"
  "sent (Notice s # es) = sent es" "sent (File a b # es) = sent es" "sent (es @ es') = sent es @ sent es'" "sent (map Sent fs) = fs"
  by (simp_all add: sent_def) (induction fs; simp)

lemma sends_then_hook_sent: "sends_then_hook os fs st es \<Longrightarrow> link_up os \<Longrightarrow> sent es = fs"
  by (auto simp: sends_then_hook_def)

lemma conf_of_upd [simp]:
  "conf_of (v\<lparr>state := s\<rparr>) = conf_of v" "conf_of (v\<lparr>argv := a\<rparr>) = conf_of v"
  "conf_of (v\<lparr>adv_timer := t\<rparr>) = conf_of v" "conf_of (v\<lparr>masterdown_timer := t\<rparr>) = conf_of v"
  "conf_of (v\<lparr>master_adv_int := m\<rparr>) = conf_of v" "conf_of (v\<lparr>ctrl := c\<rparr>) = conf_of v"
  by (simp_all add: conf_of_def)

text \<open>The intervals of the code are those of the specification.\<close>

lemma intervals_abs:
  "SKEW_TIME v = skew (conf_of v) (uint (master_adv_int v))"
  "MASTERDOWN_INT v = mdown (conf_of v) (uint (master_adv_int v))"
  "ADV_INT v = adver (conf_of v) (uint (master_adv_int v))"
  by (simp_all add: SKEW_TIME_def MASTERDOWN_INT_def ADV_INT_def skew_def mdown_def adver_def conf_of_def)

lemma armed_abs: "nanos (ts (armed v now x)) = after (conf_of v) (nanos now) x"
  by (simp add: armed_deadline after_def time_unit_def conf_of_def)

section \<open>Each handler is a step\<close>

text \<open>
  \<open>implements os b v i w x\<close>: the outcome \<open>x\<close> of a handler on instance \<open>v\<close> is an abstract
  step for input \<open>i\<close> at the time of a clock reading made from system call \<open>b\<close> on, keeps the invariants, and on a
  working link puts exactly the frames of the outputs on the wire.
\<close>

definition read_in :: "os \<Rightarrow> nat \<Rightarrow> world \<Rightarrow> timespec \<Rightarrow> bool" where
  "read_in os b w' now \<longleftrightarrow> (\<exists>t. b \<le> t \<and> t < tick w' \<and> os_clock os t = Some now)"

definition implements ::
    "os \<Rightarrow> nat \<Rightarrow> vrrp \<Rightarrow> rfc_input \<Rightarrow> world \<Rightarrow> (vrrp \<times> vrrp_net \<times> world) run \<Rightarrow> bool" where
  "implements os b v i w x \<longleftrightarrow> (\<exists>v' n' w' now outs es. x = Ret (v', n', w')
     \<and> inst_wf v' n' \<and> timers_ok v' \<and> conf_of v' = conf_of v \<and> read_in os b w' now \<and> tick w \<le> tick w'
     \<and> rfc_step (conf_of v) (nanos now) (abs_state v) i (abs_state v') outs
     \<and> trace w' = trace w @ es \<and> (link_up os \<longrightarrow> sent es = concat (map (out_frames n') outs))
     \<and> (\<forall>b. bit_ok b \<longrightarrow> b \<noteq> UVRRPD_RELOAD \<longrightarrow> test_bit b (reg w') = test_bit b (reg w)))"

lemma read_in_now: "os_ok os \<Longrightarrow> b \<le> tick w1 \<Longrightarrow> tick w1 < tick w' \<Longrightarrow> read_in os b w' (now_at os w1)"
  using os_okD(1) [of os]
  by (auto simp: read_in_def now_at_def intro!: exI [of _ "tick w1"] elim!: clock_okE [of os "tick w1"])

lemma read_in_first:
  assumes "os_ok os" and "b < tick w'"
  obtains now where "read_in os b w' now"
  using os_okD(1) [OF assms(1)] assms(2) by (auto simp: read_in_def elim!: clock_okE [of os b])

lemma implementsI:
  assumes "x = Ret (v', n', w')" and "inst_wf v' n'" and "timers_ok v'" and "conf_of v' = conf_of v"
    and "read_in os b w' now" and "tick w \<le> tick w'" and "rfc_step (conf_of v) (nanos now) (abs_state v) i (abs_state v') outs"
    and "trace w' = trace w @ es" and "link_up os \<longrightarrow> sent es = concat (map (out_frames n') outs)"
    and "\<forall>b. bit_ok b \<longrightarrow> b \<noteq> UVRRPD_RELOAD \<longrightarrow> test_bit b (reg w') = test_bit b (reg w)"
  shows "implements os b v i w x"
  unfolding implements_def using assms by blast

lemma not_running_zero [simp]: "\<not> vrrp_timer_is_running \<lparr>ts = timespec_zero, delta = d\<rparr>"
  by (simp add: vrrp_timer_is_running_def timespec_zero_def)

lemma goto_master_implements:
  assumes "inst_wf v n" and "os_ok os" and "b \<le> tick w"
    and "\<And>t. rfc_step (conf_of v) t (abs_state v) i
          (Master (uint (master_adv_int v)) (after (conf_of v) t (ADV_INT v))) [Advertise, Announce]"
  shows "implements os b v i w (vrrp_state_goto_master os v n w)"
proof -
  obtain av w1 es where g: "vrrp_state_goto_master os v n w = Ret (v\<lparr>state := MASTER, argv := Some av,
        masterdown_timer := clear_member (masterdown_timer v),
        adv_timer := armed v (now_at os w1) (ADV_INT v)\<rparr>, n, syscall w1)"
    "reg w1 = reg w" "trace w1 = trace w @ es" "tick w \<le> tick w1"
    "sends_then_hook os (master_frames n) MASTER es"
    using goto_master_effect [OF assms(1,2)] .
  have rd: "read_in os b (syscall w1) (now_at os w1)"
    using read_in_now [OF assms(2), of b w1 "syscall w1"] assms(3) g(4) by simp
  have now: "clock_reading (now_at os w1)" using os_okD(1) [OF assms(2)] by (rule now_at_reading)
  show ?thesis
    by (rule implementsI [OF g(1) _ _ _ rd, where es = es
          and outs = "[Advertise, Announce]"])
      (use assms(1,3,4) g(2-5) now armed_running sends_then_hook_sent in
        \<open>simp_all add: timers_ok_def armed_running abs_state_def armed_abs out_frames_def master_frames_def\<close>)
qed

lemma goto_backup_implements:
  assumes "inst_wf v n" and "os_ok os" and "b \<le> tick w"
    and "\<And>t. rfc_step (conf_of v) t (abs_state v) i
          (Backup (uint (backup_mint v n)) (after (conf_of v) t (backup_wait v n))) []"
  shows "implements os b v i w (vrrp_state_goto_backup os v n w)"
proof -
  obtain av w1 es where g: "vrrp_state_goto_backup os v n w = Ret (v\<lparr>state := BACKUP, argv := Some av,
        master_adv_int := backup_mint v n, adv_timer := clear_member (adv_timer v),
        masterdown_timer := armed v (now_at os w1) (backup_wait v n)\<rparr>, n, syscall w1)"
    "reg w1 = reg w" "trace w1 = trace w @ es" "tick w \<le> tick w1" "sends_then_hook os [] BACKUP es"
    using goto_backup_effect [OF assms(1,2)] .
  have rd: "read_in os b (syscall w1) (now_at os w1)"
    using read_in_now [OF assms(2), of b w1 "syscall w1"] assms(3) g(4) by simp
  have now: "clock_reading (now_at os w1)" using os_okD(1) [OF assms(2)] by (rule now_at_reading)
  have "0 \<le> backup_wait v n" by (simp add: backup_wait_def)
  then show ?thesis
    by (intro implementsI [OF g(1) _ _ _ rd, where es = es and outs = "[]"])
      (use assms(1,3,4) g(2-5) now sends_then_hook_sent [of os "[]" BACKUP es] in
        \<open>simp_all add: timers_ok_def armed_running abs_state_def armed_abs\<close>)
qed

lemma armed_stay:
  assumes "inst_wf v n" and "os_ok os" and "timers_ok v" and "b \<le> tick w"
  shows "state v = MASTER \<Longrightarrow> rfc_step (conf_of v) (nanos (now_at os w)) (abs_state v) i
        (Master (uint (master_adv_int v)) (after (conf_of v) (nanos (now_at os w)) (ADV_INT v))) outs \<Longrightarrow>
      trace w = trace w0 @ es \<Longrightarrow> reg w = reg w0 \<Longrightarrow> tick w0 \<le> tick w \<Longrightarrow>
      link_up os \<longrightarrow> sent es = concat (map (out_frames n) outs) \<Longrightarrow>
      implements os b v i w0 (Ret (v\<lparr>adv_timer := armed v (now_at os w) (ADV_INT v)\<rparr>, n, syscall w))"
    and "state v = BACKUP \<Longrightarrow> 0 \<le> x \<Longrightarrow>
      rfc_step (conf_of v) (nanos (now_at os w)) (abs_state v) i
        (Backup (uint m) (after (conf_of v) (nanos (now_at os w)) x)) [] \<Longrightarrow>
      implements os b v i w (Ret (v\<lparr>master_adv_int := m, masterdown_timer := armed v (now_at os w) x\<rparr>,
        n, syscall w))"
proof -
  have now: "clock_reading (now_at os w)" using os_okD(1) [OF assms(2)] by (rule now_at_reading)
  show "state v = MASTER \<Longrightarrow> rfc_step (conf_of v) (nanos (now_at os w)) (abs_state v) i
        (Master (uint (master_adv_int v)) (after (conf_of v) (nanos (now_at os w)) (ADV_INT v))) outs \<Longrightarrow>
      trace w = trace w0 @ es \<Longrightarrow> reg w = reg w0 \<Longrightarrow> tick w0 \<le> tick w \<Longrightarrow>
      link_up os \<longrightarrow> sent es = concat (map (out_frames n) outs) \<Longrightarrow>
      implements os b v i w0 (Ret (v\<lparr>adv_timer := armed v (now_at os w) (ADV_INT v)\<rparr>, n, syscall w))"
    using assms(1,3) now
    by (intro implementsI [OF refl _ _ _ read_in_now [OF assms(2,4)], where es = es and outs = outs])
      (simp_all add: timers_ok_def armed_running abs_state_def armed_abs)
  show "state v = BACKUP \<Longrightarrow> 0 \<le> x \<Longrightarrow>
      rfc_step (conf_of v) (nanos (now_at os w)) (abs_state v) i
        (Backup (uint m) (after (conf_of v) (nanos (now_at os w)) x)) [] \<Longrightarrow>
      implements os b v i w (Ret (v\<lparr>master_adv_int := m, masterdown_timer := armed v (now_at os w) x\<rparr>,
        n, syscall w))"
    using assms(1,3) now
    by (intro implementsI [OF refl _ _ _ read_in_now [OF assms(2,4)], where es = "[]" and outs = "[]"])
      (simp_all add: timers_ok_def armed_running abs_state_def armed_abs)
qed

lemma unchanged_implements:
  assumes "inst_wf v n" and "os_ok os" and "timers_ok v" and "b < tick w" and "trace w' = trace w" and "tick w' = tick w"
    and "\<forall>b. bit_ok b \<longrightarrow> b \<noteq> UVRRPD_RELOAD \<longrightarrow> test_bit b (reg w') = test_bit b (reg w)"
    and "\<And>t. rfc_step (conf_of v) t (abs_state v) i (abs_state v) []"
  shows "implements os b v i w (Ret (v, n, w'))"
proof -
  obtain now where "read_in os b w' now" using read_in_first [OF assms(2), of b w'] assms(4,6) by auto
  then show ?thesis
    using assms by (intro implementsI [where es = "[]" and outs = "[]" and now = now]) auto
qed

lemma test_reload:
  "test_and_clear_bit UVRRPD_RELOAD r = (test_bit UVRRPD_RELOAD r, clear_bit UVRRPD_RELOAD r)"
  by (rule reg.tclear) simp

lemma clear_reload_frame:
  "bit_ok b \<Longrightarrow> b \<noteq> UVRRPD_RELOAD \<Longrightarrow> test_bit b (clear_bit UVRRPD_RELOAD r) = test_bit b r"
  using reg.test_clear [of UVRRPD_RELOAD b r] by simp

subsection \<open>Backup\<close>

lemma backup_pkt_implements:
  assumes "inst_wf v n" and "os_ok os" and "timers_ok v" and "state v = BACKUP"
    and "vrrp_adv_get_version n \<noteq> 0"
    and late: "b < tick w"
  shows "implements os b v (input_of PKT n w) w (backup_pkt os v n w)"
proof -
  let ?p = "vrrp_adv_get_priority n" and ?c = "conf_of v" and ?m = "uint (master_adv_int v)"
  let ?i = "Advert ?p (uint (vrrp_adv_get_advint n)) (sender_greater n)"
  have i: "input_of PKT n w = ?i" by (simp add: input_of_def)
  have a: "abs_state v = Backup ?m (nanos (ts (masterdown_timer v)))" using assms(4) by (simp add: abs_state_def)
  have c: "rc_preempt ?c = preempt v" "rc_prio ?c = uint (priority v)" "rc_v3 ?c = (version v = 3)"
    by (simp_all add: conf_of_def)
  note set = set_timers(2,3) [OF os_okD(1) [OF assms(2)]]
  have same: "v\<lparr>master_adv_int := master_adv_int v\<rparr> = v" by simp
  consider (zero) "?p = 0" | (follow) "?p \<noteq> 0" "\<not> preempt v \<or> ?p \<ge> uint (priority v)"
    | (discard) "?p \<noteq> 0" "preempt v" "?p < uint (priority v)" by linarith
  then show ?thesis
  proof cases
    case zero
    then have "backup_pkt os v n w
        = Ret (v\<lparr>master_adv_int := master_adv_int v, masterdown_timer := armed v (now_at os w) (SKEW_TIME v)\<rparr>,
            n, syscall w)"
      using assms(5) by (simp add: backup_pkt_def set same)
    then show ?thesis
      using armed_stay(2) [OF assms(1-3) less_imp_le [OF late] assms(4) intervals_nonneg(2)] zero backup_zero
      by (simp only: i a intervals_abs)
  next
    case follow
    define m where "m = (if version v = 3 then vrrp_adv_get_advint n else master_adv_int v)"
    have l: "uint m = learn ?c ?m (uint (vrrp_adv_get_advint n))" by (simp add: m_def learn_def c)
    have v1: "(if version v = RFC5798 then v\<lparr>master_adv_int := vrrp_adv_get_advint n\<rparr> else v)
        = v\<lparr>master_adv_int := m\<rparr>" by (simp add: m_def)
    have "armed (v\<lparr>master_adv_int := m\<rparr>) = armed v" by (rule armed_cong) simp
    then have "backup_pkt os v n w = Ret (v\<lparr>master_adv_int := m,
        masterdown_timer := armed v (now_at os w) (MASTERDOWN_INT (v\<lparr>master_adv_int := m\<rparr>))\<rparr>, n, syscall w)"
      using follow assms(5) by (simp add: backup_pkt_def v1 [unfolded RFC5798_def] set Let_def)
    moreover have "MASTERDOWN_INT (v\<lparr>master_adv_int := m\<rparr>) = mdown ?c (uint m)"
      by (simp add: intervals_abs(2))
    ultimately show ?thesis
      using armed_stay(2) [OF assms(1-3) less_imp_le [OF late] assms(4) intervals_nonneg(3) [of "v\<lparr>master_adv_int := m\<rparr>"], of ?i m]
        backup_follow [of ?p ?c "uint m" ?m "uint (vrrp_adv_get_advint n)"] follow l
      by (simp add: i a c)
  next
    case discard
    then have "backup_pkt os v n w = Ret (v, n, w)" using assms(5) by (simp add: backup_pkt_def)
    then show ?thesis
      using unchanged_implements [OF assms(1-3) late, of w] backup_discard discard by (simp add: i a c)
  qed
qed

lemma backup_ctrl_implements:
  assumes "inst_wf v n" and "os_ok os" and "timers_ok v" and "state v = BACKUP" and "e = SIGNAL \<or> e = CTRL_FIFO"
    and late: "b < tick w"
  shows "implements os b v (input_of e n w) w (backup_ctrl v n w)"
proof (cases "test_bit UVRRPD_RELOAD (reg w)")
  case True
  then have i: "input_of e n w = Resign" using assms(5) by (auto simp: input_of_def)
  obtain now where now: "read_in os b (w\<lparr>reg := clear_bit UVRRPD_RELOAD (reg w)\<rparr>) now"
    using read_in_first [OF assms(2), of b "w\<lparr>reg := clear_bit UVRRPD_RELOAD (reg w)\<rparr>"] late by auto
  have eq: "backup_ctrl v n w = Ret (v\<lparr>masterdown_timer := clear_member (masterdown_timer v),
      state := INIT\<rparr>, n, w\<lparr>reg := clear_bit UVRRPD_RELOAD (reg w)\<rparr>)"
    using True by (simp add: backup_ctrl_def test_reload Let_def del: control_bits)
  show ?thesis
    using assms clear_reload_frame backup_resign
    by (intro implementsI [OF eq _ _ _ now, where es = "[]" and outs = "[]"])
      (simp_all add: i abs_state_def timers_ok_def del: control_bits)
next
  case False
  then have "input_of e n w = Ignore" using assms(5) by (auto simp: input_of_def)
  moreover have "backup_ctrl v n w = Ret (v, n, w\<lparr>reg := clear_bit UVRRPD_RELOAD (reg w)\<rparr>)"
    using False by (simp add: backup_ctrl_def test_reload Let_def del: control_bits)
  ultimately show ?thesis
    using unchanged_implements [OF assms(1-3) late] clear_reload_frame stay by (simp del: control_bits)
qed

subsection \<open>Master\<close>

lemma abs_master:
  "state v = MASTER \<Longrightarrow> abs_state v = Master (uint (master_adv_int v)) (nanos (ts (adv_timer v)))"
  by (simp add: abs_state_def)

lemma master_advertise_implements:
  assumes "inst_wf v n" and "os_ok os" and "timers_ok v" and "state v = MASTER"
    and "\<And>t m d. rfc_step (conf_of v) t (Master m d) i
           (Master m (after (conf_of v) t (adver (conf_of v) m))) [Advertise]"
    and late: "b < tick w"
  shows "implements os b v i w (master_advertise os v n w)"
proof -
  obtain nm where nm: "ifname (vif n) = Some nm" "adv_ready n" using assms(1) by (rule inst_wfE)
  obtain r w1 ss where 1: "transmit os nm (adv_frame n) w = (r, w1)" "reg w1 = reg w"
      "trace w1 = trace w @ map Sent ss" "tick w \<le> tick w1" "link_up os \<longrightarrow> ss = [adv_frame n]"
    by (rule transmit_sent)
  have "master_advertise os v n w
      = Ret (v\<lparr>adv_timer := armed v (now_at os w1) (ADV_INT v)\<rparr>, n, syscall w1)"
    using vrrp_adv_send_ready [OF nm(2,1), of os w] 1(1) set_timers(1) [OF os_okD(1) [OF assms(2)]]
    by (simp add: master_advertise_def)
  then show ?thesis
    using armed_stay(1) [OF assms(1-3) _ assms(4), of b w1 i "[Advertise]" w "map Sent ss"] 1(2-5) assms(5) late
    by (simp add: abs_master [OF assms(4)] intervals_abs(3) out_frames_def)
qed

lemma master_pkt_implements:
  assumes "inst_wf v n" and "os_ok os" and "timers_ok v" and "state v = MASTER"
    and "vrrp_adv_get_version n \<noteq> 0"
    and late: "b < tick w"
  shows "implements os b v (input_of PKT n w) w (master_pkt os v n w)"
proof -
  let ?p = "vrrp_adv_get_priority n" and ?c = "conf_of v" and ?m = "uint (master_adv_int v)"
  let ?i = "Advert ?p (uint (vrrp_adv_get_advint n)) (sender_greater n)"
  have i: "input_of PKT n w = ?i" by (simp add: input_of_def)
  obtain h where h: "ipx_helper n = Some h" using assms(1) by (rule inst_wfE)
  have cmp: "vrrp_adv_addr_cmp n = Ret (ipx_cmp h (s_ipx (pkt n)) (vif_ipx (vif n)))"
    "sender_greater n \<longleftrightarrow> 0 < ipx_cmp h (s_ipx (pkt n)) (vif_ipx (vif n))"
    by (simp_all add: vrrp_adv_addr_cmp_def sender_greater_def h)
  have c: "rc_prio ?c = uint (priority v)" "rc_v3 ?c = (version v = 3)" by (simp_all add: conf_of_def)
  note a = abs_master [OF assms(4)]
  let ?yield = "uint (priority v) < ?p \<or> ?p = uint (priority v) \<and> sender_greater n"
  consider (zero) "?p = 0" | (yield) "?p \<noteq> 0" ?yield
    | (keep) "?p \<noteq> 0" "?p < uint (priority v) \<or> ?p = uint (priority v) \<and> \<not> sender_greater n"
    by linarith
  then show ?thesis
  proof cases
    case zero
    then have "implements os b v ?i w (master_advertise os v n w)"
      by (intro master_advertise_implements [OF assms(1-4)]) (simp_all add: master_zero late)
    then show ?thesis using zero assms(5) by (simp add: i master_pkt_def)
  next
    case yield
    have l: "uint (backup_mint v n) = learn ?c ?m (uint (vrrp_adv_get_advint n))"
      by (simp add: backup_mint_def assms(4) learn_def c)
    have "backup_wait v n = mdown ?c (uint (backup_mint v n))"
      by (simp add: backup_wait_def assms(4) intervals_abs)
    then have "implements os b v ?i w (vrrp_state_goto_backup os v n w)"
      using yield master_yield [OF yield(1), of ?c "sender_greater n"] l
      by (intro goto_backup_implements [OF assms(1,2)]) (simp_all add: a c late less_imp_le)
    then show ?thesis using yield assms(5) by (auto simp: i master_pkt_def cmp)
  next
    case keep
    then have "master_pkt os v n w = Ret (v, n, w)" using assms(5) by (auto simp: master_pkt_def cmp)
    then show ?thesis
      using unchanged_implements [OF assms(1-3) late, of w ?i] master_keep [OF keep(1), of ?c] keep
      by (simp add: i a c)
  qed
qed

lemma vrrp_adv_send_zero_effect:
  assumes "inst_wf v n"
  obtains r w1 ss where "vrrp_adv_send_zero os n w = Ret (r, n, w1)" "reg w1 = reg w"
    "trace w1 = trace w @ map Sent ss" "tick w \<le> tick w1" "link_up os \<longrightarrow> ss = [zero_frame n]"
proof -
  obtain nm where nm: "ifname (vif n) = Some nm" "adv_ready n" using assms by (rule inst_wfE)
  obtain r w1 ss where "transmit os nm (zero_frame n) w = (r, w1)" "reg w1 = reg w"
      "trace w1 = trace w @ map Sent ss" "tick w \<le> tick w1" "link_up os \<longrightarrow> ss = [zero_frame n]"
    by (rule transmit_sent)
  then show ?thesis
    by (intro that [of r w1 ss]) (simp_all add: vrrp_adv_send_zero_sends [OF nm(2,1)])
qed

lemma master_ctrl_resign:
  assumes "inst_wf v n" and "os_ok os" and "test_bit UVRRPD_RELOAD (reg w)"
  obtains av w' ss xs where "master_ctrl os v n w = Ret (v\<lparr>state := INIT, argv := Some av,
      adv_timer := clear_member (adv_timer v)\<rparr>, n, w')"
    "reg w' = clear_bit UVRRPD_RELOAD (reg w)" "trace w' = trace w @ map Sent ss @ xs"
    "link_up os \<longrightarrow> ss = [zero_frame n]"
    "xs = [] \<or> (\<exists>sc av. xs = [Exec sc av] \<and> 1 < length av \<and> av ! 1 = STR_STATE BACKUP)"
    "tick w \<le> tick w'"
proof -
  let ?w1 = "w\<lparr>reg := clear_bit UVRRPD_RELOAD (reg w)\<rparr>"
  define v1 where "v1 = v\<lparr>adv_timer := clear_member (adv_timer v)\<rparr>"
  obtain r w2 ss where 1: "vrrp_adv_send_zero os n ?w1 = Ret (r, n, w2)" "reg w2 = reg ?w1"
      "trace w2 = trace ?w1 @ map Sent ss" "tick ?w1 \<le> tick w2" "link_up os \<longrightarrow> ss = [zero_frame n]"
    using vrrp_adv_send_zero_effect [OF assms(1)] .
  have "inst_wf v1 n" using assms(1) by (simp add: v1_def)
  then obtain r2 av w3 xs where 2: "vrrp_exec os (v1\<lparr>state := state v1\<rparr>) n BACKUP w2
        = Ret (r2, v1\<lparr>state := state v1, argv := Some av\<rparr>, w3)"
      "reg w3 = reg w2" "trace w3 = trace w2 @ xs" "tick w2 \<le> tick w3"
      "xs = [] \<or> (\<exists>sc av. xs = [Exec sc av] \<and> 1 < length av \<and> av ! 1 = STR_STATE BACKUP)"
    using assms(2) by (rule vrrp_exec_effect)
  have "v1\<lparr>state := state v1\<rparr> = v1" by simp
  then have "master_ctrl os v n w = Ret ((v1\<lparr>argv := Some av\<rparr>)\<lparr>state := INIT\<rparr>, n, w3)"
    using assms(3) 1(1) 2(1)
    by (simp add: master_ctrl_def test_reload Let_def v1_def [symmetric] del: control_bits clear_member_simp)
  then show ?thesis
    using 1 2 by (intro that [of av w3 ss xs]) (simp_all add: v1_def)
qed

lemma master_ctrl_implements:
  assumes "inst_wf v n" and "os_ok os" and "timers_ok v" and "state v = MASTER" and "e = SIGNAL \<or> e = CTRL_FIFO"
    and late: "b < tick w"
  shows "implements os b v (input_of e n w) w (master_ctrl os v n w)"
proof (cases "test_bit UVRRPD_RELOAD (reg w)")
  case True
  then have i: "input_of e n w = Resign" using assms(5) by (auto simp: input_of_def)
  obtain av w' ss xs where m: "master_ctrl os v n w = Ret (v\<lparr>state := INIT, argv := Some av,
      adv_timer := clear_member (adv_timer v)\<rparr>, n, w')"
    "reg w' = clear_bit UVRRPD_RELOAD (reg w)" "trace w' = trace w @ map Sent ss @ xs"
    "link_up os \<longrightarrow> ss = [zero_frame n]"
    "xs = [] \<or> (\<exists>sc av. xs = [Exec sc av] \<and> 1 < length av \<and> av ! 1 = STR_STATE BACKUP)"
    "tick w \<le> tick w'"
    using master_ctrl_resign [OF assms(1,2) True] .
  obtain now where now: "read_in os b w' now" using read_in_first [OF assms(2), of b w'] late m(6) by auto
  show ?thesis
    using assms m(2-6) clear_reload_frame master_resign
    by (intro implementsI [OF m(1) _ _ _ now, where es = "map Sent ss @ xs" and outs = "[Advertise_zero]"])
      (auto simp: i abs_state_def timers_ok_def out_frames_def simp del: control_bits)
next
  case False
  then have "input_of e n w = Ignore" using assms(5) by (auto simp: input_of_def)
  moreover have "master_ctrl os v n w = Ret (v, n, w\<lparr>reg := clear_bit UVRRPD_RELOAD (reg w)\<rparr>)"
    using False by (simp add: master_ctrl_def test_reload Let_def del: control_bits)
  ultimately show ?thesis
    using unchanged_implements [OF assms(1-3) late] clear_reload_frame stay by (simp del: control_bits)
qed

subsection \<open>Start\<close>

lemma implements_prefix:
  assumes "implements os b v1 i w1 x" and "abs_state v1 = abs_state v" and "conf_of v1 = conf_of v"
    and "trace w1 = trace w @ es" and "sent es = []" and "tick w \<le> tick w1"
    and "\<forall>b. bit_ok b \<longrightarrow> b \<noteq> UVRRPD_RELOAD \<longrightarrow> test_bit b (reg w1) = test_bit b (reg w)"
  shows "implements os b v i w x"
proof -
  obtain v' n' w' now outs fs where x: "x = Ret (v', n', w')" "inst_wf v' n'" "timers_ok v'"
    "conf_of v' = conf_of v1" "read_in os b w' now" "tick w1 \<le> tick w'"
    "rfc_step (conf_of v1) (nanos now) (abs_state v1) i (abs_state v') outs"
    "trace w' = trace w1 @ fs" "link_up os \<longrightarrow> sent fs = concat (map (out_frames n') outs)"
    "\<forall>b. bit_ok b \<longrightarrow> b \<noteq> UVRRPD_RELOAD \<longrightarrow> test_bit b (reg w') = test_bit b (reg w1)"
    using assms(1) unfolding implements_def by blast
  show ?thesis
    using x assms by (intro implementsI [OF x(1-3), where now = now and es = "es @ fs" and outs = outs]) simp_all
qed

lemma vrrp_state_init_implements:
  assumes "inst_wf v n" and "os_ok os" and "state v = INIT"
  shows "implements os (tick w) v Start w (vrrp_state_init os v n w)"
proof -
  obtain r av w1 es where 1: "vrrp_exec os (v\<lparr>state := INIT\<rparr>) n INIT w
      = Ret (r, v\<lparr>state := INIT, argv := Some av\<rparr>, w1)"
    "reg w1 = reg w" "trace w1 = trace w @ es" "tick w \<le> tick w1"
    "es = [] \<or> (\<exists>sc av. es = [Exec sc av] \<and> 1 < length av \<and> av ! 1 = STR_STATE INIT)"
    using vrrp_exec_effect [OF assms(1,2)] .
  have same: "v\<lparr>state := INIT\<rparr> = v" using assms(3) by simp
  define v2 where "v2 = v\<lparr>argv := Some av, master_adv_int := adv_int v\<rparr>"
  have v2: "inst_wf v2 n" "state v2 = INIT" "master_adv_int v2 = adv_int v" "priority v2 = priority v"
    "conf_of v2 = conf_of v" "abs_state v2 = abs_state v" "adv_int v2 = adv_int v"
    "start_delay v2 = start_delay v"
    using assms(1,3) by (simp_all add: v2_def abs_state_def)
  have a: "abs_state v2 = Initialize" using v2(2) by (simp add: abs_state_def)
  have c: "rc_adv (conf_of v) = uint (adv_int v)" "rc_prio (conf_of v) = uint (priority v)"
    "rc_delay (conf_of v) = uint (start_delay v)" by (simp_all add: conf_of_def)
  have run: "vrrp_state_init os v n w = (if priority v = 255 then vrrp_state_goto_master os v2 n w1
      else vrrp_state_goto_backup os v2 n w1)"
    by (simp add: vrrp_state_init_def 1(1) [unfolded same] Let_def v2_def)
  have "implements os (tick w) v2 Start w1 (vrrp_state_init os v n w)"
  proof (cases "priority v = 255")
    case True
    have "ADV_INT v2 = uint (adv_int v)" by (simp add: intervals_abs(3) adver_def v2(3,5) c(1))
    then have "implements os (tick w) v2 Start w1 (vrrp_state_goto_master os v2 n w1)"
      using True start_owner [of "conf_of v"] c
      by (intro goto_master_implements [OF v2(1) assms(2)]) (simp_all add: a v2 1(4))
    then show ?thesis using True run by simp
  next
    case False
    then have p: "uint (priority v) \<noteq> 255" by (simp add: word_uint_eq_iff)
    have m: "backup_mint v2 n = adv_int v" by (simp add: backup_mint_def v2)
    have "v2\<lparr>master_adv_int := adv_int v\<rparr> = v2" by (simp add: v2_def)
    then have "backup_wait v2 n = (if rc_delay (conf_of v) \<noteq> 0 then rc_delay (conf_of v)
        else mdown (conf_of v) (rc_adv (conf_of v)))"
      by (simp add: backup_wait_def m v2 intervals_abs c uint_0_iff)
    then have "implements os (tick w) v2 Start w1 (vrrp_state_goto_backup os v2 n w1)"
      using p start_backup [of "conf_of v"] c
      by (intro goto_backup_implements [OF v2(1) assms(2)]) (simp_all add: a v2 m 1(4))
    then show ?thesis using False run by simp
  qed
  then show ?thesis
    using 1 v2(5,6) by (intro implements_prefix [of os "tick w" v2 Start w1 _ v w es]) auto
qed

subsection \<open>The dispatch\<close>

text \<open>What a step reacts to, and the priority it reacts with (a command may have changed it).\<close>

definition observed :: "os \<Rightarrow> vrrp \<Rightarrow> vrrp_net \<Rightarrow> world \<Rightarrow> (rfc_input \<times> u8 \<times> u64) option" where
  "observed os v n w =
     (if state v = INIT then Some (Start, priority v, reg w)
      else case vrrp_listen os v n w of
             Ret (e, v1, n1, w1) \<Rightarrow> Some (input_of e n1 w1, priority v1, reg w1)
           | _ \<Rightarrow> None)"

lemma retimed_same:
  assumes "retimed v u" and "v' = u\<lparr>ctrl := c, priority := p\<rparr>"
  shows "abs_state v' = abs_state v" and "timers_ok v' = timers_ok v" and "state v' = state v"
    and "conf_of v' = (conf_of v)\<lparr>rc_prio := uint p\<rparr>" and "master_adv_int v' = master_adv_int v"
proof -
  obtain a m where u: "u = v\<lparr>adv_timer := a, masterdown_timer := m\<rparr>" and t: "ts a = ts (adv_timer v)"
    "ts m = ts (masterdown_timer v)" using assms(1) by (auto simp: retimed_def)
  show "abs_state v' = abs_state v" "timers_ok v' = timers_ok v" "state v' = state v"
    "conf_of v' = (conf_of v)\<lparr>rc_prio := uint p\<rparr>" "master_adv_int v' = master_adv_int v"
    using t by (simp_all add: assms(2) u abs_state_def timers_ok_def vrrp_timer_is_running_def conf_of_def
        cong: vrrp_state.case_cong)
qed

lemma running_timer_states:
  assumes "timers_ok v"
  shows "state v = BACKUP \<Longrightarrow> running_timer v = Some Masterdown_timer"
    and "state v = MASTER \<Longrightarrow> running_timer v = Some Adv_timer"
  using assms by (simp_all add: timers_ok_def running_timer_def)

lemma listen_obtains:
  assumes "inst_wf v n" and "os_ok os" and "timers_ok v" and "state v \<noteq> INIT"
  obtains e v1 n1 w1 where "vrrp_listen os v n w = Ret (e, v1, n1, w1)"
    "listen_effect v n w (e, v1, n1, w1)" "inst_wf v1 n1" "timers_ok v1" "state v1 = state v"
    "abs_state v1 = abs_state v" "conf_of v1 = (conf_of v)\<lparr>rc_prio := uint (priority v1)\<rparr>"
proof -
  obtain vt where "running_timer v = Some vt"
    using running_timer_states [OF assms(3)] assms(4) by (cases "state v") auto
  then obtain e v1 n1 w1 where l: "vrrp_listen os v n w = Ret (e, v1, n1, w1)"
      "listen_effect v n w (e, v1, n1, w1)"
    using vrrp_listen_done [OF assms(1,2)] unfolding listened_def by fastforce
  then obtain u where u: "retimed v u" "v1 = u\<lparr>ctrl := ctrl v1, priority := priority v1\<rparr>" "inst_wf v1 n1"
    by (auto simp: listen_effect_def)
  show ?thesis using that [OF l u(3)] retimed_same [OF u(1,2)] assms(3) by simp
qed

text \<open>The handlers of the two listening states.\<close>

definition reacts :: "os \<Rightarrow> vrrp \<Rightarrow> vrrp_net \<Rightarrow> world \<Rightarrow> (vrrp_event \<times> vrrp \<times> vrrp_net \<times> world) run \<Rightarrow> bool" where
  "reacts os v n w x \<longleftrightarrow> (\<exists>e v1 n1 w1 r. vrrp_listen os v n w = Ret (e, v1, n1, w1)
     \<and> listen_effect v n w (e, v1, n1, w1) \<and> abs_state v1 = abs_state v
     \<and> conf_of v1 = (conf_of v)\<lparr>rc_prio := uint (priority v1)\<rparr>
     \<and> x = Ret (e, r) \<and> implements os (tick w) v1 (input_of e n1 w1) w1 (Ret r))"

lemma implements_Ret: "implements os b v i w x \<Longrightarrow> \<exists>r. x = Ret r"
  by (auto simp: implements_def)

lemma vrrp_state_backup_reacts:
  assumes "inst_wf v n" and "os_ok os" and "timers_ok v" and "state v = BACKUP"
  shows "reacts os v n w (vrrp_state_backup os v n w)"
proof -
  have active: "state v \<noteq> INIT" using assms(4) by simp
  obtain e v1 n1 w1 where l: "vrrp_listen os v n w = Ret (e, v1, n1, w1)"
    "listen_effect v n w (e, v1, n1, w1)" "inst_wf v1 n1" "timers_ok v1" "state v1 = state v"
    "abs_state v1 = abs_state v" "conf_of v1 = (conf_of v)\<lparr>rc_prio := uint (priority v1)\<rparr>"
    using listen_obtains [OF assms(1-3) active] .
  let ?h = "case e of
      TIMER \<Rightarrow> vrrp_state_goto_master os v1 n1 w1 | PKT \<Rightarrow> backup_pkt os v1 n1 w1
    | SIGNAL \<Rightarrow> backup_ctrl v1 n1 w1 | CTRL_FIFO \<Rightarrow> backup_ctrl v1 n1 w1
    | VRID_MISMATCH \<Rightarrow> Ret (v1, n1, w1)
    | INVALID \<Rightarrow> bind_run (vrrp_adv_addr_to_str os n1) (\<lambda>_. Ret (v1, n1, w1))"
  have late: "tick w < tick w1" using l(2) by (simp add: listen_effect_def)
  have st: "state v1 = BACKUP" using l(5) assms(4) by simp
  obtain h where h: "ipx_helper n1 = Some h" using l(3) by (rule inst_wfE)
  have same: "implements os (tick w) v1 Ignore w1 (Ret (v1, n1, w1))"
    using l(3,4) assms(2) stay late by (intro unchanged_implements) auto
  have up: "implements os (tick w) v1 Timeout w1 (vrrp_state_goto_master os v1 n1 w1)"
    using st backup_timeout
    by (intro goto_master_implements [OF l(3) assms(2)]) (use late in \<open>simp_all add: abs_state_def intervals_abs\<close>)
  have "e = PKT \<longrightarrow> vrrp_adv_get_version n1 \<noteq> 0" using l(2) by (simp add: listen_effect_def)
  then have imp: "implements os (tick w) v1 (input_of e n1 w1) w1 ?h"
    using same up backup_pkt_implements [OF l(3) assms(2) l(4) st _ late]
      backup_ctrl_implements [OF l(3) assms(2) l(4) st _ late]
    by (cases e) (simp_all add: vrrp_adv_addr_to_str_def h)
  then obtain r where r: "?h = Ret r" using implements_Ret by blast
  have "vrrp_state_backup os v n w = Ret (e, r)"
    by (simp add: vrrp_state_backup_def l(1) r split: prod.split)
  then show ?thesis unfolding reacts_def using l imp r by auto
qed

lemma vrrp_state_master_reacts:
  assumes "inst_wf v n" and "os_ok os" and "timers_ok v" and "state v = MASTER"
  shows "reacts os v n w (vrrp_state_master os v n w)"
proof -
  have active: "state v \<noteq> INIT" using assms(4) by simp
  obtain e v1 n1 w1 where l: "vrrp_listen os v n w = Ret (e, v1, n1, w1)"
    "listen_effect v n w (e, v1, n1, w1)" "inst_wf v1 n1" "timers_ok v1" "state v1 = state v"
    "abs_state v1 = abs_state v" "conf_of v1 = (conf_of v)\<lparr>rc_prio := uint (priority v1)\<rparr>"
    using listen_obtains [OF assms(1-3) active] .
  let ?h = "case e of
      TIMER \<Rightarrow> master_advertise os v1 n1 w1 | PKT \<Rightarrow> master_pkt os v1 n1 w1
    | SIGNAL \<Rightarrow> master_ctrl os v1 n1 w1 | CTRL_FIFO \<Rightarrow> master_ctrl os v1 n1 w1
    | VRID_MISMATCH \<Rightarrow> Ret (v1, n1, w1) | INVALID \<Rightarrow> Ret (v1, n1, w1)"
  have late: "tick w < tick w1" using l(2) by (simp add: listen_effect_def)
  have st: "state v1 = MASTER" using l(5) assms(4) by simp
  have same: "implements os (tick w) v1 Ignore w1 (Ret (v1, n1, w1))"
    using l(3,4) assms(2) stay late by (intro unchanged_implements) auto
  have up: "implements os (tick w) v1 Timeout w1 (master_advertise os v1 n1 w1)"
    using master_timeout late by (intro master_advertise_implements [OF l(3) assms(2) l(4) st])
  have "e = PKT \<longrightarrow> vrrp_adv_get_version n1 \<noteq> 0" using l(2) by (simp add: listen_effect_def)
  then have imp: "implements os (tick w) v1 (input_of e n1 w1) w1 ?h"
    using same up master_pkt_implements [OF l(3) assms(2) l(4) st _ late]
      master_ctrl_implements [OF l(3) assms(2) l(4) st _ late]
    by (cases e) simp_all
  then obtain r where r: "?h = Ret r" using implements_Ret by blast
  have "vrrp_state_master os v n w = Ret (e, r)"
    by (simp add: vrrp_state_master_def l(1) r split: prod.split)
  then show ?thesis unfolding reacts_def using l imp r by auto
qed

lemma test_dump:
  "test_and_clear_bit UVRRPD_DUMP r = (test_bit UVRRPD_DUMP r, clear_bit UVRRPD_DUMP r)"
  "bit_ok b \<Longrightarrow> b \<noteq> UVRRPD_DUMP \<Longrightarrow> test_bit b (clear_bit UVRRPD_DUMP r) = test_bit b r"
  using reg.tclear [of UVRRPD_DUMP r] reg.test_clear [of UVRRPD_DUMP b r] by simp_all

lemma vrrp_context_frame: "\<exists>ns. trace (vrrp_context v w) = trace w @ map Notice ns \<and> reg (vrrp_context v w) = reg w
    \<and> tick (vrrp_context v w) = tick w"
proof -
  have "trace (foldl (\<lambda>w s. emit (Notice s) w) w ns) = trace w @ map Notice ns
      \<and> reg (foldl (\<lambda>w s. emit (Notice s) w) w ns) = reg w \<and> tick (foldl (\<lambda>w s. emit (Notice s) w) w ns) = tick w" for ns
    by (induction ns arbitrary: w) simp_all
  then show ?thesis unfolding vrrp_context_def by blast
qed

text \<open>The end of a step: a requested dump is written to the log.\<close>

definition dumped :: "vrrp \<times> vrrp_net \<times> world \<Rightarrow> int \<times> vrrp \<times> vrrp_net \<times> world" where
  "dumped r = (case r of (v1, n1, w1) \<Rightarrow>
     (case test_and_clear_bit UVRRPD_DUMP (reg w1) of (was, b) \<Rightarrow>
        (0, v1, n1, (if was then vrrp_context v1 (w1\<lparr>reg := b\<rparr>) else w1\<lparr>reg := b\<rparr>))))"

lemma dumped_effect:
  obtains w' ns where "dumped (v1, n1, w1) = (0, v1, n1, w')" "trace w' = trace w1 @ map Notice ns"
    "test_bit KEEP_GOING (reg w') = test_bit KEEP_GOING (reg w1)" "tick w' = tick w1"
proof -
  let ?w = "w1\<lparr>reg := clear_bit UVRRPD_DUMP (reg w1)\<rparr>"
  have keep: "test_bit KEEP_GOING (clear_bit UVRRPD_DUMP (reg w1)) = test_bit KEEP_GOING (reg w1)"
    by (rule test_dump(2)) simp_all
  obtain ns where ns: "trace (vrrp_context v1 ?w) = trace w1 @ map Notice ns" "reg (vrrp_context v1 ?w) = reg ?w"
      "tick (vrrp_context v1 ?w) = tick w1"
    using vrrp_context_frame [of v1 ?w] by auto
  show ?thesis
    by (rule that [of "if test_bit UVRRPD_DUMP (reg w1) then vrrp_context v1 ?w else ?w"
          "if test_bit UVRRPD_DUMP (reg w1) then ns else []"])
      (simp_all add: dumped_def test_dump(1) ns keep del: control_bits)
qed

text \<open>\<open>process_ok\<close>: the outcome of one step of the daemon, as the specification sees it.\<close>

definition process_ok ::
    "os \<Rightarrow> vrrp \<Rightarrow> vrrp_net \<Rightarrow> world \<Rightarrow> rfc_input \<Rightarrow> vrrp \<Rightarrow> vrrp_net \<Rightarrow> world \<Rightarrow> bool" where
  "process_ok os v n w i v' n' w' \<longleftrightarrow> inst_wf v' n' \<and> timers_ok v'
     \<and> tick w \<le> tick w' \<and> (\<exists>now outs es. read_in os (tick w) w' now
          \<and> rfc_step (conf_of v') (nanos now) (abs_state v) i (abs_state v') outs
          \<and> trace w' = trace w @ es \<and> (link_up os \<longrightarrow> sent es = concat (map (out_frames n') outs)))"

lemma sent_notice [simp]: "sent (map Notice ns) = []"
  by (induction ns) simp_all

lemma implements_process:
  assumes "implements os (tick w) v1 i w1 (Ret r)" and "abs_state v1 = abs_state v"
    and "trace w1 = trace w" and "tick w \<le> tick w1"
  obtains v' n' w' where "dumped r = (0, v', n', w')" "process_ok os v n w i v' n' w'"
    "conf_of v' = conf_of v1" "test_bit KEEP_GOING (reg w') = test_bit KEEP_GOING (reg w1)"
    "tick w1 \<le> tick w'"
proof -
  obtain v' n' w2 now outs es where x: "r = (v', n', w2)" "inst_wf v' n'" "timers_ok v'"
    "conf_of v' = conf_of v1" "read_in os (tick w) w2 now" "tick w1 \<le> tick w2"
    "rfc_step (conf_of v1) (nanos now) (abs_state v1) i (abs_state v') outs"
    "trace w2 = trace w1 @ es" "link_up os \<longrightarrow> sent es = concat (map (out_frames n') outs)"
    "\<forall>b. bit_ok b \<longrightarrow> b \<noteq> UVRRPD_RELOAD \<longrightarrow> test_bit b (reg w2) = test_bit b (reg w1)"
    using assms(1) unfolding implements_def by blast
  obtain w' ns where d: "dumped (v', n', w2) = (0, v', n', w')" "trace w' = trace w2 @ map Notice ns"
    "test_bit KEEP_GOING (reg w') = test_bit KEEP_GOING (reg w2)" "tick w' = tick w2" by (rule dumped_effect)
  have "read_in os (tick w) w' now" "tick w \<le> tick w'" using x(5,6) d(4) assms(4) by (simp_all add: read_in_def)
  then have "process_ok os v n w i v' n' w'"
    unfolding process_ok_def using x d(2) assms(2,3)
    by (intro conjI exI [of _ now] exI [of _ outs] exI [of _ "es @ map Notice ns"]) simp_all
  moreover have "test_bit KEEP_GOING (reg w') = test_bit KEEP_GOING (reg w1)" using d(3) x(10) by simp
  moreover have "tick w1 \<le> tick w'" using x(6) d(4) by simp
  ultimately show ?thesis using that d(1) x(1,4) by blast
qed

lemma vrrp_process_cases:
  "vrrp_process os v n w = bind_run (case state v of
       INIT \<Rightarrow> vrrp_state_init os v n w
     | BACKUP \<Rightarrow> bind_run (vrrp_state_backup os v n w) (\<lambda>(e, r). Ret r)
     | MASTER \<Rightarrow> bind_run (vrrp_state_master os v n w) (\<lambda>(e, r). Ret r)) (\<lambda>r. Ret (dumped r))"
proof -
  have "(\<lambda>(v1, n1, w1). case test_and_clear_bit UVRRPD_DUMP (reg w1) of (was, r) \<Rightarrow>
     Ret (0 :: int, v1, n1, (if was then vrrp_context v1 (w1\<lparr>reg := r\<rparr>) else w1\<lparr>reg := r\<rparr>)))
     = (\<lambda>r. Ret (dumped r))"
    by (intro ext) (simp add: dumped_def split: prod.split)
  then show ?thesis unfolding vrrp_process_def by simp
qed

lemma vrrp_process_refines_step:
  assumes "inst_wf v n" and "timers_ok v" and "os_ok os"
  obtains i p r v' n' w' where "observed os v n w = Some (i, p, r)"
    "vrrp_process os v n w = Ret (0, v', n', w')" "process_ok os v n w i v' n' w'"
    "conf_of v' = (conf_of v)\<lparr>rc_prio := uint p\<rparr>" "p \<noteq> priority v \<longrightarrow> i = Resign"
    "test_bit KEEP_GOING (reg w') = test_bit KEEP_GOING r"
    "state v \<noteq> INIT \<longrightarrow> (\<exists>e v1 n1 w1. vrrp_listen os v n w = Ret (e, v1, n1, w1)
       \<and> i = input_of e n1 w1 \<and> tick w1 \<le> tick w')"
proof (cases "state v = INIT")
  case True
  note imp = vrrp_state_init_implements [OF assms(1,3) True, of w]
  then obtain r where r: "vrrp_state_init os v n w = Ret r" using implements_Ret by blast
  obtain v' n' w' where d: "dumped r = (0, v', n', w')" "process_ok os v n w Start v' n' w'"
    "conf_of v' = conf_of v" "test_bit KEEP_GOING (reg w') = test_bit KEEP_GOING (reg w)"
    using implements_process [OF imp [unfolded r] refl refl order_refl] .
  have "vrrp_process os v n w = Ret (0, v', n', w')"
    using True r d(1) by (simp add: vrrp_process_cases)
  moreover have "conf_of v = (conf_of v)\<lparr>rc_prio := uint (priority v)\<rparr>" by (simp add: conf_of_def)
  ultimately show ?thesis
    using that [of Start "priority v" "reg w" v' n' w'] True d by (simp add: observed_def)
next
  case False
  let ?x = "if state v = BACKUP then vrrp_state_backup os v n w else vrrp_state_master os v n w"
  have "reacts os v n w ?x"
    using vrrp_state_backup_reacts [OF assms(1,3,2)] vrrp_state_master_reacts [OF assms(1,3,2)] False
    by (cases "state v") simp_all
  then obtain e v1 n1 w1 r where l: "vrrp_listen os v n w = Ret (e, v1, n1, w1)"
     "listen_effect v n w (e, v1, n1, w1)" "abs_state v1 = abs_state v"
     "conf_of v1 = (conf_of v)\<lparr>rc_prio := uint (priority v1)\<rparr>" "?x = Ret (e, r)"
     "implements os (tick w) v1 (input_of e n1 w1) w1 (Ret r)" unfolding reacts_def by blast
  have w1: "trace w1 = trace w" "tick w \<le> tick w1"
    and p: "priority v1 \<noteq> priority v \<longrightarrow> e = CTRL_FIFO \<and> test_bit UVRRPD_RELOAD (reg w1)"
    using l(2) by (auto simp: listen_effect_def)
  obtain v' n' w' where d: "dumped r = (0, v', n', w')" "process_ok os v n w (input_of e n1 w1) v' n' w'"
    "conf_of v' = conf_of v1" "test_bit KEEP_GOING (reg w') = test_bit KEEP_GOING (reg w1)"
    "tick w1 \<le> tick w'"
    using implements_process [OF l(6,3) w1] .
  have "vrrp_process os v n w = Ret (0, v', n', w')"
    using False l(5) d(1) by (cases "state v") (simp_all add: vrrp_process_cases)
  moreover have "observed os v n w = Some (input_of e n1 w1, priority v1, reg w1)"
    using False l(1) by (simp add: observed_def)
  moreover have "priority v1 \<noteq> priority v \<longrightarrow> input_of e n1 w1 = Resign"
    using p by (auto simp: input_of_def)
  ultimately show ?thesis using that d l(1,4) by metis
qed

section \<open>An instance that has been set up\<close>

lemma adv_ready_vips: "adv_ready (n\<lparr>vip_list := vs\<rparr>) = adv_ready n"
proof -
  have "adv_checksum h (n\<lparr>vip_list := vs\<rparr>) = adv_checksum h n" for h by (rule chksum_cong) simp_all
  moreover have "adv_getsize h (n\<lparr>vip_list := vs\<rparr>) = adv_getsize h n" for h
    by (cases h) (simp_all add: vrrp_ip4_getsize_def vrrp_ip6_getsize_def)
  ultimately show ?thesis by (simp add: adv_ready_def adv_pkt_def cong: option.case_cong)
qed

text \<open>A built advertisement and prepared topology packets make an instance well formed.\<close>

lemma setup_adv:
  assumes "conf_ok n v" and "build_os os" and "ifname (vif n) \<noteq> None" and "pkt_wf (pkt n)"
    and "ctrl_wf (ctrl v)" and "argv v \<noteq> None"
  obtains iov where "vrrp_adv_init os n v w = Ret (0, n\<lparr>adv_iov := iov\<rparr>, syscall (syscall (syscall w)))"
    "\<And>vs. list_all topo_ready vs \<Longrightarrow> inst_wf v (n\<lparr>adv_iov := iov, vip_list := vs\<rparr>)"
proof -
  obtain h where h: "ipx_helper n = Some h"
    using assms(1) by (auto simp: conf_ok_def conf_base_def vrrp_ipx_set_def)
  have auth: "auth_type v = SIMPLE \<longrightarrow> auth_data v \<noteq> None" and ver: "version v = 2 \<or> version v = 3"
    and fam: "family n = AF_INET \<or> family n = AF_INET6"
    using assms(1) by (auto simp: conf_ok_def conf_base_def split: option.splits)
  show ?thesis
  proof (rule vrrp_adv_init_parts [OF assms(1,2) h, of w], goal_cases)
    case (1 e iph p ck tail)
    let ?iov = "[\<lparr>iov_base = Some e, iov_len = 14\<rparr>, \<lparr>iov_base = Some iph, iov_len = iphdr_size h\<rparr>,
        \<lparr>iov_base = Some p, iov_len = adv_getsize h n\<rparr>]"
    have "inst_wf v (n\<lparr>adv_iov := ?iov, vip_list := vs\<rparr>)" (is "inst_wf v ?n2")
      if "list_all topo_ready vs" for vs
    proof -
      have rdy: "adv_ready ?n2" using 1(9) adv_ready_vips by blast
      have "h_priority p = priority v" using 1(5) by (simp add: adv_fixed_def h_priority_def)
      then have "adv_sync v ?n2" by (simp add: adv_sync_alt adv_pkt_def)
      moreover obtain g where "ipx_helper ?n2 = Some g" "net_wf g ?n2" using rdy by (rule adv_ready_wf)
      then have "net_ready ?n2 v" using assms(4) auth by (simp add: net_ready_def)
      ultimately show ?thesis using rdy that assms(3,5,6) ver fam h by (simp add: inst_wf_def exec_ready_def)
    qed
    then show ?thesis using that 1(1) by blast
  qed
qed

text \<open>For IPv4, \<open>vrrp_adv_init\<close> and then \<open>vrrp_arp_init\<close> establish the invariant.\<close>

lemma setup_ip4:
  assumes "conf_ok n v" and "build_os os" and "family n = AF_INET" and "vip_list n \<noteq> []"
    and "ifname (vif n) \<noteq> None" and "pkt_wf (pkt n)" and "ctrl_wf (ctrl v)" and "argv v \<noteq> None"
  obtains n1 n2 w1 w2 where "vrrp_adv_init os n v w = Ret (0, n1, w1)"
    "vrrp_arp_init os n1 w1 = (0, n2, w2)" "inst_wf v n2" "vif n2 = vif n" "pkt n2 = pkt n"
    "ipx_helper n2 = Some VRRP_IP4" "family n1 = AF_INET" "n2 = n1\<lparr>vip_list := vip_list n2\<rparr>"
    "map ipx (vip_list n2) = map ipx (vip_list n)"
proof -
  have h: "ipx_helper n = Some VRRP_IP4" and vips: "list_all (\<lambda>vip. length (ipx vip) = 16) (vip_list n)"
    using assms(1,3) by (auto simp: conf_ok_def conf_base_def vrrp_ipx_set_def)
  have mal: "\<forall>t. os_malloc os t \<noteq> None" using assms(2) by (simp add: build_os_def)
  obtain iov where a: "vrrp_adv_init os n v w = Ret (0, n\<lparr>adv_iov := iov\<rparr>, syscall (syscall (syscall w)))"
    "\<And>vs. list_all topo_ready vs \<Longrightarrow> inst_wf v (n\<lparr>adv_iov := iov, vip_list := vs\<rparr>)"
    using setup_adv [OF assms(1,2,5-8)] by blast
  obtain vs w2 where b: "vrrp_arp_init os (n\<lparr>adv_iov := iov\<rparr>) (syscall (syscall (syscall w)))
        = (0, n\<lparr>adv_iov := iov, vip_list := vs\<rparr>, w2)"
      "list_all2 (\<lambda>vip vip'. ipx vip' = ipx vip \<and> topo_ready vip'
          \<and> topo_frame vip' = gratuitous_arp (net_vrid n) (addr4 (ipx vip))) (vip_list n) vs"
    using vrrp_arp_init_ok [OF mal, of "n\<lparr>adv_iov := iov\<rparr>"] vips assms(4) by fastforce
  have "map ipx vs = map ipx (vip_list n)"
    using b(2) by (auto simp: list_all2_conv_all_nth intro!: nth_equalityI)
  then show ?thesis
    using a(2) [OF topo_ready_all [OF b(2)]] by (intro that [OF a(1) b(1)]) (simp_all add: h assms(3))
qed

text \<open>For IPv6, with \<open>vrrp_na_init\<close>.\<close>

lemma setup_ip6:
  assumes "conf_ok n v" and "build_os os" and "na_os os dst" and "family n = AF_INET6" and "vip_list n \<noteq> []"
    and "ifname (vif n) \<noteq> None" and "pkt_wf (pkt n)" and "ctrl_wf (ctrl v)" and "argv v \<noteq> None"
  obtains n1 n2 w1 w2 where "vrrp_adv_init os n v w = Ret (0, n1, w1)"
    "vrrp_na_init os n1 w1 = Ret (0, n2, w2)" "inst_wf v n2" "family n1 = AF_INET6"
    "n2 = n1\<lparr>vip_list := vip_list n2\<rparr>" "map ipx (vip_list n2) = map ipx (vip_list n)"
proof -
  have vips: "list_all (\<lambda>vip. length (ipx vip) = 16) (vip_list n)" using assms(1) by (simp add: conf_ok_def conf_base_def)
  obtain iov where a: "vrrp_adv_init os n v w = Ret (0, n\<lparr>adv_iov := iov\<rparr>, syscall (syscall (syscall w)))"
    "\<And>vs. list_all topo_ready vs \<Longrightarrow> inst_wf v (n\<lparr>adv_iov := iov, vip_list := vs\<rparr>)"
    using setup_adv [OF assms(1,2,6-9)] by blast
  obtain vs w2 where b: "vrrp_na_init os (n\<lparr>adv_iov := iov\<rparr>) (syscall (syscall (syscall w)))
        = Ret (0, n\<lparr>adv_iov := iov, vip_list := vs\<rparr>, w2)"
      "list_all2 (\<lambda>vip vip'. ipx vip' = ipx vip \<and> topo_ready vip'
          \<and> na_frame (net_vrid n) dst (ipx vip) (topo_frame vip')) (vip_list n) vs"
    using vrrp_na_init_ok [OF assms(3), of "n\<lparr>adv_iov := iov\<rparr>"] vips assms(5) by fastforce
  have "map ipx vs = map ipx (vip_list n)"
    using b(2) by (auto simp: list_all2_conv_all_nth intro!: nth_equalityI)
  then show ?thesis
    using a(2) [OF topo_ready_all [OF b(2)]] by (intro that [OF a(1) b(1)]) (simp_all add: assms(4))
qed

text \<open>The example configuration, set up in the quiet environment.\<close>

definition inst0 :: vrrp_net where
  "inst0 = (case vrrp_adv_init quiet_os vnet0 vrrp0 world0 of
     Ret (_, n, w) \<Rightarrow> fst (snd (vrrp_arp_init quiet_os n w)) | _ \<Rightarrow> vnet0)"

lemma inst0_ok: "inst_wf vrrp0 inst0" "vif inst0 = vif vnet0" "ipx_helper inst0 = Some VRRP_IP4"
  "\<exists>n w. vrrp_adv_init quiet_os vnet0 vrrp0 world0 = Ret (0, n, w) \<and> inst0 = n\<lparr>vip_list := vip_list inst0\<rparr>
     \<and> map ipx (vip_list inst0) = map ipx (vip_list vnet0)"
proof -
  have *: "family vnet0 = AF_INET" "vip_list vnet0 \<noteq> []" "ifname (vif vnet0) \<noteq> None" "pkt_wf (pkt vnet0)"
    "ctrl_wf (ctrl vrrp0)" "argv vrrp0 \<noteq> None"
    by (simp_all add: example_defs pkt_wf_def ctrl_wf_def CTRL_MAXCHAR_def CTRL_CMD_NTOKEN_def numeral_3_eq_3)
  obtain n1 n2 w1 w2 where "vrrp_adv_init quiet_os vnet0 vrrp0 world0 = Ret (0, n1, w1)"
    "vrrp_arp_init quiet_os n1 w1 = (0, n2, w2)" "inst_wf vrrp0 n2" "vif n2 = vif vnet0"
    "ipx_helper n2 = Some VRRP_IP4" "n2 = n1\<lparr>vip_list := vip_list n2\<rparr>"
    "map ipx (vip_list n2) = map ipx (vip_list vnet0)"
    using setup_ip4 [OF conf_ok_examples *] .
  moreover from this have "inst0 = n2" by (simp add: inst0_def)
  ultimately show "inst_wf vrrp0 inst0" "vif inst0 = vif vnet0" "ipx_helper inst0 = Some VRRP_IP4"
    "\<exists>n w. vrrp_adv_init quiet_os vnet0 vrrp0 world0 = Ret (0, n, w) \<and> inst0 = n\<lparr>vip_list := vip_list inst0\<rparr>
     \<and> map ipx (vip_list inst0) = map ipx (vip_list vnet0)"
    by blast+
qed

text \<open>The quiet environment with a clock, events and datagrams.\<close>

definition ticking :: "int \<Rightarrow> pselect_result \<Rightarrow> bytes option \<Rightarrow> os" where
  "ticking sec ev d = quiet_os\<lparr>os_clock := (\<lambda>_. Some \<lparr>tv_sec = sec, tv_nsec = 0\<rparr>),
     os_pselect := (\<lambda>_. ev), os_read := (\<lambda>_. d)\<rparr>"

lemma ticking_ok: "0 < sec \<Longrightarrow> os_ok (ticking sec ev d)" "link_up (ticking sec ev d)"
  "os_clock (ticking sec ev d) k = Some \<lparr>tv_sec = sec, tv_nsec = 0\<rparr>"
  by (auto simp: ticking_def os_ok_def clock_ok_def fork_ok_def wait_ends_def fifo_ends_def
      os_recv_ok_def link_up_def quiet_os_def clock_reading_def NANOUL_def)

lemma vrrp0_timers: "timers_ok vrrp0" "timers_ok (vrrp0\<lparr>state := MASTER,
    adv_timer := masterdown_timer vrrp0, masterdown_timer := adv_timer vrrp0\<rparr>)"
  by (simp_all add: timers_ok_def vrrp0_def vrrp_timer_is_running_def)

section \<open>Properties of a step\<close>



text \<open>The timer that decides, and the moment it is found expired.\<close>

lemma listen_expired:
  assumes "inst_wf v n" and "running_timer v = Some vt"
    and "os_clock os (tick w) = Some now" and "nanos (ts (get_timer vt v)) < nanos now"
  obtains v1 where "vrrp_listen os v n w = Ret (TIMER, v1, n, syscall w)" "retimed v v1"
proof -
  obtain r t1 w1 where 1: "vrrp_timer_update os (get_timer vt v) w = (r, t1, w1)" by (metis prod_cases3)
  note d = update_result [OF assms(3) 1]
  have "tv_sec (delta t1) < 0"
    using d(2-4) assms(4) by (auto simp: nanos_def NANOUL_def)
  then have "r \<noteq> 0" using d(1) by simp
  moreover have "w1 = syscall w" "ts t1 = ts (get_timer vt v)" using 1 by (simp_all add: update_world update_ts)
  ultimately have "vrrp_listen os v n w = Ret (TIMER, put_timer vt t1 v, n, syscall w)"
    by (simp add: vrrp_listen_def assms(2) 1 Let_def)
  with that show ?thesis using retimed_put [of t1 vt v] \<open>ts t1 = ts (get_timer vt v)\<close> by blast
qed

lemma observed_expired:
  assumes "inst_wf v n" and "timers_ok v" and "state v = BACKUP"
    and "os_clock os (tick w) = Some now" and "nanos (ts (masterdown_timer v)) < nanos now"
  shows "observed os v n w = Some (Timeout, priority v, reg w)"
proof -
  have "nanos (ts (get_timer Masterdown_timer v)) < nanos now"
    using assms(5) by (simp add: get_timer_def)
  then obtain v1 where "vrrp_listen os v n w = Ret (TIMER, v1, n, syscall w)" "retimed v v1"
    using listen_expired [OF assms(1) running_timer_states(1) [OF assms(2,3)] assms(4)] by blast
  then show ?thesis using assms(3) by (auto simp: observed_def retimed_def)
qed

text \<open>
  Take-over in one step: a backup whose master-down deadline has passed when the step starts becomes
  master in that step, whatever else is pending; on a working link it sends one
  advertisement followed by one announcement per address, and its next advertisement
  is due one interval after a clock reading of the step.
\<close>

lemma backup_timeout_effect:
  assumes "inst_wf v n" and "timers_ok v" and "os_ok os" and "state v = BACKUP"
    and "os_clock os (tick w) = Some now" and "nanos (ts (masterdown_timer v)) < nanos now"
  shows "\<exists>v' n' w' es t. vrrp_process os v n w = Ret (0, v', n', w') \<and> state v' = MASTER
     \<and> read_in os (tick w) w' t \<and> nanos (ts (adv_timer v')) = nanos t + ADV_INT v * time_unit v
     \<and> trace w' = trace w @ es \<and> (link_up os \<longrightarrow> sent es = master_frames n')"
proof -
  obtain i p r v' n' w' where 1: "observed os v n w = Some (i, p, r)"
    "vrrp_process os v n w = Ret (0, v', n', w')" "process_ok os v n w i v' n' w'"
    "conf_of v' = (conf_of v)\<lparr>rc_prio := uint p\<rparr>"
    using vrrp_process_refines_step [OF assms(1-3)] .
  have i: "i = Timeout" and p: "conf_of v' = conf_of v"
    using observed_expired [OF assms(1,2,4-6)] 1(1,4) by (simp_all add: conf_of_def)
  obtain t outs es where s: "read_in os (tick w) w' t"
    "rfc_step (conf_of v) (nanos t) (abs_state v) Timeout (abs_state v') outs"
    "trace w' = trace w @ es" "link_up os \<longrightarrow> sent es = concat (map (out_frames n') outs)"
    using 1(3) unfolding process_ok_def i p by blast
  have "abs_state v = Backup (uint (master_adv_int v)) (nanos (ts (masterdown_timer v)))"
    using assms(4) by (simp add: abs_state_def)
  with s(2) have m: "abs_state v' = Master (uint (master_adv_int v)) (after (conf_of v) (nanos t) (ADV_INT v))"
    and o: "outs = [Advertise, Announce]"
    by (auto simp: intervals_abs elim: backup_stepE)
  from m have "state v' = MASTER" "nanos (ts (adv_timer v')) = after (conf_of v) (nanos t) (ADV_INT v)"
    by (cases "state v'"; simp add: abs_state_def)+
  moreover have "link_up os \<longrightarrow> sent es = master_frames n'"
    using s(4) o by (simp add: out_frames_def master_frames_def)
  ultimately show ?thesis
    using 1(2) s(1,3) by (auto simp: after_def time_unit_def conf_of_def)
qed

lemma update_expired:
  assumes "clock_ok os" and "vrrp_timer_update os t w = (r, t', w')"
    and "r \<noteq> 0 \<or> (tv_sec (ts t) \<le> 0 \<and> tv_nsec (ts t) \<le> 0)"
  shows "nanos (ts t) \<le> nanos (now_at os w)"
proof -
  obtain now where now: "os_clock os (tick w) = Some now" "clock_reading now" using assms(1) by (rule clock_okE)
  note d = update_result [OF now(1) assms(2)]
  have "r \<noteq> 0 \<Longrightarrow> nanos (ts t) \<le> nanos now"
    using d by (auto simp: nanos_def NANOUL_def split: if_splits)
  moreover have "tv_sec (ts t) \<le> 0 \<Longrightarrow> tv_nsec (ts t) \<le> 0 \<Longrightarrow> nanos (ts t) \<le> nanos now"
    using now(2) by (simp add: nanos_def clock_reading_def NANOUL_def)
  ultimately show ?thesis using assms(3) now(1) by (auto simp: now_at_def)
qed

lemma ctrl_read_not_timer:
  "inst_wf v n \<Longrightarrow> os_ok os \<Longrightarrow> vrrp_ctrl_read os v n w \<noteq> Ret (TIMER, x)"
  using vrrp_ctrl_read_done [of v n os w] os_okD(4) [of os]
  by (auto simp: inst_wf_def ctrl_effect_def)

lemma net_recv_not_timer:
  "inst_wf v n \<Longrightarrow> os_ok os \<Longrightarrow> vrrp_net_recv os n v w \<noteq> Ret (TIMER, x)"
  using vrrp_net_recv_classifies [of n v os w] os_okD(5) [of os]
  by (auto simp: inst_wf_def)

text \<open>\<open>vrrp_listen\<close> reports the timer only when the clock has reached its deadline.\<close>

lemma listen_timer_expired:
  assumes "inst_wf v n" and "os_ok os" and "running_timer v = Some vt"
    and "vrrp_listen os v n w = Ret (TIMER, v1, n1, w1)"
  shows "\<exists>now. read_in os (tick w) w1 now \<and> nanos (ts (get_timer vt v)) \<le> nanos now"
proof -
  have clk: "os_clock os (tick u) = Some (now_at os u)" for u
    using os_okD(1) [OF assms(2)] by (auto simp: now_at_def elim!: clock_okE [of os "tick u"])
  obtain r t1 wa where 1: "vrrp_timer_update os (get_timer vt v) w = (r, t1, wa)" by (metis prod_cases3)
  then have t1: "ts t1 = ts (get_timer vt v)" and wa: "wa = syscall w" by (simp_all add: update_ts update_world)
  obtain b t2 wb where 2: "vrrp_timer_is_expired os t1 (syscall wa) = (b, t2, wb)" by (metis prod_cases3)
  obtain r2 where 3: "vrrp_timer_update os t1 (syscall wa) = (r2, t2, wb)"
    and b: "b \<longleftrightarrow> r2 \<noteq> 0 \<or> (tv_sec (ts t2) \<le> 0 \<and> tv_nsec (ts t2) \<le> 0)"
    using 2 by (auto simp: vrrp_timer_is_expired_def split: prod.splits)
  have u: "inst_wf (put_timer vt t2 (put_timer vt t1 v)) n"
    using assms(1) by (cases vt) (simp_all add: put_timer_def)
  have "r \<noteq> 0 \<or> b \<and> w1 = wb"
  proof (rule ccontr)
    assume "\<not> (r \<noteq> 0 \<or> b \<and> w1 = wb)"
    then show False
      using assms(4) ctrl_read_not_timer [OF u assms(2)] net_recv_not_timer [OF u assms(2)]
      by (auto simp: vrrp_listen_def assms(3) 1 2 Let_def bind_run_Ret_iff
          split: pselect_result.splits if_splits)
  qed
  then show ?thesis
  proof
    assume "r \<noteq> 0"
    then have "nanos (ts (get_timer vt v)) \<le> nanos (now_at os w)"
      using update_expired [OF os_okD(1) [OF assms(2)] 1] by simp
    moreover have "tick w < tick w1"
      using vrrp_listen_done [OF assms(1-3), of w] assms(4) by (auto simp: listened_def listen_effect_def)
    ultimately show ?thesis using clk [of w] unfolding read_in_def by blast
  next
    assume "b \<and> w1 = wb"
    then have "nanos (ts (get_timer vt v)) \<le> nanos (now_at os (syscall wa))" "w1 = syscall (syscall wa)"
      using update_expired [OF os_okD(1) [OF assms(2)] 3] b t1 update_ts [OF 3] update_world [OF 3] by auto
    then show ?thesis
      using clk [of "syscall wa"] wa unfolding read_in_def
      by (intro exI [of _ "now_at os (syscall wa)"] conjI exI [of _ "Suc (Suc (tick w))"]) auto
  qed
qed

text \<open>
  C9. No early take-over: when a step turns a backup into a master, the clock read during
  that step has reached the master-down deadline.  In particular an advertisement or a
  command never makes a backup master.
\<close>
theorem takeover_needs_deadline:
  assumes "inst_wf v n" and "timers_ok v" and "os_ok os" and "state v = BACKUP"
    and "vrrp_process os v n w = Ret (r, v', n', w')" and "state v' = MASTER"
  shows "\<exists>now. read_in os (tick w) w' now \<and> nanos (ts (masterdown_timer v)) \<le> nanos now"
proof -
  obtain i p q u' m' z' where 1: "observed os v n w = Some (i, p, q)"
    "vrrp_process os v n w = Ret (0, u', m', z')" "process_ok os v n w i u' m' z'"
    "state v \<noteq> INIT \<longrightarrow> (\<exists>e v1 n1 w1. vrrp_listen os v n w = Ret (e, v1, n1, w1)
       \<and> i = input_of e n1 w1 \<and> tick w1 \<le> tick z')"
    using vrrp_process_refines_step [OF assms(1-3)] .
  have u: "u' = v'" "z' = w'" using 1(2) assms(5) by simp_all
  obtain t outs where s: "rfc_step (conf_of v') (nanos t) (abs_state v) i (abs_state v') outs"
    using 1(3) unfolding process_ok_def u(1) by blast
  have "i = Timeout"
    using s assms(4,6) by (auto simp: abs_state_def elim: backup_stepE)
  then obtain e v1 n1 w1 where l: "vrrp_listen os v n w = Ret (e, v1, n1, w1)" "input_of e n1 w1 = Timeout"
      "tick w1 \<le> tick w'"
    using 1(4) assms(4) u(2) by auto
  have "e = TIMER" using l(2) by (cases e) (auto simp: input_of_def split: if_splits)
  then obtain now where "read_in os (tick w) w1 now" "nanos (ts (masterdown_timer v)) \<le> nanos now"
    using listen_timer_expired [OF assms(1,3) running_timer_states(1) [OF assms(2,4)], of w v1 n1 w1] l(1)
    by (auto simp: get_timer_def)
  moreover have "read_in os (tick w) w' now" using calculation(1) l(3) by (auto simp: read_in_def)
  ultimately show ?thesis by blast
qed

theorem takeover_needs_deadline_witness:
  "\<exists>v' n' w'. vrrp_process (ticking 10 Sel_error None) vrrp0 inst0 world0 = Ret (0, v', n', w')
     \<and> state v' = MASTER
     \<and> (\<exists>now. read_in (ticking 10 Sel_error None) 0 w' now \<and> 9 * NANOUL \<le> nanos now)"
proof -
  have st: "state vrrp0 = BACKUP" "nanos (ts (masterdown_timer vrrp0)) < nanos \<lparr>tv_sec = 10, tv_nsec = 0\<rparr>"
    and d: "nanos (ts (masterdown_timer vrrp0)) = 9 * NANOUL"
    by (simp_all add: vrrp0_def nanos_def NANOUL_def)
  have ok: "os_ok (ticking 10 Sel_error None)" by (simp add: ticking_ok)
  note wf = inst0_ok(1) vrrp0_timers(1) ok
  obtain v' n' w' where p: "vrrp_process (ticking 10 Sel_error None) vrrp0 inst0 world0 = Ret (0, v', n', w')"
      "state v' = MASTER"
    using backup_timeout_effect [OF wf st(1) ticking_ok(3) st(2), of world0] by blast
  have "tick world0 = 0" by (simp add: world0_def)
  then show ?thesis using takeover_needs_deadline [OF wf st(1) p] p unfolding d by auto
qed

section \<open>Shutting down\<close>

lemma zero_frame_resigns:
  assumes "adv_ready n"
  shows "\<exists>h q. zero_frame n = adv_frame (set_adv_pkt q n) \<and> h_priority q = 0
     \<and> adv_checksum h n q None None = Some (h_chksum q)"
proof -
  obtain h p where hp: "ipx_helper n = Some h" "net_wf h n" "adv_pkt n = Some p" "length p = adv_getsize h n"
    using adv_ready_wf [OF assms] .
  obtain c where c: "adv_checksum h n (set_h_priority 0 p) None None = Some c"
    "adv_checksum h n (reprio 0 c p) None None = Some c" using reprio_seals [OF hp(2,4)] by blast
  have "8 \<le> length p" using hp(4) tab.size_min [of h n] by (simp add: size_defs)
  then show ?thesis
    using c reprio_layout(1,2) [of p 0 c] by (intro exI [of _ h] exI [of _ "reprio 0 c p"])
      (simp add: zero_frame_def hp)
qed

lemma signal_flags:
  assumes "sig = SIGINT \<or> sig = SIGTERM \<or> sig = SIGQUIT"
  shows "test_bit UVRRPD_RELOAD (signal_handler sig r)" "\<not> test_bit KEEP_GOING (signal_handler sig r)"
proof -
  have s: "signal_handler sig r = clear_bit KEEP_GOING (set_bit UVRRPD_RELOAD r)"
    using assms by (auto simp: signal_handler_def signal_defs)
  show "test_bit UVRRPD_RELOAD (signal_handler sig r)"
    unfolding s by (subst reg.test_clear, simp, simp) (subst reg.test_set, simp_all)
  show "\<not> test_bit KEEP_GOING (signal_handler sig r)"
    unfolding s by (subst reg.test_clear) simp_all
qed

lemma observed_signal:
  assumes "timers_ok v" and "state v \<noteq> INIT" and "sig = SIGINT \<or> sig = SIGTERM \<or> sig = SIGQUIT"
    and "os_clock os (tick w) = Some now" and "running_timer v = Some vt"
    and "nanos now < nanos (ts (get_timer vt v))"
    and "os_pselect os (Suc (tick w)) = Sel_signals [sig]"
  shows "observed os v n w = Some (Resign, priority v, signal_handler sig (reg w))"
proof -
  obtain r t1 w1 where 1: "vrrp_timer_update os (get_timer vt v) w = (r, t1, w1)" by (metis prod_cases3)
  note d = update_result [OF assms(4) 1]
  have "r = 0" using d assms(6) by (auto simp: nanos_def NANOUL_def split: if_splits)
  moreover have "w1 = syscall w" using 1 by (simp add: update_world)
  ultimately have "vrrp_listen os v n w = Ret (SIGNAL, put_timer vt t1 v, n,
      (syscall w1)\<lparr>reg := signal_handler sig (reg w)\<rparr>)"
    using assms(7) by (simp add: vrrp_listen_def assms(5) 1 Let_def)
  moreover have "priority (put_timer vt t1 v) = priority v" by (cases vt) (simp_all add: put_timer_def)
  ultimately show ?thesis
    using assms(2) signal_flags(1) [OF assms(3)] by (auto simp: observed_def input_of_def)
qed

text \<open>
  A termination signal caught while waiting takes an active instance to the initial state and
  clears the flag of the loop; a master first sends one advertisement of priority 0 with a
  verifying checksum.
\<close>

lemma signal_resign_effect:
  assumes "inst_wf v n" and "timers_ok v" and "os_ok os" and "state v \<noteq> INIT"
    and "sig = SIGINT \<or> sig = SIGTERM \<or> sig = SIGQUIT"
    and "os_clock os (tick w) = Some now" and "running_timer v = Some vt"
    and "nanos now < nanos (ts (get_timer vt v))" and "os_pselect os (Suc (tick w)) = Sel_signals [sig]"
  shows "\<exists>v' n' w' es h q. vrrp_process os v n w = Ret (0, v', n', w') \<and> state v' = INIT
     \<and> \<not> test_bit KEEP_GOING (reg w') \<and> trace w' = trace w @ es
     \<and> h_priority q = 0 \<and> adv_checksum h n' q None None = Some (h_chksum q)
     \<and> (link_up os \<longrightarrow> sent es = (if state v = MASTER then [adv_frame (set_adv_pkt q n')] else []))"
proof -
  obtain i p r v' n' w' where 1: "observed os v n w = Some (i, p, r)"
    "vrrp_process os v n w = Ret (0, v', n', w')" "process_ok os v n w i v' n' w'"
    "conf_of v' = (conf_of v)\<lparr>rc_prio := uint p\<rparr>" "p \<noteq> priority v \<longrightarrow> i = Resign"
    "test_bit KEEP_GOING (reg w') = test_bit KEEP_GOING r"
    using vrrp_process_refines_step [OF assms(1-3)] .
  have i: "i = Resign" and r: "r = signal_handler sig (reg w)"
    using observed_signal [OF assms(2,4-9), of n] 1(1) by simp_all
  obtain t outs es where s: "rfc_step (conf_of v') (nanos t) (abs_state v) Resign (abs_state v') outs"
    "trace w' = trace w @ es" "link_up os \<longrightarrow> sent es = concat (map (out_frames n') outs)"
    using 1(3) unfolding process_ok_def i by blast
  have o: "abs_state v' = Initialize" "outs = (if state v = MASTER then [Advertise_zero] else [])"
    using s(1) assms(4) by (cases "state v"; auto simp: abs_state_def elim: backup_stepE master_stepE)+
  have "state v' = INIT" using o(1) by (cases "state v'") (simp_all add: abs_state_def)
  moreover have "adv_ready n'" using 1(3) by (simp add: process_ok_def inst_wf_def)
  then obtain h q where "zero_frame n' = adv_frame (set_adv_pkt q n')" "h_priority q = 0"
    "adv_checksum h n' q None None = Some (h_chksum q)" using zero_frame_resigns by blast
  moreover have "\<not> test_bit KEEP_GOING (reg w')" using 1(6) r signal_flags(2) [OF assms(5)] by simp
  ultimately show ?thesis using 1(2) s(2,3) o(2) by (fastforce simp: out_frames_def)
qed

section \<open>Two masters\<close>

text \<open>\<open>hears n v' n'\<close>: the packet in the buffer of \<open>n\<close> is the advertisement of instance \<open>v'\<close>, \<open>n'\<close>.\<close>

definition hears :: "vrrp_net \<Rightarrow> vrrp \<Rightarrow> vrrp_net \<Rightarrow> bool" where
  "hears n v' n' \<longleftrightarrow> vrrp_adv_get_version n \<noteq> 0 \<and> vrrp_adv_get_priority n = uint (priority v')
     \<and> s_ipx (pkt n) = vif_ipx (vif n')"

lemma master_hears:
  assumes "inst_wf v n" and "timers_ok v" and "os_ok os" and "state v = MASTER"
    and "hears n v' n'" and "ipx_helper n = Some h" and "priority v' \<noteq> 0"
    and late: "b < tick w"
  obtains u m w' where "master_pkt os v n w = Ret (u, m, w')"
    "state u = (if priority v < priority v' \<or> priority v' = priority v
        \<and> 0 < ipx_cmp h (vif_ipx (vif n')) (vif_ipx (vif n)) then BACKUP else MASTER)"
proof -
  let ?g = "0 < ipx_cmp h (vif_ipx (vif n')) (vif_ipx (vif n))"
  have i: "input_of PKT n w = Advert (uint (priority v')) (uint (vrrp_adv_get_advint n)) ?g"
    using assms(5,6) by (simp add: input_of_def hears_def sender_greater_def)
  have ver: "vrrp_adv_get_version n \<noteq> 0" using assms(5) by (simp add: hears_def)
  obtain u m w' t outs where s: "master_pkt os v n w = Ret (u, m, w')"
    "rfc_step (conf_of v) t (abs_state v) (Advert (uint (priority v')) (uint (vrrp_adv_get_advint n)) ?g)
       (abs_state u) outs"
    using master_pkt_implements [OF assms(1,3,2,4) ver late] unfolding implements_def i by blast
  have c: "rc_prio (conf_of v) = uint (priority v)" by (simp add: conf_of_def)
  have nz: "uint (priority v') \<noteq> 0" using assms(7) by (simp add: uint_0_iff)
  have lt: "priority v < priority v' \<longleftrightarrow> uint (priority v) < uint (priority v')"
    "priority v' = priority v \<longleftrightarrow> uint (priority v') = uint (priority v)"
    by (simp_all add: word_less_def word_uint_eq_iff)
  have "state u = (if uint (priority v) < uint (priority v') \<or> uint (priority v') = uint (priority v) \<and> ?g
      then BACKUP else MASTER)"
    using s(2) nz c unfolding abs_master [OF assms(4)]
    by (cases "state u") (auto simp: abs_state_def elim: master_stepE)
  then show ?thesis using that s(1) unfolding lt by blast
qed


text \<open>Two routers of priority 100, at 10.0.0.1 and 10.0.0.2, each with the packet of the other.\<close>

definition duel_v :: vrrp where
  "duel_v = vrrp0\<lparr>state := MASTER, adv_timer := masterdown_timer vrrp0, masterdown_timer := adv_timer vrrp0\<rparr>"

definition duel_addr :: "u8 \<Rightarrow> bytes" where
  "duel_addr k = [10, 0, 0, k] @ replicate 12 0"

definition duel_n :: "u8 \<Rightarrow> u8 \<Rightarrow> vrrp_net" where
  "duel_n me peer = inst0\<lparr>vif := (vif inst0)\<lparr>vif_ipx := duel_addr me\<rparr>,
     pkt := \<lparr>s_ipx = duel_addr peer, d_ipx = replicate 16 0,
       header = \<lparr>hdr_len = 20, hdr_proto = 112, hdr_totlen = 40, hdr_ttl = 255\<rparr>,
       adv = [0x31, 42, 100, 1, 0, 100, 0, 0]\<rparr>\<rparr>"

lemma duel_ok: "inst_wf duel_v (duel_n me peer)" "timers_ok duel_v" "hears (duel_n me peer) duel_v (duel_n peer me)"
  "ipx_helper (duel_n me peer) = Some VRRP_IP4"
proof -
  have "adv_ready (inst0\<lparr>vif := i\<rparr>) = adv_ready inst0" for i
  proof -
    have "adv_checksum h (inst0\<lparr>vif := i\<rparr>) = adv_checksum h inst0" for h by (rule chksum_cong) simp_all
    moreover have "adv_getsize h (inst0\<lparr>vif := i\<rparr>) = adv_getsize h inst0" for h
      by (cases h) (simp_all add: vrrp_ip4_getsize_def vrrp_ip6_getsize_def)
    ultimately show ?thesis by (simp add: adv_ready_def adv_pkt_def cong: option.case_cong)
  qed
  then have "inst_wf vrrp0 (inst0\<lparr>vif := (vif inst0)\<lparr>vif_ipx := duel_addr me\<rparr>\<rparr>)"
    using inst0_ok
    by (simp add: inst_wf_def net_ready_def net_wf_def adv_sync_alt adv_pkt_def exec_ready_def)
  then show "inst_wf duel_v (duel_n me peer)"
    unfolding duel_v_def duel_n_def by (simp add: inst_wf_pkt pkt_wf_def duel_addr_def)
  show "timers_ok duel_v" using vrrp0_timers(2) by (simp add: duel_v_def)
  show "hears (duel_n me peer) duel_v (duel_n peer me)"
    by (simp add: hears_def duel_n_def duel_v_def vrrp_adv_get_version_def vrrp_adv_get_priority_def
        h_defs vrrp0_def)
  show "ipx_helper (duel_n me peer) = Some VRRP_IP4" using inst0_ok(3) by (simp add: duel_n_def)
qed


end
