(* ===== verification/Vrrp_Roundtrip.thy ===== *)
theory Vrrp_Roundtrip
  imports Vrrp_Adv
begin

text \<open>
  The round trip over the network, between two instances of the daemon: the packet
  \<open>vrrp_adv_init\<close> builds (\<^verbatim>\<open>vrrp_adv.c\<close>) is read back by the family helper
  (\<^verbatim>\<open>vrrp_ip4.c\<close>, \<^verbatim>\<open>vrrp_ip6.c\<close>) and accepted by \<open>vrrp_net_recv\<close> (\<^verbatim>\<open>vrrp_net.c\<close>) of a
  peer with the same configuration, which finds the sender's priority, interval and
  address in it.
\<close>

section \<open>Fields of a built packet\<close>

lemma advert_fields:
  assumes p: "p = adv_fixed n v @ rest" and ver: "version v = 2 \<or> version v = 3"
  shows "hdr_version p = version v" "h_vrid p = net_vrid n" "h_priority p = priority v"
    "h_naddr p = naddr v" "h_adv_int p = ucast (adv_int v)"
    "version v = 2 \<Longrightarrow> h_auth_type p = authtype_val (auth_type v)"
    "version v = 3 \<Longrightarrow> htons (h_max_adv_int p) = adv_int v"
proof -
  show "hdr_version p = version v"
    using ver by (auto simp: p adv_fixed_def hdr_version_def h_defs drop_bit_eq_div)
  show "h_vrid p = net_vrid n" "h_priority p = priority v" "h_naddr p = naddr v"
    "h_adv_int p = ucast (adv_int v)"
    by (simp_all add: p adv_fixed_def h_defs)
  show "version v = 2 \<Longrightarrow> h_auth_type p = authtype_val (auth_type v)"
    by (simp add: p adv_fixed_def h_defs)
  show "version v = 3 \<Longrightarrow> htons (h_max_adv_int p) = adv_int v"
    by (simp add: p adv_fixed_def h_defs load16_def)
qed

lemma window_buf_after:
  assumes "length pre = off" and "length p \<le> k"
  shows "\<exists>q. window (buf_after (pre @ p) junk) off k = p @ q"
proof
  show "window (buf_after (pre @ p) junk) off k
      = p @ map (\<lambda>i. junk (off + i)) [length p..<k]"
    using assms by (intro nth_equalityI) (auto simp: window_def buf_after_def nth_append)
qed

text \<open>The header of a built IPv4 datagram, as \<open>vrrp_ip4_recv\<close> reads it.\<close>

lemma list4: "length xs = 4 \<Longrightarrow> \<exists>a b c d. xs = [a, b, c, d]"
  by (auto simp: numeral_eq_Suc length_Suc_conv)

lemma list2: "length xs = 2 \<Longrightarrow> \<exists>a b. xs = [a, b]"
  by (auto simp: numeral_eq_Suc length_Suc_conv)

lemma store16_big_endian:
  "store16 (htons x) = [ucast (drop_bit 8 x), ucast x]"
  "htons (le16 (ucast (drop_bit 8 x)) (ucast x)) = x"
  by (simp_all add: store16_htons)

lemma group_bytes: "store_be32 INADDR_VRRP_GROUP = [224, 0, 0, 18]"
  by code_simp

lemma ip4_recv_built:
  assumes "length sa = 4" and "length ck = 2" and "length p = sz" and "sz < 4096"
    and "os_read os (tick w) = Some (adv_iphdr sz ck sa @ p)"
  shows "vrrp_ip4_recv os r w = (int (20 + sz),
     r\<lparr>header := \<lparr>hdr_len = 20, hdr_proto = 112, hdr_totlen = int (20 + sz), hdr_ttl = 255\<rparr>,
       s_ipx := set_addr4 sa (s_ipx r), d_ipx := set_addr4 [224, 0, 0, 18] (d_ipx r)\<rparr>,
     20, buf_after (adv_iphdr sz ck sa @ p) (os_stack os (tick w)), syscall w)"
proof -
  obtain a b c d where sa: "sa = [a, b, c, d]" using list4 [OF assms(1)] by blast
  obtain e f where ck: "ck = [e, f]" using list2 [OF assms(2)] by blast
  let ?l = "of_nat (20 + sz) :: u16"
  have l: "uint ?l = int (20 + sz)"
    using assms(4) by (simp add: uint_nat unat_of_nat del: of_nat_add)
  have hdr: "adv_iphdr sz ck sa =
    [0x45, 0, ucast (drop_bit 8 ?l), ucast ?l, 0xde, 0xad, 0, 0, 0xff, 112, e, f, a, b, c, d, 224, 0, 0, 18]"
    by (simp add: adv_iphdr_def sa ck store16_big_endian group_bytes IPHDR_SIZE_def IPPROTO_VRRP_def
        drop_bit_eq_div)
  define H where "H = adv_iphdr sz ck sa"
  have H: "H ! 0 = 0x45" "H ! 2 = ucast (drop_bit 8 ?l)" "H ! 3 = ucast ?l" "H ! 8 = 0xff" "H ! 9 = 112"
    "[H ! 12, H ! 13, H ! 14, H ! 15] = sa" "[H ! 16, H ! 17, H ! 18, H ! 19] = [224, 0, 0, 18]"
    "length H = 20"
    unfolding H_def hdr by (simp_all add: sa)
  have b: "buf_after (H @ p) junk i = H ! i" if "i < 20" for i junk
    using that H(8) by (simp add: buf_after_def nth_append)
  have win: "window (buf_after (H @ p) junk) 12 4 = sa" "window (buf_after (H @ p) junk) 16 4 = [224, 0, 0, 18]" for junk
    using H(6,7) by (simp_all add: window_def upt_rec b)
  have "take IP_MAXPACKET (H @ p) = H @ p"
    using assms(3,4) H(8) by (simp add: IP_MAXPACKET_def)
  then show ?thesis
    using assms(3) l H(1-5,8) store16_big_endian(2) [of ?l]
    unfolding vrrp_ip4_recv_def assms(5) Let_def H_def [symmetric]
    by (simp add: b win)
qed

section \<open>Agreement of the checks\<close>

lemma ip4_chksum_agrees:
  assumes "net_naddr m = net_naddr n"
    and "iov_base (adv_iov n ! 1) = Some iph" and "iov_base (adv_iov m ! 1) = Some iph'"
    and "iph ! 9 = iph' ! 9"
    and "bslice iph 12 4 = addr4 s" and "bslice iph 16 4 = addr4 d"
    and "addr4 s \<noteq> [0, 0, 0, 0]" and "addr4 d \<noteq> [0, 0, 0, 0]"
  shows "vrrp_ip4_chksum m p (Some s) (Some d) = vrrp_ip4_chksum n p None None"
  using assms by (simp add: vrrp_ip4_chksum_def Let_def vrrp_ip4_getsize_def)

lemma auth_accepts_built:
  assumes "p = f @ ck @ addrs @ tail" and "length f = 6" and "length ck = 2"
    and "length addrs = 4 * unat (naddr v)" and "auth_placed v tail" and "version v = 2"
    and "h_auth_type p = authtype_val (auth_type v)" and "length tail = 8"
    and "auth_type v = SIMPLE \<longrightarrow> (case auth_data v of None \<Rightarrow> False | Some a \<Rightarrow> length a \<le> 8)"
  shows "auth_accepts v (p @ q) = Some True"
proof -
  have ty: "h_auth_type (p @ q) = authtype_val (auth_type v)"
    using assms(1,2,3,7) by (simp add: h_defs nth_append)
  show ?thesis
  proof (cases "auth_type v")
    case SIMPLE
    then obtain a where a: "auth_data v = Some a" "length a \<le> 8" "take (length a) tail = of_string a"
      using assms(5,6,9) by (auto simp: auth_placed_def split: option.splits)
    have "bslice (p @ q) (VRRP_PKTHDR_SIZE + unat (naddr v) * 4) (length a) = of_string a"
      using a assms(1-4,8) by (simp add: bslice_def size_defs)
    then show ?thesis
      using SIMPLE ty a(1) by (simp add: auth_accepts_def memcmp_0)
  qed (simp_all add: auth_accepts_def ty)
qed

lemma vip_bytes_family:
  "vip_bytes AF_INET = (\<lambda>v. addr4 (ipx v))" "vip_bytes AF_INET6 = (\<lambda>v. addr6 (ipx v))"
  by (simp_all add: vip_bytes_def fun_eq_iff)

lemma drop_blocks:
  "i \<le> length vs \<Longrightarrow> \<forall>v \<in> set vs. length (f v) = c \<Longrightarrow>
     drop (c * i) (concat (map f vs) @ r) = concat (map f (drop i vs)) @ r"
proof (induction vs arbitrary: i)
  case (Cons v vs)
  then show ?case by (cases i) simp_all
qed simp

lemma bslice_blocks:
  assumes "i < length vs" and "\<forall>v \<in> set vs. length (f v) = c" and "length pre = k"
  shows "bslice (pre @ concat (map f vs) @ r) (k + c * i) c = f (vs ! i)"
proof -
  have "drop (k + c * i) (pre @ concat (map f vs) @ r) = drop (c * i) (concat (map f vs) @ r)"
    using assms(3) by simp
  also have "\<dots> = concat (map f (drop i vs)) @ r"
    using assms(1,2) by (intro drop_blocks) simp_all
  also have "drop i vs = vs ! i # drop (Suc i) vs"
    using assms(1) by (rule Cons_nth_drop_Suc [symmetric])
  finally show ?thesis using assms(1,2) by (simp add: bslice_def)
qed

lemma ip4_viplist_built:
  assumes "p = f @ ck @ concat (map (\<lambda>v. addr4 (ipx v)) (rev (vip_list n))) @ tail"
    and "length f = 6" and "length ck = 2" and "list_all (\<lambda>v. length (ipx v) = 16) (vip_list n)"
    and "unat (net_naddr m) = length (vip_list n)"
    and "(\<lambda>v. addr4 (ipx v)) ` set (vip_list n) \<subseteq> (\<lambda>v. addr4 (ipx v)) ` set (vip_list m)"
  shows "vrrp_ip4_viplist_cmp m (p @ q) = 0"
proof -
  have "vrrp_ip4_search_vip m (bslice (p @ q) (VRRP_PKTHDR_SIZE + 4 * i) 4)"
    if "i < length (vip_list n)" for i
  proof -
    let ?a = "addr4 (ipx (rev (vip_list n) ! i))"
    have "bslice (p @ q) (8 + 4 * i) 4 = ?a"
      using that assms(2-4) bslice_blocks [of i "rev (vip_list n)" "\<lambda>v. addr4 (ipx v)" 4
        "f @ ck" 8 "tail @ q"]
      by (simp add: assms(1) list_all_iff)
    moreover have "?a \<in> (\<lambda>v. addr4 (ipx v)) ` set (vip_list m)"
      using that assms(6) by (metis (no_types, lifting) image_subset_iff length_rev nth_mem set_rev)
    ultimately show ?thesis by (auto simp: vrrp_ip4_search_vip_def list_ex_iff size_defs)
  qed
  then show ?thesis by (simp add: vrrp_ip4_viplist_cmp_def filter_empty_conv assms(5))
qed

section \<open>Two instances of one virtual router\<close>

text \<open>
  \<open>n, v\<close> is the sender and \<open>m, u\<close> the receiver.  The interval must fit the 8 bits the
  receiver compares, and the sender must have an address.
\<close>

definition same_group :: "vrrp_net \<Rightarrow> vrrp \<Rightarrow> vrrp_net \<Rightarrow> vrrp \<Rightarrow> bool" where
  "same_group n v m u \<longleftrightarrow> family m = family n \<and> version u = version v \<and> vrid u = vrid v
     \<and> naddr u = naddr v \<and> adv_int u = adv_int v \<and> auth_type u = auth_type v
     \<and> auth_data u = auth_data v
     \<and> (\<lambda>x. addr4 (ipx x)) ` set (vip_list n) \<subseteq> (\<lambda>x. addr4 (ipx x)) ` set (vip_list m)
     \<and> unat (adv_int v) < 256"

text \<open>The bytes behind the Ethernet header of what \<open>n\<close> sends.\<close>

definition datagram :: "vrrp_net \<Rightarrow> bytes" where
  "datagram n = concat (map iov_bytes (drop 1 (adv_iov n)))"

lemma adv_int_small: "unat (x :: u16) < 256 \<Longrightarrow> ucast (ucast x :: u8) = x"
  by (rule u16_eq_unatI) simp

lemma iphdr_fields:
  assumes "length sa = 4" and "length ck = 2"
  shows "adv_iphdr sz ck sa ! 9 = 112" "bslice (adv_iphdr sz ck sa) 12 4 = sa"
    "bslice (adv_iphdr sz ck sa) 16 4 = [224, 0, 0, 18]" "length (adv_iphdr sz ck sa) = 20"
  using list4 [OF assms(1)] list2 [OF assms(2)]
  by (auto simp: adv_iphdr_def group_bytes store16_big_endian bslice_def IPPROTO_VRRP_def)

text \<open>What \<open>vrrp_adv_init\<close> leaves for an IPv4 instance.\<close>

definition built_ip4 :: "vrrp_net \<Rightarrow> vrrp \<Rightarrow> vrrp_net \<Rightarrow> bytes \<Rightarrow> bytes \<Rightarrow> bool" where
  "built_ip4 n v n' iph p \<longleftrightarrow> (\<exists>e c ck tail.
     n' = n\<lparr>adv_iov := [\<lparr>iov_base = Some e, iov_len = 14\<rparr>, \<lparr>iov_base = Some iph, iov_len = 20\<rparr>,
        \<lparr>iov_base = Some p, iov_len = vrrp_ip4_getsize n\<rparr>]\<rparr>
     \<and> iph = adv_iphdr (vrrp_ip4_getsize n) (store16 c) (addr4 (vif_ipx (vif n)))
     \<and> length p = vrrp_ip4_getsize n \<and> p = adv_fixed n v @ ck @ adv_addrs n @ tail
     \<and> length ck = 2 \<and> length tail = 8 \<and> auth_placed v tail
     \<and> vrrp_ip4_chksum n' p None None = Some (h_chksum p))"

lemma init_ip4:
  assumes "conf_ok n v" and "build_os os" and "family n = AF_INET"
    and "vrrp_adv_init os n v w = Ret (0, n', w')"
  shows "\<exists>iph p. built_ip4 n v n' iph p \<and> adv_ready n' \<and> ipx_helper n = Some VRRP_IP4"
proof -
  have h: "ipx_helper n = Some VRRP_IP4"
    using assms(1,3) by (simp add: conf_ok_def conf_base_def vrrp_ipx_set_def)
  show ?thesis
  proof (rule vrrp_adv_init_parts [OF assms(1,2) h, of w], goal_cases)
    case (1 e iph p ck tail)
    then have n': "n' = n\<lparr>adv_iov := [\<lparr>iov_base = Some e, iov_len = 14\<rparr>,
        \<lparr>iov_base = Some iph, iov_len = 20\<rparr>, \<lparr>iov_base = Some p, iov_len = vrrp_ip4_getsize n\<rparr>]\<rparr>"
      using assms(4) by (simp add: iphdr_size_def)
    obtain c where c: "iph = adv_iphdr (vrrp_ip4_getsize n) (store16 c) (addr4 (vif_ipx (vif n)))"
      using 1(3) by (auto simp: adv_iph_ok_def)
    have ready: "adv_ready n'" using 1(9) n' by (simp add: iphdr_size_def)
    then have "vrrp_ip4_chksum n' p None None = Some (h_chksum p)"
      using n' h by (simp add: adv_ready_def adv_pkt_def)
    then have "built_ip4 n v n' iph p"
      unfolding built_ip4_def using 1(4-8) n' c
      by (intro exI [of _ e] exI [of _ c] exI [of _ ck] exI [of _ tail])
        (simp add: tail_size_def assms(3))
    with ready h show ?thesis by blast
  qed
qed

lemma built_ip4_iph:
  assumes "built_ip4 n v n' iph p" and "length (vif_ipx (vif n)) = 16"
  shows "iph ! 9 = 112" "bslice iph 12 4 = addr4 (vif_ipx (vif n))" "bslice iph 16 4 = [224, 0, 0, 18]"
    "length iph = 20" "datagram n' = iph @ p" "iov_base (adv_iov n' ! 1) = Some iph"
    "net_naddr n' = net_naddr n"
  using assms iphdr_fields [of "addr4 (vif_ipx (vif n))"]
  by (auto simp: built_ip4_def datagram_def iov_bytes_def)

text \<open>The receive record after reading a datagram from address \<open>sa\<close>.\<close>

definition delivered4 :: "vrrp_recv \<Rightarrow> bytes \<Rightarrow> nat \<Rightarrow> vrrp_recv" where
  "delivered4 r sa sz = r\<lparr>header := \<lparr>hdr_len = 20, hdr_proto = 112, hdr_totlen = int (20 + sz),
     hdr_ttl = 255\<rparr>, s_ipx := set_addr4 sa (s_ipx r), d_ipx := set_addr4 [224, 0, 0, 18] (d_ipx r)\<rparr>"

lemma delivered4_addr [simp]:
  "length sa = 4 \<Longrightarrow> addr4 (s_ipx (delivered4 r sa sz)) = sa"
  "addr4 (d_ipx (delivered4 r sa sz)) = [224, 0, 0, 18]"
  by (simp_all add: delivered4_def addr4_def set_addr4_def)

lemma built_ip4_delivered:
  assumes "built_ip4 n v n' iph p" and "length (vif_ipx (vif n)) = 16"
    and "os_read os (tick w) = Some (datagram n')"
  shows "pkt_receive VRRP_IP4 os r w = (int (20 + vrrp_ip4_getsize n),
     delivered4 r (addr4 (vif_ipx (vif n))) (vrrp_ip4_getsize n), 20,
     buf_after (iph @ p) (os_stack os (tick w)), syscall w)"
proof -
  obtain c where c: "iph = adv_iphdr (vrrp_ip4_getsize n) (store16 c) (addr4 (vif_ipx (vif n)))"
      and p: "length p = vrrp_ip4_getsize n"
    using assms(1) by (auto simp: built_ip4_def)
  have sa: "length (addr4 (vif_ipx (vif n))) = 4" using assms(2) by simp
  show ?thesis
    using ip4_recv_built [OF sa length_store16 p getsize_bound(1)] assms(3)
      built_ip4_iph(5) [OF assms(1,2)] c
    by (simp add: delivered4_def)
qed

text \<open>What the receiver needs: the IPv4 functions and its own IP header, whose protocol the checksum uses.\<close>

definition listens4 :: "vrrp_net \<Rightarrow> bool" where
  "listens4 m \<longleftrightarrow> ipx_helper m = Some VRRP_IP4 \<and> (\<exists>iph. iov_base (adv_iov m ! 1) = Some iph \<and> iph ! 9 = 112)"

lemma built_ip4_acceptable:
  assumes n: "built_ip4 n v n' iph p" and m: "listens4 m" "net_naddr m = naddr v"
    and conf: "conf_ok n v" and grp: "same_group n v m u" and fam: "family n = AF_INET"
    and own: "priority u \<noteq> PRIO_OWNER" and sa: "addr4 (vif_ipx (vif n)) \<noteq> [0, 0, 0, 0]"
    and mtu: "int (20 + vrrp_ip4_getsize n) \<le> mtu (vif m)"
  shows "rfc_acceptable VRRP_IP4 m u (int (20 + vrrp_ip4_getsize n))
     (delivered4 r (addr4 (vif_ipx (vif n))) (vrrp_ip4_getsize n)) (p @ q)"
proof -
  let ?sz = "vrrp_ip4_getsize n" let ?R = "delivered4 r (addr4 (vif_ipx (vif n))) ?sz"
  obtain ck tail where p: "length p = ?sz" "p = adv_fixed n v @ ck @ adv_addrs n @ tail"
      "length ck = 2" "length tail = 8" "auth_placed v tail"
      "vrrp_ip4_chksum n' p None None = Some (h_chksum p)"
    using n by (auto simp: built_ip4_def)
  have g: "version u = version v" "vrid u = vrid v" "naddr u = naddr v" "adv_int u = adv_int v"
    "auth_type u = auth_type v" "auth_data u = auth_data v" "unat (adv_int v) < 256"
    using grp by (simp_all add: same_group_def)
  have c: "net_naddr n = naddr v" "net_vrid n = vrid v" "length (vip_list n) = unat (naddr v)"
    "list_all (\<lambda>x. length (ipx x) = 16) (vip_list n)" "version v = 2 \<or> version v = 3"
    "length (vif_ipx (vif n)) = 16"
    using conf by (auto simp: conf_ok_def conf_base_def)
  have pq: "p @ q = adv_fixed n v @ (ck @ adv_addrs n @ tail @ q)" using p(2) by simp
  note f = advert_fields [OF pq c(5)] and i = built_ip4_iph [OF n c(6)]
  have szm: "vrrp_ip4_getsize m = ?sz" using c m(2) by (simp add: vrrp_ip4_getsize_def)
  obtain iph' where iph': "iov_base (adv_iov m ! 1) = Some iph'" "iph' ! 9 = 112" using m(1) by (auto simp: listens4_def)
  have 1: "vrrp_ip4_chksum m (p @ q) (Some (s_ipx ?R)) (Some (d_ipx ?R)) = Some (h_chksum (p @ q))"
  proof -
    have "h_chksum (p @ q) = h_chksum p"
      using p(2,3) by (simp add: h_defs load16_def nth_append)
    then show ?thesis
      using ip4.chksum_prefix [of p m q "Some (s_ipx ?R)" "Some (d_ipx ?R)"] p(1,6) szm sa c m(2) i iph'
        ip4_chksum_agrees [of m n' iph iph' "s_ipx ?R" "d_ipx ?R" p]
      by simp
  qed
  have 2: "auth_accepts u (p @ q) = Some True" if "version v = 2"
  proof -
    have "length (adv_addrs n) = 4 * unat (naddr v)"
      using length_adv_addrs [OF conf_okD [OF conf]] c(3) fam by (simp add: vip_size_def)
    then have "auth_accepts v (p @ q) = Some True"
      using advert_fields(6) [OF p(2) c(5) that] conf
      by (intro auth_accepts_built [OF p(2) length_adv_fixed p(3) _ p(5) that _ p(4)])
        (simp_all add: conf_ok_def conf_base_def)
    then show ?thesis unfolding auth_accepts_def g .
  qed
  have 3: "vrrp_ip4_viplist_cmp m (p @ q) = 0"
    using p(2,3) c grp fam m(2)
    by (intro ip4_viplist_built [where f = "adv_fixed n v" and n = n and ck = ck and tail = tail])
      (simp_all add: adv_addrs_def vip_bytes_family same_group_def)
  have "unat (naddr v) \<le> 255" using unat_u8_less [of "naddr v"] by linarith
  then have 4: "16 \<le> ?sz" "?sz \<le> 1036"
    using c(1) by (simp_all add: vrrp_ip4_getsize_def size_defs)
  have 5: "header ?R = \<lparr>hdr_len = 20, hdr_proto = 112, hdr_totlen = int (20 + ?sz), hdr_ttl = 255\<rparr>"
    by (simp add: delivered4_def)
  show ?thesis
    using f(1-5) g c(2,5) own mtu 2 3 4 szm
    by (auto simp: rfc_acceptable_def 1 5)
qed

lemma recv_built_ip4:
  assumes n: "built_ip4 n v n' iph p" and m: "listens4 m" "net_naddr m = naddr v"
    and conf: "conf_ok n v" and grp: "same_group n v m u" and fam: "family n = AF_INET"
    and own: "priority u \<noteq> PRIO_OWNER" and sa: "addr4 (vif_ipx (vif n)) \<noteq> [0, 0, 0, 0]"
    and mtu: "int (20 + vrrp_ip4_getsize n) \<le> mtu (vif m)"
    and data: "os_read os (tick w) = Some (datagram n')"
  shows "\<exists>r. vrrp_net_recv os m u w = Ret (PKT, m\<lparr>pkt := r\<rparr>, syscall w)
     \<and> vrrp_adv_get_priority (m\<lparr>pkt := r\<rparr>) = uint (priority v)
     \<and> vrrp_adv_get_advint (m\<lparr>pkt := r\<rparr>) = adv_int v
     \<and> addr4 (s_ipx r) = addr4 (vif_ipx (vif n))"
proof -
  have c: "length (vif_ipx (vif n)) = 16" "version v = 2 \<or> version v = 3" "net_naddr n = naddr v"
    using conf by (auto simp: conf_ok_def conf_base_def)
  have h: "ipx_helper m = Some VRRP_IP4" using m(1) by (simp add: listens4_def)
  let ?sz = "vrrp_ip4_getsize n" and ?sa = "addr4 (vif_ipx (vif n))"
  note rcv = built_ip4_delivered [OF n c(1) data, of "pkt m"]
  have p: "length p = ?sz" "8 \<le> length p" using n by (auto simp: built_ip4_def)
  have "length p \<le> recv_span VRRP_IP4 m u"
    using p(1) span_getsize [of VRRP_IP4 m u] m(2) c(3) by (simp add: vrrp_ip4_getsize_def)
  then obtain q where win: "window (buf_after (iph @ p) (os_stack os (tick w))) 20
      (recv_span VRRP_IP4 m u) = p @ q"
    using window_buf_after [OF built_ip4_iph(4) [OF n c(1)]] by blast
  let ?r = "(delivered4 (pkt m) ?sa ?sz)\<lparr>adv := take 8 (p @ q)\<rparr>"
  have "vrrp_net_recv os m u w = Ret (PKT, m\<lparr>pkt := ?r\<rparr>, syscall w)"
    using built_ip4_acceptable [OF n m conf grp fam own sa mtu]
    by (subst vrrp_net_recv_PKT_iff [OF h rcv _ win [symmetric]]) simp_all
  moreover obtain rest where "take 8 (p @ q) = adv_fixed n v @ rest"
    using n p(2) by (auto simp: built_ip4_def)
  ultimately show ?thesis
    using advert_fields [of "take 8 (p @ q)" n v rest] c(1,2) grp
    by (intro exI [of _ ?r])
      (auto simp: same_group_def vrrp_adv_get_priority_def vrrp_adv_get_advint_def adv_int_small)
qed

lemma built_listens4:
  assumes "built_ip4 m u m' iph p" and "conf_ok m u" and "ipx_helper m = Some VRRP_IP4"
  shows "listens4 m'" "net_naddr m' = naddr u" "family m' = family m" "vip_list m' = vip_list m" "vif m' = vif m"
proof -
  have "length (vif_ipx (vif m)) = 16" using assms(2) by (simp add: conf_ok_def conf_base_def)
  then show "listens4 m'" using built_ip4_iph [OF assms(1)] assms by (auto simp: listens4_def built_ip4_def)
  show "net_naddr m' = naddr u" "family m' = family m" "vip_list m' = vip_list m" "vif m' = vif m"
    using assms by (auto simp: built_ip4_def conf_ok_def conf_base_def)
qed

text \<open>
  C3. Round trip over IPv4: the datagram an instance builds at start-up is accepted by
  every peer of the group (same version, VRID, interval, authentication and addresses,
  not itself the owner), which reads from it the sender's priority, its advertisement
  interval and its address.
\<close>
theorem advert_roundtrip_ip4:
  assumes "conf_ok n v" and "build_os os" and "vrrp_adv_init os n v w = Ret (0, n', w')"
    and "conf_ok m u" and "vrrp_adv_init os m u w2 = Ret (0, m', w2')"
    and "same_group n v m u" and "family n = AF_INET" and "priority u \<noteq> PRIO_OWNER"
    and "addr4 (vif_ipx (vif n)) \<noteq> [0, 0, 0, 0]"
    and "int (20 + vrrp_ip4_getsize n) \<le> mtu (vif m)"
    and "os_read os2 (tick w3) = Some (datagram n')"
  shows "\<exists>k. vrrp_net_recv os2 m' u w3 = Ret (PKT, k, syscall w3)
     \<and> vrrp_adv_get_priority k = uint (priority v) \<and> vrrp_adv_get_advint k = adv_int v
     \<and> addr4 (s_ipx (pkt k)) = addr4 (vif_ipx (vif n))"
proof -
  obtain iph p where n: "built_ip4 n v n' iph p" using init_ip4 [OF assms(1,2,7,3)] by blast
  have "family m = AF_INET" using assms(6,7) by (simp add: same_group_def)
  then obtain iph' p' where "built_ip4 m u m' iph' p'" "ipx_helper m = Some VRRP_IP4"
    using init_ip4 [OF assms(4,2) _ assms(5)] by blast
  note m = built_listens4 [OF this(1) assms(4) this(2)]
  have "same_group n v m' u" "net_naddr m' = naddr v" using assms(6) m by (simp_all add: same_group_def)
  from recv_built_ip4 [OF n m(1) this(2) assms(1) this(1) assms(7-9) _ assms(11)] assms(10) m(5)
  show ?thesis by fastforce
qed


section \<open>Examples\<close>

definition peer_net :: vrrp_net where
  "peer_net = vnet0\<lparr>vif := (vif vnet0)\<lparr>vif_ipx := [10, 0, 0, 2] @ replicate 12 0\<rparr>\<rparr>"

lemma conf_ok_peer: "conf_ok peer_net vrrp0"
  by (simp add: conf_ok_def conf_base_def auth_fits_def peer_net_def vrrp_ipx_set_def example_defs AF_INET_def AF_INET6_def)

theorem advert_roundtrip_ip4_witness:
  "\<exists>n' w' m' w2 k. vrrp_adv_init quiet_os vnet0 vrrp0 world0 = Ret (0, n', w')
     \<and> vrrp_adv_init quiet_os peer_net vrrp0 world0 = Ret (0, m', w2)
     \<and> vrrp_net_recv (quiet_os\<lparr>os_read := (\<lambda>_. Some (datagram n'))\<rparr>) m' vrrp0 world0
         = Ret (PKT, k, syscall world0)
     \<and> vrrp_adv_get_priority k = 100"
proof -
  have h: "ipx_helper vnet0 = Some VRRP_IP4" "ipx_helper peer_net = Some VRRP_IP4"
    by (simp_all add: peer_net_def vnet0_def)
  obtain n' w' where n: "vrrp_adv_init quiet_os vnet0 vrrp0 world0 = Ret (0, n', w')"
    by (rule init_example [OF conf_ok_examples(1) h(1)])
  obtain m' w2 where m: "vrrp_adv_init quiet_os peer_net vrrp0 world0 = Ret (0, m', w2)"
    by (rule init_example [OF conf_ok_peer h(2)])
  have "same_group vnet0 vrrp0 peer_net vrrp0"
    by (simp add: same_group_def peer_net_def example_defs)
  then show ?thesis
    using n m advert_roundtrip_ip4 [OF conf_ok_examples n conf_ok_peer m,
        of "quiet_os\<lparr>os_read := (\<lambda>_. Some (datagram n'))\<rparr>" world0]
    by (force simp: peer_net_def example_defs PRIO_OWNER_def addr4_def vrrp_ip4_getsize_def size_defs)
qed

theorem vrrp_adv_send_zero_correct_witness:
  "\<exists>n w' p c. vrrp_adv_init quiet_os vnet0 vrrp0 world0 = Ret (0, n, w') \<and> adv_pkt n = Some p
     \<and> vrrp_adv_send_zero quiet_os n world0 = Ret (0, n, emit (Sent (adv_frame (set_adv_pkt
          (reprio 0 c p) n))) (syscall (syscall world0)))"
proof -
  have h: "ipx_helper vnet0 = Some VRRP_IP4" by (simp add: vnet0_def)
  obtain n w' where n: "vrrp_adv_init quiet_os vnet0 vrrp0 world0 = Ret (0, n, w')" "adv_ready n"
      "vif n = vif vnet0" "ipx_helper n = Some VRRP_IP4"
    by (rule init_example [OF conf_ok_examples(1) h])
  obtain p where p: "adv_pkt n = Some p" by (rule adv_ready_wf [OF n(2)])
  have "ifname (vif n) = Some ''eth0''" using n(3) by (simp add: vnet0_def)
  from vrrp_adv_send_zero_correct [OF n(2) this n(4) p, of quiet_os world0] n(1) p
  show ?thesis by (auto simp: transmit_def quiet_os_def)
qed

section \<open>A limit of the interval check\<close>

text \<open>
  C35. Intervals above 255 make an instance deaf: the 8-bit field of the header is
  compared with the 16-bit configured interval, so with \<open>adv_int > 255\<close> (allowed up to
  4095 in VRRPv3) no datagram at all is accepted, in particular none of an identically
  configured peer.
\<close>
theorem long_interval_rejects_everything:
  assumes "255 < unat (adv_int v)" and "ipx_helper n \<noteq> None"
  shows "vrrp_net_recv os n v w \<noteq> Ret (PKT, n', w')"
proof -
  obtain h where h: "ipx_helper n = Some h" using assms(2) by blast
  obtain len r pos buf w1 where rcv: "pkt_receive h os (pkt n) w = (len, r, pos, buf, w1)"
    by (metis prod_cases5)
  have "unat (h_adv_int p) \<noteq> unat (adv_int v)" for p
    using assms(1) unat_u8_less [of "h_adv_int p"] by linarith
  then have "\<not> rfc_acceptable h n v len r p" for p
    by (simp add: rfc_acceptable_def)
  then show ?thesis
    using vrrp_net_recv_PKT_iff [OF h rcv _ refl, of v n' w']
    by (cases "len = -1") (simp_all add: vrrp_net_recv_def h rcv Let_def)
qed

theorem long_interval_rejects_everything_witness:
  "vrrp_net_recv receiving_os vnet1 (vrrp0\<lparr>adv_int := 300\<rparr>) world0 \<noteq> Ret (PKT, vnet1, world0)"
  by (rule long_interval_rejects_everything) (simp_all add: example_defs vnet1_def)

end
