(* ===== verification/Vrrp_Roundtrip6.thy ===== *)
theory Vrrp_Roundtrip6
  imports Vrrp_Roundtrip
begin

text \<open>
  The round trip over IPv6.  A raw IPv6 socket delivers the packet without its header: the
  source address, the hop limit and the destination come beside the data
  (\<open>vrrp_ip6_recv\<close> of \<^verbatim>\<open>vrrp_ip6.c\<close>).  \<open>delivery6\<close> states what the kernel hands over for a
  datagram; the packet \<open>vrrp_adv_init\<close> builds is then accepted by every peer, up to 64 addresses.
\<close>

section \<open>Delivery of a datagram\<close>

definition delivery6 :: "bytes \<Rightarrow> recvmsg_result \<Rightarrow> bool" where
  "delivery6 dg m \<longleftrightarrow> rm_data m = drop 40 dg \<and> take 16 (rm_src m) = bslice dg 8 16
     \<and> (\<exists>hop. find_ancillary (rm_cmsgs m) IPV6_HOPLIMIT = Some hop \<and> load_int hop = uint (dg ! 7))
     \<and> (\<exists>info. find_ancillary (rm_cmsgs m) IPV6_PKTINFO = Some info \<and> take 16 info = bslice dg 24 16)"

text \<open>Instances of one virtual router; VRRPv3 compares neither addresses nor passwords.\<close>

definition same_group6 :: "vrrp_net \<Rightarrow> vrrp \<Rightarrow> vrrp_net \<Rightarrow> vrrp \<Rightarrow> bool" where
  "same_group6 n v m u \<longleftrightarrow> family m = family n \<and> version v = 3 \<and> version u = 3 \<and> vrid u = vrid v
     \<and> naddr u = naddr v \<and> adv_int u = adv_int v \<and> unat (adv_int v) < 256"

section \<open>What an IPv6 instance builds\<close>

definition built_ip6 :: "vrrp_net \<Rightarrow> vrrp \<Rightarrow> vrrp_net \<Rightarrow> bytes \<Rightarrow> bytes \<Rightarrow> bytes \<Rightarrow> bool" where
  "built_ip6 n v n' iph dst p \<longleftrightarrow> (\<exists>e ck.
     n' = n\<lparr>adv_iov := [\<lparr>iov_base = Some e, iov_len = 14\<rparr>, \<lparr>iov_base = Some iph, iov_len = 40\<rparr>,
        \<lparr>iov_base = Some p, iov_len = vrrp_ip6_getsize n\<rparr>]\<rparr>
     \<and> iph = adv_ip6hdr (vrrp_ip6_getsize n) (addr6 (vif_ipx (vif n))) dst \<and> length dst = 16
     \<and> length p = vrrp_ip6_getsize n \<and> p = adv_fixed n v @ ck @ adv_addrs n \<and> length ck = 2
     \<and> vrrp_ip6_chksum n' p None None = Some (h_chksum p))"

lemma init_ip6:
  assumes "conf_ok n v" and "build_os os" and "family n = AF_INET6"
    and "vrrp_adv_init os n v w = Ret (0, n', w')"
  shows "\<exists>iph dst p. built_ip6 n v n' iph dst p \<and> ipx_helper n = Some VRRP_IP6"
proof -
  have h: "ipx_helper n = Some VRRP_IP6"
    using assms(1,3) by (simp add: conf_ok_def conf_base_def vrrp_ipx_set_def)
  show ?thesis
  proof (rule vrrp_adv_init_parts [OF assms(1,2) h, of w], goal_cases)
    case (1 e iph p ck tail)
    then have n': "n' = n\<lparr>adv_iov := [\<lparr>iov_base = Some e, iov_len = 14\<rparr>,
        \<lparr>iov_base = Some iph, iov_len = 40\<rparr>, \<lparr>iov_base = Some p, iov_len = vrrp_ip6_getsize n\<rparr>]\<rparr>"
      using assms(4) by (simp add: iphdr_size_def)
    obtain dst where dst: "length dst = 16"
        "iph = adv_ip6hdr (vrrp_ip6_getsize n) (addr6 (vif_ipx (vif n))) dst"
      using 1(3) by (auto simp: adv_iph_ok_def)
    have "adv_ready n'" using 1(9) n' by (simp add: iphdr_size_def)
    then have "vrrp_ip6_chksum n' p None None = Some (h_chksum p)"
      using n' h by (simp add: adv_ready_def adv_pkt_def)
    then have "built_ip6 n v n' iph dst p"
      unfolding built_ip6_def using 1(4-7) n' dst
      by (intro exI [of _ e] exI [of _ ck]) (simp add: tail_size_def assms(3))
    with h show ?thesis by blast
  qed
qed

lemma built_ip6_iph:
  assumes "built_ip6 n v n' iph dst p" and "length (vif_ipx (vif n)) = 16"
  shows "bslice iph 8 16 = addr6 (vif_ipx (vif n))" "bslice iph 24 16 = dst" "iph ! 7 = 255"
    "length iph = 40" "datagram n' = iph @ p" "iov_base (adv_iov n' ! 1) = Some iph"
    "net_naddr n' = net_naddr n"
  using assms
  by (auto simp: built_ip6_def datagram_def iov_bytes_def adv_ip6hdr_def bslice_def store16_def
      addr6_def nth_append)

text \<open>The receive record after the delivery.\<close>

definition delivered6 :: "vrrp_recv \<Rightarrow> bytes \<Rightarrow> bytes \<Rightarrow> nat \<Rightarrow> vrrp_recv" where
  "delivered6 r sa da sz = r\<lparr>header := \<lparr>hdr_len = 40, hdr_proto = 112, hdr_totlen = int (40 + sz),
     hdr_ttl = 255\<rparr>, s_ipx := sa, d_ipx := da\<rparr>"

lemma built_ip6_delivered:
  assumes "built_ip6 n v n' iph dst p" and "length (vif_ipx (vif n)) = 16"
    and "os_recvmsg os (tick w) = Some m" and "delivery6 (datagram n') m"
  shows "pkt_receive VRRP_IP6 os r w = (int (vrrp_ip6_getsize n),
     delivered6 r (addr6 (vif_ipx (vif n))) dst (vrrp_ip6_getsize n), 0,
     buf_after p (os_stack os (tick w)), syscall w)"
proof -
  note i = built_ip6_iph [OF assms(1,2)]
  have p: "length p = vrrp_ip6_getsize n" using assms(1) by (auto simp: built_ip6_def)
  have slices: "bslice (iph @ p) 8 16 = bslice iph 8 16" "bslice (iph @ p) 24 16 = bslice iph 24 16"
    using i(4) by (simp_all add: bslice_def)
  obtain hop info where m: "rm_data m = p" "addr6 (rm_src m) = addr6 (vif_ipx (vif n))"
      "find_ancillary (rm_cmsgs m) IPV6_HOPLIMIT = Some hop" "load_int hop = 255"
      "find_ancillary (rm_cmsgs m) IPV6_PKTINFO = Some info" "addr6 info = dst"
    using assms(4) i slices by (auto simp: delivery6_def addr6_def nth_append)
  have "take IP_MAXPACKET p = p" using p getsize_bound(2) [of n] by (simp add: IP_MAXPACKET_def)
  then show ?thesis
    using m p by (simp add: vrrp_ip6_recv_def assms(3) delivered6_def IPPROTO_VRRP_def)
qed

section \<open>Acceptance\<close>

lemma ip6_chksum_agrees:
  assumes "net_naddr m = net_naddr n" and "iov_base (adv_iov n ! 1) = Some iph"
    and "bslice iph 8 16 = addr6 s" and "bslice iph 24 16 = addr6 d"
  shows "vrrp_ip6_chksum m p (Some s) (Some d) = vrrp_ip6_chksum n p None None"
  using assms by (simp add: vrrp_ip6_chksum_def Let_def vrrp_ip6_getsize_def)

lemma built_ip6_acceptable:
  assumes n: "built_ip6 n v n' iph dst p" and m: "net_naddr m = naddr v"
    and conf: "conf_ok n v" and grp: "same_group6 n v m u"
    and own: "priority u \<noteq> PRIO_OWNER" and na: "0 < unat (naddr v)" "unat (naddr v) \<le> 64"
    and mtu: "int (vrrp_ip6_getsize n) \<le> mtu (vif m)"
  shows "rfc_acceptable VRRP_IP6 m u (int (vrrp_ip6_getsize n))
     (delivered6 r (addr6 (vif_ipx (vif n))) dst (vrrp_ip6_getsize n)) (p @ q)"
proof -
  let ?sz = "vrrp_ip6_getsize n" let ?R = "delivered6 r (addr6 (vif_ipx (vif n))) dst ?sz"
  obtain ck where p: "length p = ?sz" "p = adv_fixed n v @ ck @ adv_addrs n" "length ck = 2"
      "length dst = 16" "vrrp_ip6_chksum n' p None None = Some (h_chksum p)"
    using n by (auto simp: built_ip6_def)
  have g: "version u = version v" "vrid u = vrid v" "adv_int u = adv_int v" "unat (adv_int v) < 256"
    "version v = 3"
    using grp by (simp_all add: same_group6_def)
  have c: "net_naddr n = naddr v" "net_vrid n = vrid v" "length (vif_ipx (vif n)) = 16"
    using conf by (auto simp: conf_ok_def conf_base_def)
  have pq: "p @ q = adv_fixed n v @ (ck @ adv_addrs n @ q)" using p(2) by simp
  note f = advert_fields [OF pq disjI2 [OF g(5)]] and i = built_ip6_iph [OF n c(3)]
  have nm: "net_naddr m = net_naddr n'" using c m i(7) by simp
  have szm: "vrrp_ip6_getsize m = ?sz" using nm i(7) by (simp add: vrrp_ip6_getsize_def)
  have "h_chksum (p @ q) = h_chksum p"
    using p(2,3) by (simp add: h_defs load16_def nth_append)
  moreover have "vrrp_ip6_chksum m (p @ q) (Some (s_ipx ?R)) (Some (d_ipx ?R))
      = vrrp_ip6_chksum m p (Some (s_ipx ?R)) (Some (d_ipx ?R))"
    using p(1) szm by (intro ip6.chksum_prefix) simp
  moreover have "\<dots> = vrrp_ip6_chksum n' p None None"
    using i p(4) by (intro ip6_chksum_agrees [OF nm i(6)]) (simp_all add: delivered6_def addr6_def)
  ultimately have sum: "vrrp_ip6_chksum m (p @ q) (Some (s_ipx ?R)) (Some (d_ipx ?R)) = Some (h_chksum (p @ q))"
    using p(5) by simp
  have sz: "12 \<le> ?sz" "?sz \<le> 1036" using na c(1) by (simp_all add: vrrp_ip6_getsize_def size_defs)
  have hd: "header ?R = \<lparr>hdr_len = 40, hdr_proto = 112, hdr_totlen = int (40 + ?sz), hdr_ttl = 255\<rparr>"
    by (simp add: delivered6_def)
  show ?thesis
    using f(1-5) g c(2) own mtu szm sz by (simp add: rfc_acceptable_def sum hd)
qed

lemma recv_built_ip6:
  assumes n: "built_ip6 n v n' iph dst p" and m: "ipx_helper m = Some VRRP_IP6" "net_naddr m = naddr v"
    and conf: "conf_ok n v" and grp: "same_group6 n v m u"
    and own: "priority u \<noteq> PRIO_OWNER" and na: "0 < unat (naddr v)" "unat (naddr v) \<le> 64"
    and mtu: "int (vrrp_ip6_getsize n) \<le> mtu (vif m)"
    and data: "os_recvmsg os (tick w) = Some rm" "delivery6 (datagram n') rm"
  shows "\<exists>r. vrrp_net_recv os m u w = Ret (PKT, m\<lparr>pkt := r\<rparr>, syscall w)
     \<and> vrrp_adv_get_priority (m\<lparr>pkt := r\<rparr>) = uint (priority v)
     \<and> vrrp_adv_get_advint (m\<lparr>pkt := r\<rparr>) = adv_int v
     \<and> s_ipx r = vif_ipx (vif n)"
proof -
  have c: "length (vif_ipx (vif n)) = 16" "net_naddr n = naddr v" and ver: "version v = 3"
    using conf grp by (auto simp: conf_ok_def conf_base_def same_group6_def)
  let ?sz = "vrrp_ip6_getsize n" and ?sa = "addr6 (vif_ipx (vif n))"
  note rcv = built_ip6_delivered [OF n c(1) data, of "pkt m"]
  have p: "length p = ?sz" "8 \<le> length p" using n by (auto simp: built_ip6_def)
  have "length p \<le> recv_span VRRP_IP6 m u"
    using p(1) span_getsize [of VRRP_IP6 m u] m(2) c(2) by (simp add: vrrp_ip6_getsize_def)
  then obtain q where win: "window (buf_after p (os_stack os (tick w))) 0 (recv_span VRRP_IP6 m u) = p @ q"
    using window_buf_after [of "[]" 0 p "recv_span VRRP_IP6 m u" "os_stack os (tick w)"] by auto
  let ?r = "(delivered6 (pkt m) ?sa dst ?sz)\<lparr>adv := take 8 (p @ q)\<rparr>"
  have "vrrp_net_recv os m u w = Ret (PKT, m\<lparr>pkt := ?r\<rparr>, syscall w)"
    using built_ip6_acceptable [OF n m(2) conf grp own na mtu]
    by (subst vrrp_net_recv_PKT_iff [OF m(1) rcv _ win [symmetric]]) simp_all
  moreover obtain rest where "take 8 (p @ q) = adv_fixed n v @ rest"
    using n p(2) by (auto simp: built_ip6_def)
  ultimately show ?thesis
    using advert_fields [of "take 8 (p @ q)" n v rest] c(1) ver
    by (intro exI [of _ ?r])
      (auto simp: vrrp_adv_get_priority_def vrrp_adv_get_advint_def delivered6_def addr6_def)
qed

text \<open>
  C4. Round trip over IPv6: the datagram an instance with 1 to 64 addresses builds at start-up is
  accepted by every peer of the group that is not the owner, which reads from it the
  sender's priority, its advertisement interval and its address.
\<close>
theorem advert_roundtrip_ip6:
  assumes "conf_ok n v" and "build_os os" and "vrrp_adv_init os n v w = Ret (0, n', w')"
    and "conf_ok m u" and "vrrp_adv_init os m u w2 = Ret (0, m', w2')"
    and "same_group6 n v m u" and "family n = AF_INET6" and "priority u \<noteq> PRIO_OWNER"
    and "0 < unat (naddr v)" and "unat (naddr v) \<le> 64" and "int (vrrp_ip6_getsize n) \<le> mtu (vif m)"
    and "os_recvmsg os2 (tick w3) = Some rm" and "delivery6 (datagram n') rm"
  shows "\<exists>k. vrrp_net_recv os2 m' u w3 = Ret (PKT, k, syscall w3)
     \<and> vrrp_adv_get_priority k = uint (priority v) \<and> vrrp_adv_get_advint k = adv_int v
     \<and> s_ipx (pkt k) = vif_ipx (vif n)"
proof -
  obtain iph dst p where n: "built_ip6 n v n' iph dst p" using init_ip6 [OF assms(1,2,7,3)] by blast
  have "family m = AF_INET6" using assms(6,7) by (simp add: same_group6_def)
  then obtain iph' dst' p' where m: "built_ip6 m u m' iph' dst' p'" "ipx_helper m = Some VRRP_IP6"
    using init_ip6 [OF assms(4,2) _ assms(5)] by blast
  have m': "ipx_helper m' = Some VRRP_IP6" "net_naddr m' = naddr v" "vif m' = vif m" "same_group6 n v m' u"
    using m assms(4,6) by (auto simp: built_ip6_def same_group6_def conf_ok_def conf_base_def)
  have "int (vrrp_ip6_getsize n) \<le> mtu (vif m')" using assms(11) m'(3) by simp
  from recv_built_ip6 [OF n m'(1,2) assms(1) m'(4) assms(8-10) this assms(12,13)]
  show ?thesis by fastforce
qed

section \<open>Example\<close>

definition vnet6 :: vrrp_net where
  "vnet6 = vnet0\<lparr>family := AF_INET6, ipx_helper := Some VRRP_IP6,
     vif := (vif vnet0)\<lparr>vif_ipx := replicate 15 2 @ [1]\<rparr>,
     vip_list := [\<lparr>ipx = replicate 16 3, netmask = 64, topology = []\<rparr>]\<rparr>"

definition rm6 :: "bytes \<Rightarrow> recvmsg_result" where
  "rm6 dg = \<lparr>rm_src = bslice dg 8 16, rm_data = drop 40 dg,
     rm_cmsgs = [(IPPROTO_IPV6, IPV6_HOPLIMIT, [dg ! 7, 0, 0, 0]),
                 (IPPROTO_IPV6, IPV6_PKTINFO, bslice dg 24 16 @ [2, 0, 0, 0])]\<rparr>"

lemma conf_ok_vnet6: "conf_ok vnet6 vrrp0" "same_group6 vnet6 vrrp0 vnet6 vrrp0"
  by (simp_all add: conf_ok_def conf_base_def auth_fits_def vnet6_def vrrp_ipx_set_def example_defs same_group6_def)

theorem advert_roundtrip_ip6_witness:
  "\<exists>n' w' k. vrrp_adv_init quiet_os vnet6 vrrp0 world0 = Ret (0, n', w')
     \<and> vrrp_net_recv (quiet_os\<lparr>os_recvmsg := (\<lambda>_. Some (rm6 (datagram n')))\<rparr>) n' vrrp0 world0
         = Ret (PKT, k, syscall world0)
     \<and> vrrp_adv_get_priority k = 100"
proof -
  have h: "ipx_helper vnet6 = Some VRRP_IP6" and f: "family vnet6 = AF_INET6" by (simp_all add: vnet6_def)
  obtain n' w' where n: "vrrp_adv_init quiet_os vnet6 vrrp0 world0 = Ret (0, n', w')"
    by (rule init_example [OF conf_ok_vnet6(1) h])
  obtain iph dst p where b: "built_ip6 vnet6 vrrp0 n' iph dst p"
    using init_ip6 [OF conf_ok_vnet6(1) conf_ok_examples(2) f n] by blast
  have i: "length iph = 40" "iph ! 7 = 255" "datagram n' = iph @ p"
    using built_ip6_iph [OF b] by (simp_all add: vnet6_def)
  then have "delivery6 (datagram n') (rm6 (datagram n'))"
    by (simp add: delivery6_def rm6_def bslice_def IPPROTO_IPV6_def IPV6_HOPLIMIT_def IPV6_PKTINFO_def
        load_int_def be32_def nth_append)
  then show ?thesis
    using advert_roundtrip_ip6 [OF conf_ok_vnet6(1) conf_ok_examples(2) n conf_ok_vnet6(1) n conf_ok_vnet6(2) f,
        of "quiet_os\<lparr>os_recvmsg := (\<lambda>_. Some (rm6 (datagram n')))\<rparr>" world0 "rm6 (datagram n')"] n
    by (force simp: vnet6_def example_defs PRIO_OWNER_def vrrp_ip6_getsize_def size_defs)
qed

end
