(* ===== verification/Vrrp_Steady.thy ===== *)
theory Vrrp_Steady
  imports Vrrp_Machine Vrrp_Roundtrip6
begin

text \<open>
  The advertisement of a running instance.  The packet is built once (\<open>vrrp_adv_init\<close>) and later only
  its priority is rewritten, by a command on the fifo (\<open>vrrp_adv_set_priority\<close>) and for the moment of a resignation
  (\<open>vrrp_adv_send_zero\<close>).  \<open>advertises n v\<close> says that the send buffers hold, byte for byte, the advertisement of
  the current configuration and priority; every step of the daemon keeps it.
\<close>

section \<open>The content of the send buffers\<close>

definition carries :: "vrrp_net \<Rightarrow> vrrp \<Rightarrow> bool" where
  "carries n v \<longleftrightarrow> adv_ready n \<and> (\<exists>h os e iph p ck tail. ipx_helper n = Some h
     \<and> adv_iov n = [\<lparr>iov_base = Some e, iov_len = 14\<rparr>, \<lparr>iov_base = Some iph, iov_len = iphdr_size h\<rparr>,
         \<lparr>iov_base = Some p, iov_len = adv_getsize h n\<rparr>]
     \<and> adv_iph_ok os h n iph \<and> p = adv_fixed n v @ ck @ adv_addrs n @ tail \<and> length ck = 2
     \<and> length tail = tail_size (family n) \<and> auth_placed v tail)"

definition advertises :: "vrrp_net \<Rightarrow> vrrp \<Rightarrow> bool" where
  "advertises n v \<longleftrightarrow> conf_ok n v \<and> carries n v"

text \<open>The configuration of an instance, which no step changes.\<close>

definition same_conf :: "vrrp \<Rightarrow> vrrp \<Rightarrow> bool" where
  "same_conf v v' \<longleftrightarrow> version v' = version v \<and> vrid v' = vrid v \<and> naddr v' = naddr v \<and> adv_int v' = adv_int v
     \<and> auth_type v' = auth_type v \<and> auth_data v' = auth_data v"

lemma same_conf_refl [simp]: "same_conf v v"
  by (simp add: same_conf_def)

lemma same_conf_trans [trans]: "same_conf a b \<Longrightarrow> same_conf b c \<Longrightarrow> same_conf a c"
  by (simp add: same_conf_def)

lemma conf_ok_cong:
  assumes "same_conf v v'"
  shows "conf_ok n v' = conf_ok n v"
  using assms by (auto simp: same_conf_def conf_ok_def conf_base_def auth_fits_def)

lemma auth_placed_cong: "same_conf v v' \<Longrightarrow> auth_placed v' tail = auth_placed v tail"
  by (simp add: same_conf_def auth_placed_def)

lemma adv_fixed_cong: "same_conf v v' \<Longrightarrow> priority v' = priority v \<Longrightarrow> adv_fixed n v' = adv_fixed n v"
  by (simp add: same_conf_def adv_fixed_def)

lemma auth_fits_upd [simp]:
  "auth_fits (n\<lparr>vip_list := vs\<rparr>) v = auth_fits n v" "auth_fits (n\<lparr>pkt := r\<rparr>) v = auth_fits n v"
  "auth_fits (set_adv_pkt p n) v = auth_fits n v"
  by (simp_all add: auth_fits_def split: option.split)

lemma adv_iph_ok_cong:
  "adv_getsize h n' = adv_getsize h n \<Longrightarrow> vif n' = vif n \<Longrightarrow> adv_iph_ok os h n' iph = adv_iph_ok os h n iph"
  by (cases h) (simp_all add: adv_iph_ok_def)

text \<open>Set-up establishes it: the packet of \<open>vrrp_adv_init\<close>, and addresses whose own packets are then prepared.\<close>

lemma init_carries:
  assumes "conf_ok n v" and "build_os os" and "vrrp_adv_init os n v w = Ret (0, n1, w1)"
    and "map ipx vs = map ipx (vip_list n)"
  shows "advertises (n1\<lparr>vip_list := vs\<rparr>) v"
proof -
  obtain h where h: "ipx_helper n = Some h" using assms(1) by (auto simp: conf_ok_def conf_base_def vrrp_ipx_set_def)
  have bytes: "map (vip_bytes f) (rev vs) = map (vip_bytes f) (rev (vip_list n))" for f
  proof -
    have v: "vip_bytes f = (\<lambda>a. if f = AF_INET then addr4 a else addr6 a) \<circ> ipx"
      by (rule ext) (simp add: vip_bytes_def)
    have "map ipx (rev vs) = map ipx (rev (vip_list n))" using assms(4) by (simp only: rev_map [symmetric])
    then show ?thesis unfolding v by (simp only: map_map [symmetric])
  qed
  have len: "list_all (\<lambda>vip. length (ipx vip) = 16) vs" "length vs = length (vip_list n)"
  proof -
    have "list_all (\<lambda>a. length a = 16) (map ipx vs) = list_all (\<lambda>a. length a = 16) (map ipx (vip_list n))"
      using assms(4) by simp
    then show "list_all (\<lambda>vip. length (ipx vip) = 16) vs"
      using assms(1) by (simp add: list.pred_map comp_def conf_ok_def conf_base_def)
    show "length vs = length (vip_list n)" using assms(4) by (rule map_eq_imp_length_eq)
  qed
  show ?thesis
  proof (rule vrrp_adv_init_parts [OF assms(1,2) h, of w], goal_cases)
    case (1 e iph p ck tail)
    let ?iov = "[\<lparr>iov_base = Some e, iov_len = 14\<rparr>, \<lparr>iov_base = Some iph, iov_len = iphdr_size h\<rparr>,
        \<lparr>iov_base = Some p, iov_len = adv_getsize h n\<rparr>]"
    have n1: "n1 = n\<lparr>adv_iov := ?iov\<rparr>" using 1(1) assms(3) by simp
    let ?n = "n\<lparr>adv_iov := ?iov, vip_list := vs\<rparr>"
    have "conf_ok ?n v" using assms(1) len by (auto simp: conf_ok_def conf_base_def)
    moreover have "adv_ready ?n" using 1(9) adv_ready_vips by blast
    moreover have "adv_getsize h ?n = adv_getsize h n"
      by (cases h) (simp_all add: vrrp_ip4_getsize_def vrrp_ip6_getsize_def)
    moreover from this have "adv_iph_ok os h ?n iph" using 1(3) adv_iph_ok_cong [of h ?n n] by simp
    moreover have "p = adv_fixed ?n v @ ck @ adv_addrs ?n @ tail"
      using 1(5) bytes by (simp add: adv_fixed_def adv_addrs_def)
    ultimately show ?thesis
      unfolding n1 advertises_def carries_def using 1(6-8) h
      by (intro conjI exI [of _ h] exI [of _ os] exI [of _ e] exI [of _ iph] exI [of _ p] exI [of _ ck]
          exI [of _ tail]) simp_all
  qed
qed

section \<open>What keeps it\<close>

lemma carries_pkt:
  assumes "carries n v" and "same_conf v v'" and "priority v' = priority v"
  shows "carries (n\<lparr>pkt := r\<rparr>) v'"
proof -
  obtain h os e iph p ck tail where c: "ipx_helper n = Some h"
     "adv_iov n = [\<lparr>iov_base = Some e, iov_len = 14\<rparr>, \<lparr>iov_base = Some iph, iov_len = iphdr_size h\<rparr>,
         \<lparr>iov_base = Some p, iov_len = adv_getsize h n\<rparr>]"
     "adv_iph_ok os h n iph" "p = adv_fixed n v @ ck @ adv_addrs n @ tail" "length ck = 2"
     "length tail = tail_size (family n)" "auth_placed v tail"
    using assms(1) unfolding carries_def by blast
  have sz: "adv_getsize h (n\<lparr>pkt := r\<rparr>) = adv_getsize h n"
    by (cases h) (simp_all add: vrrp_ip4_getsize_def vrrp_ip6_getsize_def)
  have "adv_ready (n\<lparr>pkt := r\<rparr>)"
    using assms(1) sz by (simp add: carries_def adv_ready_def adv_pkt_def c(1) cong: option.case_cong)
  moreover have "adv_iph_ok os h (n\<lparr>pkt := r\<rparr>) iph" using c(3) adv_iph_ok_cong [OF sz] by simp
  moreover have "adv_fixed (n\<lparr>pkt := r\<rparr>) v' = adv_fixed n v" "adv_addrs (n\<lparr>pkt := r\<rparr>) = adv_addrs n"
    using adv_fixed_cong [OF assms(2,3), of n] by (simp_all add: adv_fixed_def adv_addrs_def)
  moreover have "auth_placed v' tail" using c(7) auth_placed_cong [OF assms(2)] by simp
  ultimately show ?thesis
    unfolding carries_def using c(1,2,4-6) sz
    by (intro conjI exI [of _ h] exI [of _ os] exI [of _ e] exI [of _ iph] exI [of _ p] exI [of _ ck]
        exI [of _ tail]) simp_all
qed

lemma advertises_pkt:
  assumes "advertises n v" and "same_conf v v'" and "priority v' = priority v"
  shows "advertises (n\<lparr>pkt := r\<rparr>) v'"
proof -
  have "conf_ok (n\<lparr>pkt := r\<rparr>) v" using assms(1) by (simp add: advertises_def conf_ok_def conf_base_def)
  then show ?thesis
    using assms carries_pkt [OF _ assms(2,3)] conf_ok_cong [OF assms(2)] by (auto simp: advertises_def)
qed

lemma advertises_conf:
  assumes "advertises n v" and "same_conf v v'" and "priority v' = priority v"
  shows "advertises n v'"
  using advertises_pkt [OF assms, of "pkt n"] by simp

lemma reprio_fixed:
  assumes "p = adv_fixed n v @ ck @ r" and "length ck = 2"
  shows "reprio x c p = adv_fixed n (v\<lparr>priority := x\<rparr>) @ store16 c @ r"
proof -
  obtain a b where "ck = [a, b]" using assms(2) by (auto simp: numeral_2_eq_2 length_Suc_conv)
  then show ?thesis using assms(1) by (simp add: reprio_def h_defs adv_fixed_def store16_def)
qed

text \<open>A command that changes the priority rewrites the packet to the advertisement of the new priority.\<close>

lemma advertises_prio:
  assumes "advertises n v" and "vrrp_adv_set_priority n x = Ret n'" and "same_conf v v'" and "priority v' = x"
  shows "advertises n' v'"
proof -
  obtain h os e iph p ck tail where c: "ipx_helper n = Some h"
     "adv_iov n = [\<lparr>iov_base = Some e, iov_len = 14\<rparr>, \<lparr>iov_base = Some iph, iov_len = iphdr_size h\<rparr>,
         \<lparr>iov_base = Some p, iov_len = adv_getsize h n\<rparr>]"
     "adv_iph_ok os h n iph" "p = adv_fixed n v @ ck @ adv_addrs n @ tail" "length ck = 2"
     "length tail = tail_size (family n)" "auth_placed v tail"
    using assms(1) unfolding advertises_def carries_def by blast
  have rdy: "adv_ready n" using assms(1) by (simp add: advertises_def carries_def)
  have pk: "adv_pkt n = Some p" using c(2) by (simp add: adv_pkt_def)
  have wf: "net_wf h n" "length p = adv_getsize h n"
    using adv_ready_wf [OF rdy] c(1) pk by (metis option.inject)+
  obtain k where k: "adv_checksum h n (set_h_priority x p) None None = Some k"
      "adv_checksum h n (reprio x k p) None None = Some k"
    using reprio_seals [OF wf] by blast
  have n': "n' = set_adv_pkt (reprio x k p) n"
    using assms(2) by (simp add: vrrp_adv_set_priority_def pk c(1) Let_def k(1) reprio_def)
  have p8: "8 \<le> length p" using wf(2) tab.size_min [of h n] by (simp add: size_defs)
  have "adv_ready n'"
    unfolding n' using rdy c(1) wf(2) k(2) reprio_layout(2,3) [OF p8] by (simp add: adv_ready_set_adv_pkt)
  moreover have fields: "ipx_helper n' = Some h" "adv_getsize h n' = adv_getsize h n" "vif n' = vif n"
    "family n' = family n" "adv_addrs n' = adv_addrs n" "net_vrid n' = net_vrid n"
    unfolding n' using c(1) by (simp_all add: adv_addrs_def) (simp add: set_adv_pkt_def)
  moreover have "adv_iph_ok os h n' iph" using c(3) adv_iph_ok_cong [OF fields(2,3)] by simp
  moreover have "adv_iov n' = [\<lparr>iov_base = Some e, iov_len = 14\<rparr>, \<lparr>iov_base = Some iph, iov_len = iphdr_size h\<rparr>,
         \<lparr>iov_base = Some (reprio x k p), iov_len = adv_getsize h n\<rparr>]"
    unfolding n' using c(2) by (simp add: set_adv_pkt_def numeral_2_eq_2)
  moreover have "reprio x k p = adv_fixed n' v' @ store16 k @ adv_addrs n @ tail"
    using reprio_fixed [OF c(4,5), of x k] adv_fixed_cong [of "v\<lparr>priority := x\<rparr>" v'] assms(3,4) fields(6)
    by (simp add: same_conf_def adv_fixed_def)
  ultimately have "carries n' v'"
    unfolding carries_def using c(6,7) auth_placed_cong [OF assms(3)] fields
    by (intro conjI exI [of _ h] exI [of _ os] exI [of _ e] exI [of _ iph] exI [of _ "reprio x k p"]
        exI [of _ "store16 k"] exI [of _ tail]) simp_all
  moreover have "conf_ok n' v"
    using assms(1) unfolding n' by (simp add: advertises_def conf_ok_def conf_base_def) (simp add: set_adv_pkt_def)
  ultimately show ?thesis using conf_ok_cong [OF assms(3)] by (simp add: advertises_def)
qed

section \<open>Every step keeps it\<close>

text \<open>The handlers change neither the configuration nor the priority nor the send buffers.\<close>

definition still :: "vrrp \<Rightarrow> vrrp \<Rightarrow> bool" where
  "still v v' \<longleftrightarrow> same_conf v v' \<and> priority v' = priority v"

lemma still_upd [simp]:
  "still v v" "still v (v'\<lparr>state := s\<rparr>) = still v v'" "still v (v'\<lparr>argv := a\<rparr>) = still v v'"
  "still v (v'\<lparr>master_adv_int := m\<rparr>) = still v v'" "still v (v'\<lparr>adv_timer := t\<rparr>) = still v v'"
  "still v (v'\<lparr>masterdown_timer := t\<rparr>) = still v v'" "still v (v'\<lparr>ctrl := k\<rparr>) = still v v'"
  by (simp_all add: still_def same_conf_def)

lemma still_exec:
  assumes "vrrp_exec os v n st w = Ret (r, v', w')"
  shows "\<exists>a. v' = v\<lparr>argv := a\<rparr>"
proof -
  let ?s = "case scriptname v of None \<Rightarrow> os_script os | Some s \<Rightarrow> s"
  obtain ok w0 where x: "is_file_executable os ?s w = (ok, w0)" by fastforce
  show ?thesis
  proof (cases ok)
    case False
    then have "v' = v\<lparr>argv := argv v\<rparr>" using assms x by (simp add: vrrp_exec_def)
    then show ?thesis by blast
  next
    case True
    then show ?thesis
      using assms x
      by (cases "os_fork os (tick (snd (uvrrpd_sched_unset os w0)))")
        (auto simp: vrrp_exec_def vrrp_exec_cleanup_def Let_def bind_run_Ret_iff split: option.splits)
  qed
qed

lemma still_timers [simp]:
  "still v (fst (VRRP_SET_ADV_TIMER os u w)) = still v u"
  "still v (fst (VRRP_SET_MASTERDOWN_TIMER os u w)) = still v u"
  "still v (fst (VRRP_SET_SKEW_TIME os u w)) = still v u"
  "still v (fst (VRRP_SET_STARTDELAY_TIMER os u w)) = still v u"
  by (simp_all add: VRRP_SET_ADV_TIMER_def VRRP_SET_MASTERDOWN_TIMER_def VRRP_SET_SKEW_TIME_def
      VRRP_SET_STARTDELAY_TIMER_def case_prod_beta)

lemma still_goto_master:
  "vrrp_state_goto_master os v n w = Ret (v', n', w') \<Longrightarrow> still v v' \<and> n' = n"
  by (auto simp: vrrp_state_goto_master_def Let_def bind_run_Ret_iff case_prod_beta dest!: still_exec)

lemma still_goto_backup:
  "vrrp_state_goto_backup os v n w = Ret (v', n', w') \<Longrightarrow> still v v' \<and> n' = n"
  by (auto simp: vrrp_state_goto_backup_def Let_def bind_run_Ret_iff case_prod_beta
      split: if_splits dest!: still_exec)

lemma still_init:
  assumes "vrrp_state_init os v n w = Ret (v', n', w')"
  shows "still v v' \<and> n' = n"
proof -
  obtain r v1 w1 where e: "vrrp_exec os v n INIT w = Ret (r, v1, w1)"
    and g: "(if priority v1 = 255 then vrrp_state_goto_master os (v1\<lparr>master_adv_int := adv_int v1\<rparr>) n w1
        else vrrp_state_goto_backup os (v1\<lparr>master_adv_int := adv_int v1\<rparr>) n w1) = Ret (v', n', w')"
    using assms by (auto simp: vrrp_state_init_def bind_run_Ret_iff Let_def)
  have "still (v1\<lparr>master_adv_int := adv_int v1\<rparr>) v' \<and> n' = n"
    using g still_goto_master still_goto_backup by (cases "priority v1 = 255") auto
  then show ?thesis using still_exec [OF e] by (auto simp: still_def same_conf_def)
qed

lemma still_backup:
  "backup_pkt os v n w = Ret (v', n', w') \<Longrightarrow> still v v' \<and> n' = n"
  "backup_ctrl v n w = Ret (v', n', w') \<Longrightarrow> still v v' \<and> n' = n"
  by (auto simp: backup_pkt_def backup_ctrl_def Let_def case_prod_beta split: if_splits)

lemma still_master:
  "master_advertise os v n w = Ret (v', n', w') \<Longrightarrow> still v v' \<and> n' = n"
  "master_pkt os v n w = Ret (v', n', w') \<Longrightarrow> still v v' \<and> n' = n"
proof -
  show adv: "master_advertise os v n w = Ret (v', n', w') \<Longrightarrow> still v v' \<and> n' = n"
    by (auto simp: master_advertise_def bind_run_Ret_iff case_prod_beta)
  show "master_pkt os v n w = Ret (v', n', w') \<Longrightarrow> still v v' \<and> n' = n"
    using adv by (auto simp: master_pkt_def bind_run_Ret_iff split: if_splits dest!: still_goto_backup)
qed

lemma still_master_ctrl:
  assumes "inst_wf v n" and "master_ctrl os v n w = Ret (v', n', w')"
  shows "still v v' \<and> n' = n"
proof -
  have "n1 = n" if "vrrp_adv_send_zero os n x = Ret (s, n1, y)" for x s n1 y
    using vrrp_adv_send_zero_effect [OF assms(1), of os x] that by auto
  then show ?thesis
    using assms(2) by (fastforce simp: master_ctrl_def Let_def bind_run_Ret_iff case_prod_beta
        split: if_splits dest!: still_exec)
qed

lemma advertises_still: "advertises n v \<Longrightarrow> still v v' \<Longrightarrow> advertises n v'"
  using advertises_conf by (simp add: still_def)

text \<open>Waiting for an event.\<close>

lemma advertises_ctrl_prio:
  assumes "advertises n v" and "ctrl_prio nw m ws v n w = Ret (e, v', n', w')"
  shows "advertises n' v'"
proof (cases "nw = 2")
  case True
  let ?v = "v\<lparr>ctrl := vrrp_ctrl_cmd_flush (ctrl v)\<rparr>"
  have still: "advertises n ?v" using advertises_still [OF assms(1)] by simp
  obtain s where s: "run_opt (word_at m (ws ! 1)) = Ret s"
    using assms(2) True by (auto simp: ctrl_prio_def Let_def bind_run_Ret_iff)
  show ?thesis
  proof (cases "mystrtoul (takeWhile (\<lambda>c. c \<noteq> NUL) s) VRRP_PRIO_MAX")
    case (Inl x)
    then show ?thesis using assms(2) True s still by (simp add: ctrl_prio_def Let_def)
  next
    case (Inr x)
    show ?thesis
    proof (cases "priority v = of_nat x")
      case True
      then show ?thesis using assms(2) \<open>nw = 2\<close> s Inr still by (simp add: ctrl_prio_def Let_def)
    next
      case False
      then have "vrrp_adv_set_priority n (of_nat x) = Ret n'" "v' = ?v\<lparr>priority := of_nat x\<rparr>"
        using assms(2) \<open>nw = 2\<close> s Inr by (auto simp: ctrl_prio_def Let_def bind_run_Ret_iff)
      then show ?thesis using advertises_prio [OF assms(1)] by (simp add: same_conf_def)
    qed
  qed
next
  case False
  then have "n' = n" "v' = v\<lparr>ctrl := vrrp_ctrl_cmd_flush (ctrl v)\<rparr>" using assms(2) by (simp_all add: ctrl_prio_def Let_def)
  then show ?thesis using advertises_still [OF assms(1)] by simp
qed

lemma advertises_ctrl_read:
  assumes "advertises n v" and "vrrp_ctrl_read os v n w = Ret (e, v', n', w')"
  shows "advertises n' v'"
proof -
  have cmd: "advertises n' v'" if "vrrp_ctrl_cmd u n x = Ret (e, v', n', w')" "still v u" for u x
  proof -
    have u: "advertises n (u\<lparr>ctrl := k\<rparr>)" for k using advertises_still [OF assms(1), of "u\<lparr>ctrl := k\<rparr>"] that(2) by simp
    then show ?thesis
      using that(1) advertises_ctrl_prio [OF u]
      by (auto simp: vrrp_ctrl_cmd_def Let_def bind_run_Ret_iff case_prod_beta split: if_splits)
  qed
  then show ?thesis
    using assms by (auto simp: vrrp_ctrl_read_def Let_def split: fifo_read.splits if_splits option.splits prod.splits)
qed

lemma advertises_listen:
  assumes "advertises n v" and "inst_wf v n" and "os_ok os" and "vrrp_listen os v n w = Ret (e, v', n', w')"
  shows "advertises n' v'"
proof -
  have put: "still v (put_timer vt t u) = still v u" for vt t u by (cases vt) (simp_all add: put_timer_def)
  have wf: "inst_wf (put_timer vt t u) n = inst_wf u n" for vt t u by (cases vt) (simp_all add: put_timer_def)
  have recv: "advertises n' u" if r: "vrrp_net_recv os n u x = Ret (e, n', w')" and st: "still v u" and wf: "inst_wf u n" for u x
  proof -
    obtain r where "n' = n\<lparr>pkt := r\<rparr>"
      using vrrp_net_recv_classifies [of n u os x] r wf os_okD(5) [OF assms(3)] by (auto simp: inst_wf_def)
    then show ?thesis using advertises_pkt [OF assms(1)] st by (simp add: still_def)
  qed
  have cmd: "advertises n' v'" if "vrrp_ctrl_read os u n x = Ret (e, v', n', w')" "still v u" for u x
    using advertises_ctrl_read [OF advertises_still [OF assms(1) that(2)] that(1)] .
  show ?thesis
    using assms(4) recv advertises_still [OF assms(1)] cmd assms(2)
    by (auto simp: vrrp_listen_def Let_def bind_run_Ret_iff put wf case_prod_beta
        split: option.splits if_splits pselect_result.splits)
qed

text \<open>A whole step.\<close>

lemma advertises_backup:
  assumes "advertises n v" and "inst_wf v n" and "os_ok os" and "vrrp_state_backup os v n w = Ret (e, v', n', w')"
  shows "advertises n' v'"
proof -
  obtain v1 n1 w1 where l: "vrrp_listen os v n w = Ret (e, v1, n1, w1)"
    and h: "(case e of TIMER \<Rightarrow> vrrp_state_goto_master os v1 n1 w1 | PKT \<Rightarrow> backup_pkt os v1 n1 w1
         | SIGNAL \<Rightarrow> backup_ctrl v1 n1 w1 | CTRL_FIFO \<Rightarrow> backup_ctrl v1 n1 w1 | VRID_MISMATCH \<Rightarrow> Ret (v1, n1, w1)
         | INVALID \<Rightarrow> bind_run (vrrp_adv_addr_to_str os n1) (\<lambda>_. Ret (v1, n1, w1))) = Ret (v', n', w')"
    using assms(4) by (auto simp: vrrp_state_backup_def bind_run_Ret_iff)
  have a: "advertises n1 v1" using advertises_listen [OF assms(1-3) l] .
  have "still v1 v' \<and> n' = n1"
    using h still_goto_master still_backup by (cases e) (auto simp: bind_run_Ret_iff)
  then show ?thesis using advertises_still [OF a] by simp
qed

lemma advertises_master:
  assumes "advertises n v" and "inst_wf v n" and "os_ok os" and "timers_ok v" and "state v = MASTER"
    and "vrrp_state_master os v n w = Ret (e, v', n', w')"
  shows "advertises n' v'"
proof -
  obtain v1 n1 w1 where l: "vrrp_listen os v n w = Ret (e, v1, n1, w1)"
    and h: "(case e of TIMER \<Rightarrow> master_advertise os v1 n1 w1 | PKT \<Rightarrow> master_pkt os v1 n1 w1
         | SIGNAL \<Rightarrow> master_ctrl os v1 n1 w1 | CTRL_FIFO \<Rightarrow> master_ctrl os v1 n1 w1 | VRID_MISMATCH \<Rightarrow> Ret (v1, n1, w1)
         | INVALID \<Rightarrow> Ret (v1, n1, w1)) = Ret (v', n', w')"
    using assms(6) by (auto simp: vrrp_state_master_def bind_run_Ret_iff)
  have a: "advertises n1 v1" using advertises_listen [OF assms(1-3) l] .
  have wf: "inst_wf v1 n1" using listen_obtains [OF assms(2-4), of w] assms(5) l by auto
  have "still v1 v' \<and> n' = n1"
    using h still_master still_master_ctrl [OF wf] by (cases e) auto
  then show ?thesis using advertises_still [OF a] by simp
qed

lemma advertises_process:
  assumes "advertises n v" and "inst_wf v n" and "os_ok os" and "timers_ok v"
    and "vrrp_process os v n w = Ret (r, v', n', w')"
  shows "advertises n' v'"
proof -
  obtain v1 n1 w1 where 1: "(case state v of INIT \<Rightarrow> vrrp_state_init os v n w
       | BACKUP \<Rightarrow> bind_run (vrrp_state_backup os v n w) (\<lambda>(e, r). Ret r)
       | MASTER \<Rightarrow> bind_run (vrrp_state_master os v n w) (\<lambda>(e, r). Ret r)) = Ret (v1, n1, w1)"
    and d: "dumped (v1, n1, w1) = (r, v', n', w')"
    using assms(5) unfolding vrrp_process_cases by (auto simp: bind_run_Ret_iff)
  have same: "v' = v1" "n' = n1" using d by (auto simp: dumped_def split: prod.splits)
  show ?thesis
  proof (cases "state v")
    case INIT
    then have "still v v1" "n1 = n" using 1 still_init [of os v n w v1 n1 w1] by simp_all
    then show ?thesis using advertises_still [OF assms(1)] same by simp
  next
    case BACKUP
    then show ?thesis using 1 advertises_backup [OF assms(1-3)] same by (auto simp: bind_run_Ret_iff)
  next
    case MASTER
    then show ?thesis using 1 advertises_master [OF assms(1-4) MASTER] same by (auto simp: bind_run_Ret_iff)
  qed
qed

section \<open>As a packet on the wire\<close>

lemma advertises_ip4:
  assumes "advertises n v" and "family n = AF_INET"
  shows "\<exists>iph p. built_ip4 n v n iph p \<and> ipx_helper n = Some VRRP_IP4"
proof -
  obtain h os e iph p ck tail where c: "ipx_helper n = Some h"
     "adv_iov n = [\<lparr>iov_base = Some e, iov_len = 14\<rparr>, \<lparr>iov_base = Some iph, iov_len = iphdr_size h\<rparr>,
         \<lparr>iov_base = Some p, iov_len = adv_getsize h n\<rparr>]"
     "adv_iph_ok os h n iph" "p = adv_fixed n v @ ck @ adv_addrs n @ tail" "length ck = 2"
     "length tail = tail_size (family n)" "auth_placed v tail"
    using assms(1) unfolding advertises_def carries_def by blast
  have h: "h = VRRP_IP4" using assms c(1) by (simp add: advertises_def conf_ok_def conf_base_def vrrp_ipx_set_def)
  have rdy: "adv_ready n" using assms(1) by (simp add: advertises_def carries_def)
  have "adv_pkt n = Some p" using c(2) by (simp add: adv_pkt_def)
  then have "length p = vrrp_ip4_getsize n" "vrrp_ip4_chksum n p None None = Some (h_chksum p)"
    using rdy c(1,2) h by (auto simp: adv_ready_def iov_exact_def)
  moreover obtain k where "iph = adv_iphdr (vrrp_ip4_getsize n) (store16 k) (addr4 (vif_ipx (vif n)))"
    using c(3) h by (auto simp: adv_iph_ok_def)
  moreover have "n = n\<lparr>adv_iov := [\<lparr>iov_base = Some e, iov_len = 14\<rparr>, \<lparr>iov_base = Some iph, iov_len = 20\<rparr>,
      \<lparr>iov_base = Some p, iov_len = vrrp_ip4_getsize n\<rparr>]\<rparr>"
    using c(2) h by (cases n) (simp add: iphdr_size_def)
  ultimately have "built_ip4 n v n iph p"
    unfolding built_ip4_def using c(4-7) assms(2)
    by (intro exI [of _ e] exI [of _ k] exI [of _ ck] exI [of _ tail]) (simp add: tail_size_def)
  then show ?thesis using c(1) h by blast
qed

lemma advertises_ip6:
  assumes "advertises n v" and "family n = AF_INET6"
  shows "\<exists>iph dst p. built_ip6 n v n iph dst p \<and> ipx_helper n = Some VRRP_IP6"
proof -
  obtain h os e iph p ck tail where c: "ipx_helper n = Some h"
     "adv_iov n = [\<lparr>iov_base = Some e, iov_len = 14\<rparr>, \<lparr>iov_base = Some iph, iov_len = iphdr_size h\<rparr>,
         \<lparr>iov_base = Some p, iov_len = adv_getsize h n\<rparr>]"
     "adv_iph_ok os h n iph" "p = adv_fixed n v @ ck @ adv_addrs n @ tail" "length ck = 2"
     "length tail = tail_size (family n)" "auth_placed v tail"
    using assms(1) unfolding advertises_def carries_def by blast
  have h: "h = VRRP_IP6" using assms c(1) by (simp add: advertises_def conf_ok_def conf_base_def vrrp_ipx_set_def family_defs)
  have rdy: "adv_ready n" using assms(1) by (simp add: advertises_def carries_def)
  have "adv_pkt n = Some p" using c(2) by (simp add: adv_pkt_def)
  then have "length p = vrrp_ip6_getsize n" "vrrp_ip6_chksum n p None None = Some (h_chksum p)"
    using rdy c(1,2) h by (auto simp: adv_ready_def iov_exact_def)
  moreover obtain dst where "iph = adv_ip6hdr (vrrp_ip6_getsize n) (addr6 (vif_ipx (vif n))) dst" "length dst = 16"
    using c(3) h by (auto simp: adv_iph_ok_def)
  moreover have "n = n\<lparr>adv_iov := [\<lparr>iov_base = Some e, iov_len = 14\<rparr>, \<lparr>iov_base = Some iph, iov_len = 40\<rparr>,
      \<lparr>iov_base = Some p, iov_len = vrrp_ip6_getsize n\<rparr>]\<rparr>"
    using c(2) h by (cases n) (simp add: iphdr_size_def)
  moreover have "tail = []" using c(6) assms(2) by (simp add: tail_size_def family_defs)
  ultimately have "built_ip6 n v n iph dst p"
    unfolding built_ip6_def using c(4,5) by (intro exI [of _ e] exI [of _ ck]) simp
  then show ?thesis using c(1) h by blast
qed

end
