(* ===== verification/Vrrp_Getopt.thy ===== *)
theory Vrrp_Getopt
  imports Vrrp_Common
begin

text \<open>
  The command line as \<open>vrrp_options\<close> reads it: its table of long options and its string of short
  options (\<^verbatim>\<open>vrrp_options.c\<close>), and the scan \<open>getopt_long\<close> makes of \<open>argv\<close> with them.  The results:
  however options are spelled and mixed with addresses, the scan returns them in order; and it
  returns only options of the table.
\<close>

section \<open>The options of the daemon\<close>

datatype has_arg = no_argument | required_argument

record option_entry =
  opt_name :: string
  opt_arg :: has_arg
  opt_val :: char

abbreviation opt_entry :: "string \<Rightarrow> has_arg \<Rightarrow> char \<Rightarrow> option_entry" where
  "opt_entry nm a c \<equiv> \<lparr>opt_name = nm, opt_arg = a, opt_val = c\<rparr>"

definition long_options :: "option_entry list" where
  "long_options =
     [opt_entry ''vrid'' required_argument CHR ''v'',
      opt_entry ''interface'' required_argument CHR ''i'',
      opt_entry ''priority'' required_argument CHR ''p'',
      opt_entry ''time'' required_argument CHR ''t'',
      opt_entry ''start-delay'' required_argument CHR ''T'',
      opt_entry ''preempt'' required_argument CHR ''P'',
      opt_entry ''rfc'' required_argument CHR ''r'',
      opt_entry ''ipv6'' no_argument CHR ''6'',
      opt_entry ''auth'' required_argument CHR ''a'',
      opt_entry ''foreground'' no_argument CHR ''f'',
      opt_entry ''script'' required_argument CHR ''s'',
      opt_entry ''pidfile'' required_argument CHR ''F'',
      opt_entry ''control'' required_argument CHR ''C'',
      opt_entry ''debug'' no_argument CHR ''d'',
      opt_entry ''help'' no_argument CHR ''h'']"

definition optstring :: string where
  "optstring = ''v:i:p:t:T:P:r:6a:fs:F:C:dh''"

section \<open>The scan of \<open>getopt_long\<close>\<close>

text \<open>
  The scan permutes: operands may stand between the options.  It is written over the rest of \<open>argv\<close>.
  Every step yields options with their arguments (the empty string where \<open>optarg\<close> is
  null) and the arguments left, or an error, reported as the option \<open>?\<close>, after which \<open>vrrp_options\<close> does not
  scan on.

  A short option is looked up in \<open>optstring\<close>, where a colon after it asks for an
  argument: the rest of the word, or else the next word.
\<close>

definition BAD_OPT :: "char \<times> string" where
  "BAD_OPT = (CHR ''?'', '''')"

fun short_lookup :: "string \<Rightarrow> char \<Rightarrow> has_arg option" where
  "short_lookup [] c = None"
| "short_lookup (x # xs) c =
     (if x = c then Some (if take 1 xs = '':'' then required_argument else no_argument) else short_lookup xs c)"

definition short_option :: "char \<Rightarrow> has_arg option" where
  "short_option c = (if c = CHR '':'' \<or> c = CHR '';'' then None else short_lookup optstring c)"

fun short_word :: "string \<Rightarrow> string list \<Rightarrow> (char \<times> string) list \<times> string list option" where
  "short_word [] rest = ([], Some rest)"
| "short_word (c # cs) rest =
     (case short_option c of
        None \<Rightarrow> ([BAD_OPT], None)
      | Some no_argument \<Rightarrow> (case short_word cs rest of (os, r) \<Rightarrow> ((c, '''') # os, r))
      | Some required_argument \<Rightarrow>
          (if cs \<noteq> [] then ([(c, cs)], Some rest)
           else case rest of [] \<Rightarrow> ([BAD_OPT], None) | a # rest' \<Rightarrow> ([(c, a)], Some rest')))"

text \<open>
  A long option is found by its full name or by a prefix of it, which is ambiguous when it begins two names
  of different meaning.
\<close>

definition long_option :: "string \<Rightarrow> option_entry option" where
  "long_option nm =
     (case find (\<lambda>e. opt_name e = nm) long_options of
        Some e \<Rightarrow> Some e
      | None \<Rightarrow>
          (case filter (\<lambda>e. take (length nm) (opt_name e) = nm) long_options of
             [] \<Rightarrow> None
           | e # es \<Rightarrow>
               if list_all (\<lambda>e'. opt_arg e' = opt_arg e \<and> opt_val e' = opt_val e) es then Some e else None))"

text \<open>The name ends at the first equals sign, which introduces the argument.\<close>

definition long_name :: "string \<Rightarrow> string" where
  "long_name s = takeWhile (\<lambda>c. c \<noteq> CHR ''='') s"

definition long_value :: "string \<Rightarrow> string option" where
  "long_value s = (case dropWhile (\<lambda>c. c \<noteq> CHR ''='') s of [] \<Rightarrow> None | _ # a \<Rightarrow> Some a)"

definition long_word :: "string \<Rightarrow> string list \<Rightarrow> (char \<times> string) list \<times> string list option" where
  "long_word s rest =
     (case long_option (long_name s) of
        None \<Rightarrow> ([BAD_OPT], None)
      | Some e \<Rightarrow>
          (case long_value s of
             Some a \<Rightarrow> if opt_arg e = no_argument then ([BAD_OPT], None) else ([(opt_val e, a)], Some rest)
           | None \<Rightarrow>
               if opt_arg e = no_argument then ([(opt_val e, '''')], Some rest)
               else case rest of [] \<Rightarrow> ([BAD_OPT], None) | a # rest' \<Rightarrow> ([(opt_val e, a)], Some rest')))"

lemma short_word_shrinks: "short_word s rest = (os, Some r) \<Longrightarrow> length r \<le> length rest"
proof (induction s arbitrary: os)
  case (Cons c cs)
  obtain os' r' where w: "short_word cs rest = (os', r')" by fastforce
  show ?case using Cons.prems Cons.IH [of os'] w
    by (cases "short_option c"; cases rest) (auto split: has_arg.splits if_splits)
qed simp

lemma long_word_shrinks: "long_word s rest = (os, Some r) \<Longrightarrow> length r \<le> length rest"
  by (auto simp: long_word_def split: option.splits list.splits if_splits)

text \<open>An operand is a word that does not start with a dash, or the dash alone.\<close>

definition is_operand :: "string \<Rightarrow> bool" where
  "is_operand s \<longleftrightarrow> take 1 s \<noteq> ''-'' \<or> s = ''-''"

definition option_word :: "string \<Rightarrow> string list \<Rightarrow> (char \<times> string) list \<times> string list option" where
  "option_word s rest = (if take 2 s = ''--'' then long_word (drop 2 s) rest else short_word (drop 1 s) rest)"

lemma option_word_shrinks: "option_word s rest = (os, Some r) \<Longrightarrow> length r \<le> length rest"
  by (auto simp: option_word_def split: if_splits dest: short_word_shrinks long_word_shrinks)

text \<open>The options, and the arguments from \<open>optind\<close> on.\<close>

function getopt_long :: "string list \<Rightarrow> (char \<times> string) list \<times> string list" where
  "getopt_long [] = ([], [])"
| "getopt_long (s # rest) =
     (if s = ''--'' then ([], rest)
      else if is_operand s then (case getopt_long rest of (os, ips) \<Rightarrow> (os, s # ips))
      else case option_word s rest of
             (os, None) \<Rightarrow> (os, [])
           | (os, Some r) \<Rightarrow> (case getopt_long r of (os', ips) \<Rightarrow> (os @ os', ips)))"
  by pat_completeness auto
termination by (relation "measure length") (auto dest!: option_word_shrinks [OF sym])

section \<open>Short and long options agree\<close>

lemma long_options_agree: "\<forall>e \<in> set long_options. short_option (opt_val e) = Some (opt_arg e)"
  by (simp add: long_options_def short_option_def optstring_def)

lemma short_lookup_known:
  "short_lookup xs c = Some a \<Longrightarrow> c \<in> set xs"
  by (induction xs) (auto split: if_splits)

lemma optstring_listed:
  "list_all (\<lambda>c. c = CHR '':'' \<or> list_ex (\<lambda>e. opt_val e = c \<and> short_option c = Some (opt_arg e)) long_options) optstring"
  by code_simp

lemma short_option_known:
  assumes "short_option c = Some a"
  shows "\<exists>e \<in> set long_options. opt_val e = c \<and> opt_arg e = a"
proof -
  have "c \<in> set optstring" "c \<noteq> CHR '':''"
    using assms short_lookup_known [of optstring c a] unfolding short_option_def by (metis option.distinct(1))+
  then have "list_ex (\<lambda>e. opt_val e = c \<and> short_option c = Some (opt_arg e)) long_options"
    using optstring_listed unfolding list_all_iff by blast
  then show ?thesis unfolding list_ex_iff using assms by fastforce
qed

lemma find_SomeD: "find P xs = Some x \<Longrightarrow> x \<in> set xs"
  by (induction xs) (auto split: if_splits)

lemma long_option_known: "long_option nm = Some e \<Longrightarrow> e \<in> set long_options"
  by (auto simp: long_option_def filter_eq_Cons_iff dest: find_SomeD split: option.splits list.splits if_splits)
    (simp add: in_set_conv_decomp, blast)

text \<open>Every name of the table is found, whatever other names it begins.\<close>

lemma long_option_full: "\<forall>e \<in> set long_options. long_option (opt_name e) = Some e"
  by (simp add: long_option_def long_options_def)

lemma long_option_empty: "long_option [] = None"
  by (simp add: long_option_def long_options_def)

lemma short_option_dash: "short_option CHR ''-'' = None"
  by (simp add: short_option_def optstring_def)

section \<open>Spellings of a command line\<close>

text \<open>
  The ways to write an option: flags in one word (\<open>-fd\<close>), possibly followed by an option with its
  argument in the same word (\<open>-fv42\<close>) or in the next one (\<open>-fv 42\<close>), a long name or a unique prefix of it
  without argument, with it after an equals sign, or in the next word.
\<close>

datatype spelled =
    Operand string
  | Flags string
  | Joined string char string
  | Spaced string char string
  | Long string
  | Long_joined string string
  | Long_spaced string string

primrec spelled_words :: "spelled \<Rightarrow> string list" where
  "spelled_words (Operand s) = [s]"
| "spelled_words (Flags fs) = [''-'' @ fs]"
| "spelled_words (Joined fs c a) = [''-'' @ fs @ [c] @ a]"
| "spelled_words (Spaced fs c a) = [''-'' @ fs @ [c], a]"
| "spelled_words (Long nm) = [''--'' @ nm]"
| "spelled_words (Long_joined nm a) = [''--'' @ nm @ ''='' @ a]"
| "spelled_words (Long_spaced nm a) = [''--'' @ nm, a]"

definition flag_options :: "string \<Rightarrow> (char \<times> string) list" where
  "flag_options fs = map (\<lambda>c. (c, [])) fs"

definition named_option :: "string \<Rightarrow> string \<Rightarrow> (char \<times> string) list" where
  "named_option nm a = (case long_option nm of None \<Rightarrow> [] | Some e \<Rightarrow> [(opt_val e, a)])"

primrec spelled_options :: "spelled \<Rightarrow> (char \<times> string) list" where
  "spelled_options (Operand s) = []"
| "spelled_options (Flags fs) = flag_options fs"
| "spelled_options (Joined fs c a) = flag_options fs @ [(c, a)]"
| "spelled_options (Spaced fs c a) = flag_options fs @ [(c, a)]"
| "spelled_options (Long nm) = named_option nm []"
| "spelled_options (Long_joined nm a) = named_option nm a"
| "spelled_options (Long_spaced nm a) = named_option nm a"

definition spelled_operands :: "spelled \<Rightarrow> string list" where
  "spelled_operands x = (case x of Operand s \<Rightarrow> [s] | _ \<Rightarrow> [])"

definition all_flags :: "string \<Rightarrow> bool" where
  "all_flags fs \<longleftrightarrow> list_all (\<lambda>c. short_option c = Some no_argument) fs"

definition long_takes :: "has_arg \<Rightarrow> string \<Rightarrow> bool" where
  "long_takes a nm \<longleftrightarrow> CHR ''='' \<notin> set nm
     \<and> (case long_option nm of None \<Rightarrow> False | Some e \<Rightarrow> opt_arg e = a)"

primrec spelled_ok :: "spelled \<Rightarrow> bool" where
  "spelled_ok (Operand s) \<longleftrightarrow> is_operand s"
| "spelled_ok (Flags fs) \<longleftrightarrow> fs \<noteq> [] \<and> all_flags fs"
| "spelled_ok (Joined fs c a) \<longleftrightarrow> all_flags fs \<and> short_option c = Some required_argument \<and> a \<noteq> []"
| "spelled_ok (Spaced fs c a) \<longleftrightarrow> all_flags fs \<and> short_option c = Some required_argument"
| "spelled_ok (Long nm) \<longleftrightarrow> long_takes no_argument nm"
| "spelled_ok (Long_joined nm a) \<longleftrightarrow> long_takes required_argument nm"
| "spelled_ok (Long_spaced nm a) \<longleftrightarrow> long_takes required_argument nm"

lemma short_word_flags:
  "all_flags fs \<Longrightarrow> short_word (fs @ cs) rest = (flag_options fs @ fst (short_word cs rest), snd (short_word cs rest))"
  by (induction fs) (auto simp: all_flags_def flag_options_def split: prod.splits)

lemma short_first:
  "short_option c \<noteq> None \<Longrightarrow> option_word (''-'' @ c # cs) rest = short_word (c # cs) rest
     \<and> ''-'' @ c # cs \<noteq> ''--'' \<and> \<not> is_operand (''-'' @ c # cs)"
  using short_option_dash by (auto simp: option_word_def is_operand_def)

lemma short_start:
  assumes "all_flags fs" and "short_option c = Some required_argument"
  shows "option_word (''-'' @ fs @ c # a) rest = short_word (fs @ c # a) rest
     \<and> ''-'' @ fs @ c # a \<noteq> ''--'' \<and> \<not> is_operand (''-'' @ fs @ c # a)"
proof (cases fs)
  case Nil
  then show ?thesis using assms(2) short_first [of c a rest] by simp
next
  case (Cons d ds)
  then show ?thesis using assms(1) short_first [of d "ds @ c # a" rest] by (simp add: all_flags_def)
qed

lemma long_takesE:
  assumes "long_takes a nm"
  obtains e where "long_option nm = Some e" "opt_arg e = a" "nm \<noteq> []"
    "long_name nm = nm" "long_value nm = None" "\<And>v. long_name (nm @ ''='' @ v) = nm" "\<And>v. long_value (nm @ ''='' @ v) = Some v"
proof -
  have eq: "\<forall>c \<in> set nm. c \<noteq> CHR ''=''" using assms by (auto simp: long_takes_def)
  have none: "dropWhile (\<lambda>c. c \<noteq> CHR ''='') nm = []" using eq by (simp only: dropWhile_eq_Nil_conv)
  obtain e where "long_option nm = Some e" "opt_arg e = a"
    using assms by (auto simp: long_takes_def split: option.splits)
  moreover have "nm \<noteq> []" using calculation(1) long_option_empty by auto
  moreover have "long_name nm = nm" using eq by (simp add: long_name_def)
  moreover have "long_value nm = None" unfolding long_value_def none by simp
  moreover have "long_name (nm @ ''='' @ v) = nm" "long_value (nm @ ''='' @ v) = Some v" for v
    using eq by (simp_all add: long_name_def long_value_def takeWhile_append2 dropWhile_append2)
  ultimately show ?thesis using that by blast
qed

lemma long_first:
  "nm \<noteq> [] \<Longrightarrow> option_word (''--'' @ nm) rest = long_word nm rest \<and> ''--'' @ nm \<noteq> ''--'' \<and> \<not> is_operand (''--'' @ nm)"
  by (simp add: option_word_def is_operand_def)

text \<open>A word that is an option, with the words it takes.\<close>

lemma getopt_step:
  assumes "option_word s rest = (os, Some r)" and "s \<noteq> ''--''" and "\<not> is_operand s"
  shows "getopt_long (s # rest) = (os @ fst (getopt_long r), snd (getopt_long r))"
  using assms by (simp add: case_prod_beta)

lemmas spelled_defs = spelled_operands_def named_option_def long_word_def

lemma getopt_spelled:
  assumes "spelled_ok x"
  shows "getopt_long (spelled_words x @ rest)
    = (spelled_options x @ fst (getopt_long rest), spelled_operands x @ snd (getopt_long rest))"
proof (cases x)
  case (Operand s)
  then show ?thesis using assms by (auto simp: is_operand_def spelled_defs case_prod_beta)
next
  case (Flags fs)
  then obtain c cs where fs: "fs = c # cs" "short_option c \<noteq> None" "all_flags fs"
    using assms by (cases fs) (auto simp: all_flags_def)
  have "short_word fs rest = (flag_options fs, Some rest)" using short_word_flags [OF fs(3), of "[]" rest] by simp
  then have "option_word (''-'' @ fs) rest = (flag_options fs, Some rest) \<and> ''-'' @ fs \<noteq> ''--'' \<and> \<not> is_operand (''-'' @ fs)"
    using short_first [OF fs(2), of cs rest] fs(1) by simp
  then show ?thesis using Flags getopt_step [of "''-'' @ fs" rest] by (simp add: spelled_defs del: getopt_long.simps)
next
  case (Joined fs c a)
  have "short_word (fs @ c # a) rest = (flag_options fs @ [(c, a)], Some rest)"
    using assms Joined short_word_flags [of fs "c # a" rest] by simp
  then show ?thesis
    using assms Joined short_start [of fs c a rest] getopt_step [of "''-'' @ fs @ c # a" rest]
    by (simp add: spelled_defs del: getopt_long.simps)
next
  case (Spaced fs c a)
  have "short_word (fs @ [c]) (a # rest) = (flag_options fs @ [(c, a)], Some rest)"
    using assms Spaced short_word_flags [of fs "[c]" "a # rest"] by simp
  then show ?thesis
    using assms Spaced short_start [of fs c "[]" "a # rest"] getopt_step [of "''-'' @ fs @ [c]" "a # rest"]
    by (simp add: spelled_defs del: getopt_long.simps)
next
  case (Long nm)
  then obtain e where e: "long_option nm = Some e" "opt_arg e = no_argument" "nm \<noteq> []"
      "long_name nm = nm" "long_value nm = None"
    using assms by (auto elim: long_takesE)
  then show ?thesis
    using Long long_first [OF e(3), of rest] getopt_step [of "''--'' @ nm" rest]
    by (simp add: spelled_defs del: getopt_long.simps)
next
  case (Long_joined nm a)
  then obtain e where e: "long_option nm = Some e" "opt_arg e = required_argument"
      "long_name (nm @ ''='' @ a) = nm" "long_value (nm @ ''='' @ a) = Some a"
    using assms by (auto elim: long_takesE)
  then have "long_word (nm @ ''='' @ a) rest = (named_option nm a, Some rest)" by (simp add: spelled_defs)
  then show ?thesis
    using Long_joined long_first [of "nm @ ''='' @ a" rest] getopt_step [of "''--'' @ nm @ ''='' @ a" rest]
    by (simp add: spelled_operands_def del: getopt_long.simps)
next
  case (Long_spaced nm a)
  then obtain e where e: "long_option nm = Some e" "opt_arg e = required_argument" "nm \<noteq> []"
      "long_name nm = nm" "long_value nm = None"
    using assms by (auto elim: long_takesE)
  then show ?thesis
    using Long_spaced long_first [OF e(3), of "a # rest"] getopt_step [of "''--'' @ nm" "a # rest"]
    by (simp add: spelled_defs del: getopt_long.simps)
qed

text \<open>A whole command line; what \<open>rest\<close> gives comes behind.\<close>

lemma getopt_spelling:
  assumes "list_all spelled_ok xs"
  shows "getopt_long (concat (map spelled_words xs) @ rest)
    = (concat (map spelled_options xs) @ fst (getopt_long rest), concat (map spelled_operands xs) @ snd (getopt_long rest))"
  using assms by (induction xs) (simp_all add: getopt_spelled del: getopt_long.simps)

text \<open>Conversely the scan returns options of the table only, up to an error.\<close>

definition opt_known :: "char \<times> string \<Rightarrow> bool" where
  "opt_known o1 \<longleftrightarrow> o1 = BAD_OPT
     \<or> (\<exists>e \<in> set long_options. opt_val e = fst o1 \<and> (opt_arg e = no_argument \<longrightarrow> snd o1 = []))"

lemma opt_known_bad: "opt_known BAD_OPT"
  by (simp add: opt_known_def)

lemma opt_knownI: "short_option c = Some a \<Longrightarrow> (a = no_argument \<Longrightarrow> s = []) \<Longrightarrow> opt_known (c, s)"
  using short_option_known unfolding opt_known_def by fastforce

lemma short_word_known: "o1 \<in> set (fst (short_word s rest)) \<Longrightarrow> opt_known o1"
proof (induction s)
  case (Cons c cs)
  then show ?case
    by (cases "short_option c"; cases rest)
      (auto simp: case_prod_beta opt_known_bad intro: opt_knownI split: has_arg.splits if_splits)
qed simp

lemma long_word_known: "o1 \<in> set (fst (long_word s rest)) \<Longrightarrow> opt_known o1"
  using long_option_known long_options_agree
  by (auto simp: long_word_def opt_known_bad split: option.splits list.splits if_splits intro!: opt_knownI)

lemma option_word_known: "o1 \<in> set (fst (option_word s rest)) \<Longrightarrow> opt_known o1"
  by (auto simp: option_word_def split: if_splits dest: short_word_known long_word_known)

lemma getopt_known: "o1 \<in> set (fst (getopt_long args)) \<Longrightarrow> opt_known o1"
proof (induction args rule: getopt_long.induct)
  case (2 s rest)
  obtain os r where w: "option_word s rest = (os, r)" by fastforce
  show ?case
    using 2 w option_word_known [of o1 s rest]
    by (cases r) (auto simp: case_prod_beta split: if_splits)
qed simp

end
