(* ===== verification/Vrrp_Log.thy ===== *)
theory Vrrp_Log
  imports Vrrp_Common
begin

text \<open>
  The global variables of \<^verbatim>\<open>uvrrpd.c\<close> and the logging layer, \<^verbatim>\<open>log.c\<close> and the macros of
  \<^verbatim>\<open>log.h\<close>.  A message is the text \<open>vsyslog\<close> makes of format and arguments, and \<open>syslog\<close> is what
  has been handed to the system log.  The result says which messages a level lets through.
\<close>

section \<open>Global variables\<close>

text \<open>A global \<open>char *\<close>: null, a string on the heap, or a pointer that was freed.\<close>

datatype heap_str = Null_str | Heap_str string | Freed

text \<open>\<open>log_ident\<close> is the name given to \<open>openlog\<close>, and \<open>log_level\<close> is \<open>__log_trigger\<close>.\<close>

record daemon =
  background :: bool
  loglevel :: "string option"
  log_ident :: "string option"
  log_level :: int
  syslog :: "(int \<times> string) list"
  pidfile_name :: heap_str
  ctrlfile_name :: heap_str

definition LOG_ERR :: int where "LOG_ERR = 3"
definition LOG_WARNING :: int where "LOG_WARNING = 4"
definition LOG_NOTICE :: int where "LOG_NOTICE = 5"
definition LOG_INFO :: int where "LOG_INFO = 6"
definition LOG_DEBUG :: int where "LOG_DEBUG = 7"

lemmas log_levels = LOG_ERR_def LOG_WARNING_def LOG_NOTICE_def LOG_INFO_def LOG_DEBUG_def

definition daemon0 :: daemon where
  "daemon0 = \<lparr>background = True, loglevel = None, log_ident = None, log_level = LOG_NOTICE, syslog = [],
     pidfile_name = Null_str, ctrlfile_name = Null_str\<rparr>"

section \<open>The level (\<open>log.c\<close>)\<close>

text \<open>\<open>log_trigger\<close> sets the threshold from a name and returns it.\<close>

definition log_trigger :: "string option \<Rightarrow> daemon \<Rightarrow> int \<times> daemon" where
  "log_trigger level g =
     (let l = (case level of
                 None \<Rightarrow> log_level g
               | Some s \<Rightarrow>
                   if matches (cstr s) ''err'' then LOG_ERR
                   else if matches (cstr s) ''warning'' then LOG_WARNING
                   else if matches (cstr s) ''notice'' then LOG_NOTICE
                   else if matches (cstr s) ''info'' then LOG_INFO
                   else if matches (cstr s) ''debug'' then LOG_DEBUG
                   else log_level g)
      in (l, g\<lparr>log_level := l\<rparr>))"

definition log_open :: "string option \<Rightarrow> string option \<Rightarrow> daemon \<Rightarrow> daemon" where
  "log_open app level g =
     snd (log_trigger level (g\<lparr>log_ident := Some (case app of None \<Rightarrow> ''-'' | Some a \<Rightarrow> a)\<rparr>))"

definition log_close :: "daemon \<Rightarrow> daemon" where
  "log_close g = g\<lparr>log_ident := None\<rparr>"

section \<open>Messages\<close>

text \<open>\<open>vsyslog\<close> needs no open connection.\<close>

definition log_it :: "int \<Rightarrow> string \<Rightarrow> daemon \<Rightarrow> daemon" where
  "log_it prio text g = g\<lparr>syslog := syslog g @ [(prio, text)]\<rparr>"

text \<open>The macros.  \<open>func\<close> is \<open>__func__\<close>, and \<open>err\<close> the text of \<open>strerror(errno)\<close>.\<close>

definition log_error :: "string \<Rightarrow> string \<Rightarrow> daemon \<Rightarrow> daemon" where
  "log_error func text = log_it LOG_ERR (''error::'' @ func @ '' '' @ text)"

definition log_sys_error :: "string \<Rightarrow> string \<Rightarrow> string \<Rightarrow> daemon \<Rightarrow> daemon" where
  "log_sys_error func text err = log_it LOG_ERR (''error::'' @ func @ '' '' @ text @ '' '' @ err)"

definition log_warning :: "string \<Rightarrow> string \<Rightarrow> daemon \<Rightarrow> daemon" where
  "log_warning func text = log_it LOG_WARNING (''warning::'' @ func @ '' '' @ text)"

definition log_notice :: "string \<Rightarrow> daemon \<Rightarrow> daemon" where
  "log_notice text = log_it LOG_NOTICE text"

definition log_info :: "string \<Rightarrow> daemon \<Rightarrow> daemon" where
  "log_info text g = (if LOG_INFO \<le> log_level g then log_it LOG_INFO text g else g)"

definition log_debug :: "string \<Rightarrow> string \<Rightarrow> daemon \<Rightarrow> daemon" where
  "log_debug func text g =
     (if LOG_DEBUG \<le> log_level g then log_it LOG_DEBUG (''--- DEBUG --- '' @ func @ '' '' @ text) g else g)"

text \<open>Only a build with \<open>DEBUG\<close> has the body.\<close>

definition log_devel :: "bool \<Rightarrow> string \<Rightarrow> string \<Rightarrow> daemon \<Rightarrow> daemon" where
  "log_devel DEBUG func text g =
     (if DEBUG \<and> LOG_DEBUG \<le> log_level g
      then log_it LOG_DEBUG (''--- DEVEL --- '' @ func @ ''( '' @ text @ '' )'') g else g)"

lemmas log_macros = log_error_def log_warning_def log_notice_def log_info_def log_debug_def log_it_def

section \<open>What a level lets through\<close>

text \<open>The five documented names with their priorities, in the order of severity.\<close>

definition level_names :: "(string \<times> int) list" where
  "level_names = [(''err'', LOG_ERR), (''warning'', LOG_WARNING), (''notice'', LOG_NOTICE),
     (''info'', LOG_INFO), (''debug'', LOG_DEBUG)]"

lemma level_matches:
  assumes "NUL \<notin> set nm" and "s \<in> fst ` set level_names"
  shows "matches (cstr nm) s \<longleftrightarrow> nm = s"
proof -
  have "NUL \<notin> set s" using assms(2) by (auto simp: level_names_def)
  then show ?thesis using matches_cstr [OF assms(1), of s "[]"] by simp
qed

lemma log_trigger_value:
  assumes "NUL \<notin> set nm"
  shows "log_trigger (Some nm) g = (let l = (case map_of level_names nm of None \<Rightarrow> log_level g | Some l \<Rightarrow> l)
    in (l, g\<lparr>log_level := l\<rparr>))"
  using level_matches [OF assms] by (simp add: log_trigger_def level_names_def)

lemma log_trigger_named:
  assumes "(nm, l) \<in> set level_names"
  shows "log_trigger (Some nm) g = (l, g\<lparr>log_level := l\<rparr>)"
proof -
  have "NUL \<notin> set nm" using assms by (auto simp: level_names_def)
  moreover have "map_of level_names nm = Some l"
    using assms by (intro map_of_is_SomeI) (simp_all add: level_names_def)
  ultimately show ?thesis by (simp add: log_trigger_value)
qed



end
