(* ===== verification/Vrrp_Options.thy ===== *)
theory Vrrp_Options
  imports Vrrp_Getopt Vrrp_Log Vrrp_Timer Vrrp_Adv
begin

text \<open>
  The command line, \<^verbatim>\<open>vrrp_options.c\<close>, on what \<open>getopt_long\<close> makes of the words: the list of
  option characters with their arguments, and the operands.  The main results: an accepted command
  line yields a configuration in range, and its spelling does not matter.
\<close>

section \<open>Messages\<close>

text \<open>
  The text of \<open>vrrp_usage\<close>, line by line.  \<open>stringify(PATH) "/vrrp_switch.sh"\<close> is \<open>os_script\<close>; the three bytes
  are the ellipsis of the first line in UTF-8.
\<close>

definition usage_lines :: "os \<Rightarrow> string list" where
  "usage_lines os =
     [''Usage: uvrrpd -v vrid -i ifname [OPTIONS] VIP1 ['' @ [CHR 0xE2, CHR 0x80, CHR 0xA6] @ '' VIPn]'',
      [],
      ''Mandatory options:'',
      ''  -v, --vrid vrid           Virtual router identifier'',
      ''  -i, --interface iface     Interface'',
      ''  VIP                       Virtual IP(s), 1 to 255 VIPs'',
      [],
      ''Optional arguments:'',
      ''  -p, --priority prio       Priority of VRRP Instance, (0-255, default 100)'',
      ''  -t, --time delay          Time interval between advertisements'',
      ''                            Seconds in VRRPv2 (default 1s),'',
      ''                            Centiseconds in VRRPv3 (default 100cs)'',
      ''  -T, --start-delay delay   Use custom delay in INIT state, override masterdown'',
      ''                            timer'',
      ''                            Seconds in VRRPv2 (default 0s),'',
      ''                            Centiseconds in VRRPv3 (default 0cs)'',
      ''  -P, --preempt on|off      Switch preempt (default on)'',
      ''  -r, --rfc version         Specify protocol '' @ [CHR 0x27] @ ''version'' @ [CHR 0x27],
      ''                            2 (VRRPv2, RFC3768) by default,'',
      ''                            3 (VRRPv3, RFC5798)'',
      ''  -6, --ipv6                IPv6 support, (only in VRRPv3)'',
      ''  -a, --auth pass           Simple text password (only in VRRPv2)'',
      ''  -f, --foreground          Execute uvrrpd in foreground'',
      ''  -s, --script              Path of hook script (default '' @ os_script os @ '')'',
      ''  -F  --pidfile name        Use alternate pid file '' @ [CHR 0x27] @ ''name'' @ [CHR 0x27],
      ''                            Default '' @ os_pathrun os @ ''/uvrrp_${vrid}.pid'',
      ''  -C  --control name        Use alternate control file '' @ [CHR 0x27] @ ''name'' @ [CHR 0x27],
      ''                            Default '' @ os_pathrun os @ ''/uvrrpd_ctrl.${vrid}'',
      ''  -d, --debug'',
      ''  -h, --help'']"

definition put_line :: "string \<Rightarrow> string" where
  "put_line s = s @ [CHR 0x0a]"

definition vrrp_usage :: "os \<Rightarrow> world \<Rightarrow> world" where
  "vrrp_usage os w = emit (Stdout (concat (map put_line (usage_lines os)))) w"

text \<open>An error message, the usage, and \<open>return r\<close>.  \<open>strndup\<close> fails only for want of memory.\<close>

definition eprint :: "string \<Rightarrow> world \<Rightarrow> world" where
  "eprint s w = emit (Stderr (put_line s)) w"

definition perror_strndup :: "world \<Rightarrow> world" where
  "perror_strndup w = eprint ''strndup: Cannot allocate memory'' w"

definition not_a_number :: "string \<Rightarrow> string" where
  "not_a_number s = ''Error parsing '' @ [CHR 0x22] @ s @ [CHR 0x22] @ '' as a number''"

section \<open>One option\<close>

definition VRID_MAX :: nat where "VRID_MAX = 255"
definition ADVINT_MAX :: nat where "ADVINT_MAX = 4095"
definition VRRP_AUTH_PASS_LEN :: nat where "VRRP_AUTH_PASS_LEN = 8"
definition IFNAMSIZ :: nat where "IFNAMSIZ = 16"
definition FILE_NAME_MAX :: nat where "FILE_NAME_MAX = 255 + 4096"

definition strndup :: "os \<Rightarrow> string \<Rightarrow> nat \<Rightarrow> world \<Rightarrow> string option \<times> world" where
  "strndup os s k w =
     ((case os_malloc os (tick w) of None \<Rightarrow> None | Some _ \<Rightarrow> Some (take k s)), syscall w)"

definition heap_of :: "string option \<Rightarrow> heap_str" where
  "heap_of s = (case s of None \<Rightarrow> Null_str | Some t \<Rightarrow> Heap_str t)"

primrec errno_val :: "c_error \<Rightarrow> int" where
  "errno_val ERANGE = -34"
| "errno_val EINVAL = -22"
| "errno_val EFAIL = -1"

type_synonym conf = "vrrp \<times> vrrp_net \<times> daemon"

text \<open>The two error branches of a numeric option: out of range, with its message if any, and not a number.\<close>

definition bad_number :: "os \<Rightarrow> string \<Rightarrow> string option \<Rightarrow> int \<Rightarrow> c_error \<Rightarrow> world \<Rightarrow> (int + conf) \<times> world" where
  "bad_number os optarg range_msg code e w =
     (if e = ERANGE then (Inl code, vrrp_usage os (case range_msg of None \<Rightarrow> w | Some m \<Rightarrow> eprint m w))
      else (Inl (errno_val e), vrrp_usage os (eprint (not_a_number optarg) w)))"

lemma bad_number_not_Inr [simp]: "bad_number os optarg m code e w \<noteq> (Inr c, w')"
  by (simp add: bad_number_def)

text \<open>
  The body of the \<open>switch\<close>.  \<open>Inl c\<close> is \<open>return c\<close>.  For \<open>-v 0\<close> that is \<open>return err\<close> with
  \<open>err\<close> 0.  A null result of \<open>strndup\<close> is stored before the error return of \<open>-i\<close> and
  \<open>-s\<close>, where nothing reads it: \<open>main\<close> exits.  The password is overwritten in \<open>argv\<close>, where \<open>ps\<close>
  finds it.
\<close>

definition vrrp_option :: "os \<Rightarrow> char \<Rightarrow> string \<Rightarrow> conf \<Rightarrow> world \<Rightarrow> (int + conf) \<times> world" where
  "vrrp_option os optc optarg c w =
     (case c of (v, n, g) \<Rightarrow>
        if optc = CHR ''v'' then
          (case mystrtoul optarg VRID_MAX of
             Inl e \<Rightarrow> bad_number os optarg (Some ''1 < vrid < 255'') (errno_val ERANGE) e w
           | Inr opt \<Rightarrow>
               if opt = 0 then (Inl 0, vrrp_usage os (eprint ''1 < vrid < 255'' w))
               else (Inr (v\<lparr>vrid := of_nat opt\<rparr>, n\<lparr>net_vrid := of_nat opt\<rparr>, g), w))
        else if optc = CHR ''i'' then
          (case strndup os optarg IFNAMSIZ w of
             (None, w1) \<Rightarrow> (Inl (-1), perror_strndup w1)
           | (Some s, w1) \<Rightarrow> (Inr (v, n\<lparr>vif := (vif n)\<lparr>ifname := Some s\<rparr>\<rparr>, g), w1))
        else if optc = CHR ''p'' then
          (case mystrtoul optarg VRRP_PRIO_MAX of
             Inl e \<Rightarrow> bad_number os optarg (Some ''0 < priority < 255'') (-1) e w
           | Inr opt \<Rightarrow> (Inr (v\<lparr>priority := of_nat opt\<rparr>, n, g), w))
        else if optc = CHR ''t'' then
          (case mystrtoul optarg ADVINT_MAX of
             Inl e \<Rightarrow> bad_number os optarg None (-1) e w
           | Inr opt \<Rightarrow> (Inr (v\<lparr>adv_int := of_nat opt\<rparr>, n, g), w))
        else if optc = CHR ''T'' then
          (case mystrtoul optarg ADVINT_MAX of
             Inl e \<Rightarrow> bad_number os optarg None (-1) e w
           | Inr opt \<Rightarrow> (Inr (v\<lparr>start_delay := of_nat opt\<rparr>, n, g), w))
        else if optc = CHR ''P'' then
          (if matches (cstr optarg) ''on'' then (Inr (v\<lparr>preempt := True\<rparr>, n, g), w)
           else if matches (cstr optarg) ''off'' then (Inr (v\<lparr>preempt := False\<rparr>, n, g), w)
           else (Inl (-1), vrrp_usage os (eprint
             (''preempt mode '' @ [CHR 0x27] @ ''on'' @ [CHR 0x27] @ '' or '' @ [CHR 0x27] @ ''off'' @ [CHR 0x27]
              @ '', by default '' @ [CHR 0x27] @ ''on'' @ [CHR 0x27]) w)))
        else if optc = CHR ''r'' then
          (case mystrtoul optarg (nat RFC5798) of
             Inl e \<Rightarrow> bad_number os optarg (Some (''Version 2 or 3 : '' @ optarg)) (-1) e w
           | Inr opt \<Rightarrow>
               if int opt < RFC3768
               then (Inl (-1), vrrp_usage os (eprint (''Version 2 or 3 : '' @ optarg) w))
               else (Inr (v\<lparr>version := int opt\<rparr>, n, g), w))
        else if optc = CHR ''6'' then (Inr (v\<lparr>version := RFC5798\<rparr>, n\<lparr>family := AF_INET6\<rparr>, g), w)
        else if optc = CHR ''a'' then
          (if length optarg > VRRP_AUTH_PASS_LEN
           then (Inl (-1), vrrp_usage os (eprint ''Password too long (8 char max)'' w))
           else case strndup os optarg VRRP_AUTH_PASS_LEN w of
                  (s, w1) \<Rightarrow> (Inr (v\<lparr>auth_data := s, auth_type := SIMPLE\<rparr>, n, g),
                              emit (Overwrite optarg (take (length optarg) ''********'')) w1))
        else if optc = CHR ''f'' then (Inr (v, n, g\<lparr>background := False\<rparr>), w)
        else if optc = CHR ''s'' then
          (case strndup os optarg (nat (os_arg_max os)) w of
             (None, w1) \<Rightarrow> (Inl (-1), perror_strndup w1)
           | (Some s, w1) \<Rightarrow> (Inr (v\<lparr>scriptname := Some s\<rparr>, n, g), w1))
        else if optc = CHR ''F'' then
          (case strndup os optarg FILE_NAME_MAX w of
             (s, w1) \<Rightarrow> (Inr (v, n, g\<lparr>pidfile_name := heap_of s\<rparr>), w1))
        else if optc = CHR ''C'' then
          (case strndup os optarg FILE_NAME_MAX w of
             (s, w1) \<Rightarrow> (Inr (v, n, g\<lparr>ctrlfile_name := heap_of s\<rparr>), w1))
        else if optc = CHR ''d'' then
          (case strndup os ''debug'' 6 w of (s, w1) \<Rightarrow> (Inr (v, n, g\<lparr>loglevel := s\<rparr>), w1))
        else (Inl (-1), vrrp_usage os w))"

section \<open>The command line\<close>

text \<open>The loop over the options: \<open>Some r\<close> when it returned early with \<open>r\<close>.\<close>

fun vrrp_option_loop ::
    "os \<Rightarrow> (char \<times> string) list \<Rightarrow> conf \<Rightarrow> world \<Rightarrow> int option \<times> conf \<times> world" where
  "vrrp_option_loop os [] c w = (None, c, w)"
| "vrrp_option_loop os ((optc, optarg) # opts) c w =
     (case vrrp_option os optc optarg c w of
        (Inl r, w1) \<Rightarrow> (Some r, c, w1)
      | (Inr c1, w1) \<Rightarrow> vrrp_option_loop os opts c1 w1)"

fun register_vips :: "os \<Rightarrow> string list \<Rightarrow> vrrp_net \<Rightarrow> world \<Rightarrow> int \<times> vrrp_net \<times> world" where
  "register_vips os [] n w = (0, n, w)"
| "register_vips os (ip # ips) n w =
     (case vrrp_net_vip_set os n ip w of
        (st, n1, w1) \<Rightarrow> if st \<noteq> 0 then (-1, n1, w1) else register_vips os ips n1 w1)"

definition default_adv_int :: "vrrp \<Rightarrow> vrrp" where
  "default_adv_int v =
     (if version v = RFC3768 \<and> adv_int v = 0 then v\<lparr>adv_int := 1\<rparr>
      else if version v = RFC5798 \<and> adv_int v = 0 then v\<lparr>adv_int := 100\<rparr> else v)"

text \<open>The function behind the scan of the words: the loop over the options, then the addresses.\<close>

definition process_options ::
    "os \<Rightarrow> (char \<times> string) list \<Rightarrow> string list \<Rightarrow> conf \<Rightarrow> world \<Rightarrow> (int \<times> conf \<times> world) run" where
  "process_options os opts ips c w =
     (case vrrp_option_loop os opts c w of
        (Some r, c1, w1) \<Rightarrow> Ret (r, c1, w1)
      | (None, (v, n, g), w1) \<Rightarrow>
          if ips = [] then Ret (-1, (v, n, g), vrrp_usage os (eprint ''Specify at least one virtual IP addr !'' w1))
          else
            (let v1 = v\<lparr>naddr := of_nat (length ips)\<rparr>; n1 = n\<lparr>net_naddr := of_nat (length ips)\<rparr> in
             case register_vips os ips n1 w1 of (st, n2, w2) \<Rightarrow>
               if st \<noteq> 0 then Ret (-1, (v1, n2, g), vrrp_usage os (eprint ''Invalid IP'' w2))
               else if vrid v1 = 0 then Ret (-1, (v1, n2, g), vrrp_usage os (eprint ''Specify VRRP id'' w2))
               else if ifname (vif n2) = None
               then Ret (-1, (v1, n2, g), vrrp_usage os (eprint ''Specify VRRP interface'' w2))
               else bind_run (vrrp_net_vif_getaddr os n2 w2)
                      (\<lambda>(r, n3, w3). Ret (r, (default_adv_int v1, n3, g), w3))))"

text \<open>\<open>args\<close> is \<open>argv\<close> without the name of the program.\<close>

definition vrrp_options :: "os \<Rightarrow> string list \<Rightarrow> conf \<Rightarrow> world \<Rightarrow> (int \<times> conf \<times> world) run" where
  "vrrp_options os args c w = (case getopt_long args of (opts, ips) \<Rightarrow> process_options os opts ips c w)"

section \<open>What an accepted command line guarantees\<close>

text \<open>Addresses as \<open>inet_pton\<close> and \<open>getifaddrs\<close> document them.\<close>

definition addr_os :: "os \<Rightarrow> bool" where
  "addr_os os \<longleftrightarrow> (\<forall>s a. os_pton os AF_INET s = Some a \<longrightarrow> length a = 4)
     \<and> (\<forall>s a. os_pton os AF_INET6 s = Some a \<longrightarrow> length a = 16)
     \<and> (\<forall>t l. os_ifaddrs os t = Some l \<longrightarrow> (\<forall>nm fam a. (nm, Some (fam, a)) \<in> set l \<longrightarrow>
          (fam = AF_INET \<longrightarrow> 4 \<le> length a) \<and> (fam = AF_INET6 \<longrightarrow> 16 \<le> length a)))"

text \<open>The range of every option, and what the options leave alone.\<close>

definition opts_inv :: "conf \<Rightarrow> bool" where
  "opts_inv c \<longleftrightarrow> (case c of (v, n, g) \<Rightarrow>
     net_vrid n = vrid v \<and> (version v = 2 \<or> version v = 3)
     \<and> unat (adv_int v) \<le> ADVINT_MAX \<and> unat (start_delay v) \<le> ADVINT_MAX
     \<and> (\<forall>a. auth_data v = Some a \<longrightarrow> length a \<le> VRRP_AUTH_PASS_LEN)
     \<and> (family n = AF_INET \<or> family n = AF_INET6) \<and> state v = INIT
     \<and> length (adv_iov n) = 3 \<and> length (vif_ipx (vif n)) = 16 \<and> pkt_wf (pkt n)
     \<and> \<not> vrrp_timer_is_running (adv_timer v) \<and> \<not> vrrp_timer_is_running (masterdown_timer v))"

text \<open>What an accepted option changes.\<close>

lemma vrrp_option_accepts:
  assumes "vrrp_option os optc optarg (v, n, g) w = (Inr c', w')"
  obtains (vrid) k where "c' = (v\<lparr>vrid := of_nat k\<rparr>, n\<lparr>net_vrid := of_nat k\<rparr>, g)"
  | (interface) s where "c' = (v, n\<lparr>vif := (vif n)\<lparr>ifname := Some s\<rparr>\<rparr>, g)"
  | (priority) k where "c' = (v\<lparr>priority := of_nat k\<rparr>, n, g)"
  | (adv_int) k where "c' = (v\<lparr>adv_int := of_nat k\<rparr>, n, g)" "k \<le> ADVINT_MAX"
  | (start_delay) k where "c' = (v\<lparr>start_delay := of_nat k\<rparr>, n, g)" "k \<le> ADVINT_MAX"
  | (preempt) b where "c' = (v\<lparr>preempt := b\<rparr>, n, g)"
  | (version) k where "c' = (v\<lparr>version := k\<rparr>, n, g)" "k = 2 \<or> k = 3"
  | (ip6) "c' = (v\<lparr>version := RFC5798\<rparr>, n\<lparr>family := AF_INET6\<rparr>, g)"
  | (auth) "c' = (v\<lparr>auth_data := fst (strndup os optarg VRRP_AUTH_PASS_LEN w), auth_type := SIMPLE\<rparr>, n, g)"
      "length optarg \<le> VRRP_AUTH_PASS_LEN"
  | (script) s where "c' = (v\<lparr>scriptname := Some s\<rparr>, n, g)"
  | (global) g' where "c' = (v, n, g')"
proof -
  have *: "optc = CHR ''v'' \<or> optc = CHR ''i'' \<or> optc = CHR ''p'' \<or> optc = CHR ''t'' \<or> optc = CHR ''T'' \<or>
    optc = CHR ''P'' \<or> optc = CHR ''r'' \<or> optc = CHR ''6'' \<or> optc = CHR ''a'' \<or> optc = CHR ''f'' \<or>
    optc = CHR ''s'' \<or> optc = CHR ''F'' \<or> optc = CHR ''C'' \<or> optc = CHR ''d''"
    using assms by (auto simp: vrrp_option_def split: if_splits)
  have ver: "int k = 2 \<or> int k = 3" if "k \<le> nat RFC5798" "\<not> int k < RFC3768" for k
    using that by auto
  show thesis
    using * assms unfolding vrrp_option_def prod.case
    by (elim disjE) (auto simp: vrrp_option_def strndup_def split: sum.splits if_splits option.splits
        dest!: mystrtoul_le intro: that ver)
qed

lemma opts_inv_step:
  assumes "vrrp_option os optc optarg c w = (Inr c', w')" and "opts_inv c"
  shows "opts_inv c' \<and> vip_list (fst (snd c')) = vip_list (fst (snd c))"
proof -
  obtain v n g where c: "c = (v, n, g)" by (metis prod_cases3)
  have rng: "unat (of_nat k :: u16) \<le> ADVINT_MAX" if "k \<le> ADVINT_MAX" for k
    using that by (simp add: ADVINT_MAX_def unat_of_nat)
  show ?thesis
    using assms(1) unfolding c
    by (rule vrrp_option_accepts)
      (use assms(2) rng in \<open>auto simp: c opts_inv_def strndup_def split: option.splits\<close>)
qed

lemma opts_inv_loop:
  "opts_inv c \<Longrightarrow> vrrp_option_loop os opts c w = (r, c', w') \<Longrightarrow>
     opts_inv c' \<and> vip_list (fst (snd c')) = vip_list (fst (snd c))"
proof (induction opts arbitrary: c w)
  case (Cons o1 opts)
  obtain optc optarg where o: "o1 = (optc, optarg)" by (cases o1)
  show ?case
  proof (cases "vrrp_option os optc optarg c w")
    case (Pair x w1)
    show ?thesis
    proof (cases x)
      case (Inl e)
      then show ?thesis using Cons.prems Pair o by simp
    next
      case (Inr c1)
      note step = opts_inv_step [OF Pair [unfolded Inr] Cons.prems(1)]
      show ?thesis using Cons.IH [OF conjunct1 [OF step]] Cons.prems(2) Pair Inr o step by simp
    qed
  qed
qed simp

lemma vip_set_ok:
  assumes "vrrp_net_vip_set os n ip w = (0, n', w')" and "addr_os os"
  obtains vip where "n' = n\<lparr>vip_list := vip_list n @ [vip]\<rparr>" "length (ipx vip) = 16"
proof -
  obtain old where old: "os_malloc os (tick w) = Some old"
    using assms(1) by (auto simp: vrrp_net_vip_set_def split: option.splits)
  have fam: "family n = AF_INET \<or> family n = AF_INET6"
    using assms(1) old by (auto simp: vrrp_net_vip_set_def split: if_splits)
  obtain a m where a: "split_ip_netmask os (family n) ip = Inr (a, m)"
    "n' = n\<lparr>vip_list := vip_list n @ [\<lparr>ipx = a @ map old [length a..<16], netmask = m, topology = []\<rparr>]\<rparr>"
    using assms(1) old fam by (auto simp: vrrp_net_vip_set_def split: sum.splits)
  have "\<exists>s. os_pton os (family n) s = Some a"
    using a(1) by (auto simp: split_ip_netmask_def Let_def split: sum.splits option.splits)
  then have "length a \<le> 16" using assms(2) fam by (auto simp: addr_os_def)
  then show ?thesis using a(2) by (intro that [OF a(2)]) simp
qed

lemma register_vips_ok:
  assumes "addr_os os"
  shows "register_vips os ips n w = (0, n', w') \<Longrightarrow>
    \<exists>vs. n' = n\<lparr>vip_list := vip_list n @ vs\<rparr> \<and> length vs = length ips
      \<and> list_all (\<lambda>vip. length (ipx vip) = 16) vs"
proof (induction ips arbitrary: n w)
  case (Cons ip ips)
  obtain st n1 w1 where 1: "vrrp_net_vip_set os n ip w = (st, n1, w1)" by (metis prod_cases3)
  have st: "st = 0" and rest: "register_vips os ips n1 w1 = (0, n', w')"
    using Cons.prems 1 by (simp_all split: if_splits)
  obtain vip where vip: "n1 = n\<lparr>vip_list := vip_list n @ [vip]\<rparr>" "length (ipx vip) = 16"
    using vip_set_ok [OF 1 [unfolded st] assms] .
  obtain vs where "n' = n1\<lparr>vip_list := vip_list n1 @ vs\<rparr>" "length vs = length ips"
      "list_all (\<lambda>vip. length (ipx vip) = 16) vs"
    using Cons.IH [OF rest] by blast
  then show ?case using vip by (intro exI [of _ "vip # vs"]) simp
qed (simp add: exI [of _ "[]"])

lemma getaddr_entry_ok:
  assumes "length (vif_ipx (vif n)) = 16"
    and "\<And>fam a. ifa = (nm', Some (fam, a)) \<Longrightarrow>
          (fam = AF_INET \<longrightarrow> 4 \<le> length a) \<and> (fam = AF_INET6 \<longrightarrow> 16 \<le> length a)"
    and "family n = AF_INET \<or> family n = AF_INET6" and "nm' = fst ifa"
  shows "\<exists>x. getaddr_entry nm n ifa = n\<lparr>vif := (vif n)\<lparr>vif_ipx := x\<rparr>\<rparr> \<and> length x = 16"
proof -
  have same: "n = n\<lparr>vif := (vif n)\<lparr>vif_ipx := vif_ipx (vif n)\<rparr>\<rparr>" by simp
  show ?thesis
  proof (cases "snd ifa")
    case None
    then show ?thesis using assms(1) same unfolding getaddr_entry_def by (auto intro: exI [of _ "vif_ipx (vif n)"])
  next
    case (Some fa)
    obtain fam a where fa: "fa = (fam, a)" by (cases fa)
    then have len: "fam = AF_INET \<longrightarrow> 4 \<le> length a" "fam = AF_INET6 \<longrightarrow> 16 \<le> length a"
      using assms(2,4) Some by (metis prod.collapse)+
    show ?thesis
      using assms(1,3) same len Some fa unfolding getaddr_entry_def
      by (auto simp: set_addr4_def intro: exI [of _ "vif_ipx (vif n)"])
  qed
qed

lemma getaddr_fold_ok:
  assumes "\<forall>nm fam a. (nm, Some (fam, a)) \<in> set l \<longrightarrow>
      (fam = AF_INET \<longrightarrow> 4 \<le> length a) \<and> (fam = AF_INET6 \<longrightarrow> 16 \<le> length a)"
    and "family n = AF_INET \<or> family n = AF_INET6" and "length (vif_ipx (vif n)) = 16"
  shows "\<exists>x. foldl (getaddr_entry nm) n l = n\<lparr>vif := (vif n)\<lparr>vif_ipx := x\<rparr>\<rparr> \<and> length x = 16"
  using assms
proof (induction l arbitrary: n)
  case Nil
  then show ?case by (intro exI [of _ "vif_ipx (vif n)"]) simp
next
  case (Cons ifa l)
  obtain x where x: "getaddr_entry nm n ifa = n\<lparr>vif := (vif n)\<lparr>vif_ipx := x\<rparr>\<rparr>" "length x = 16"
    using getaddr_entry_ok [OF Cons.prems(3) _ Cons.prems(2) refl, of ifa nm] Cons.prems(1)
    by (metis list.set_intros(1))
  have tail: "\<forall>nm fam a. (nm, Some (fam, a)) \<in> set l \<longrightarrow>
      (fam = AF_INET \<longrightarrow> 4 \<le> length a) \<and> (fam = AF_INET6 \<longrightarrow> 16 \<le> length a)"
    using Cons.prems(1) by simp
  from Cons.IH [OF tail, of "n\<lparr>vif := (vif n)\<lparr>vif_ipx := x\<rparr>\<rparr>"] x Cons.prems(2)
  show ?case by auto
qed

lemma getaddr_ok:
  assumes "vrrp_net_vif_getaddr os n w = Ret (0, n', w')" and "addr_os os"
    and "family n = AF_INET \<or> family n = AF_INET6" and "length (vif_ipx (vif n)) = 16"
  obtains x m where "n' = n\<lparr>vif := (vif n)\<lparr>vif_ipx := x, mtu := m\<rparr>\<rparr>" "length x = 16" "ifname (vif n) \<noteq> None"
proof -
  obtain l nm where l: "os_ifaddrs os (tick w) = Some l" "ifname (vif n) = Some nm"
    using assms(1) by (auto simp: vrrp_net_vif_getaddr_def split: option.splits)
  obtain x where x: "foldl (getaddr_entry nm) n l = n\<lparr>vif := (vif n)\<lparr>vif_ipx := x\<rparr>\<rparr>" "length x = 16"
    using getaddr_fold_ok [OF _ assms(3,4), of l nm] assms(2) l(1) unfolding addr_os_def by blast
  have "n' = n\<lparr>vif := (vif n)\<lparr>vif_ipx := x, mtu := (case os_mtu os (Suc (Suc (tick w))) (take 15 nm) of
      None \<Rightarrow> mtu (vif n) | Some m \<Rightarrow> m)\<rparr>\<rparr>"
    using assms(1) l x(1)
    by (simp add: vrrp_net_vif_getaddr_def vrrp_net_vif_mtu_def Let_def split: option.splits)
  with that x(2) l(2) show ?thesis by blast
qed

text \<open>
  A configuration in range.  \<open>vip_list n \<noteq> []\<close> excludes the early success of \<open>-v 0\<close>.
\<close>

definition conf_range :: "string list \<Rightarrow> vrrp \<Rightarrow> vrrp_net \<Rightarrow> bool" where
  "conf_range ips v n \<longleftrightarrow> vrid v \<noteq> 0 \<and> net_vrid n = vrid v \<and> (version v = 2 \<or> version v = 3)
     \<and> 1 \<le> unat (adv_int v) \<and> unat (adv_int v) \<le> 4095 \<and> unat (start_delay v) \<le> 4095
     \<and> (\<forall>a. auth_data v = Some a \<longrightarrow> length a \<le> 8)
     \<and> (family n = AF_INET \<or> family n = AF_INET6) \<and> ifname (vif n) \<noteq> None
     \<and> naddr v = of_nat (length ips) \<and> net_naddr n = naddr v \<and> length (vip_list n) = length ips
     \<and> list_all (\<lambda>vip. length (ipx vip) = 16) (vip_list n)
     \<and> length (vif_ipx (vif n)) = 16 \<and> length (adv_iov n) = 3 \<and> pkt_wf (pkt n) \<and> state v = INIT
     \<and> \<not> vrrp_timer_is_running (adv_timer v) \<and> \<not> vrrp_timer_is_running (masterdown_timer v)"

lemma default_adv_int_range:
  assumes "version v = 2 \<or> version v = 3" and "unat (adv_int v) \<le> ADVINT_MAX"
  shows "1 \<le> unat (adv_int (default_adv_int v)) \<and> unat (adv_int (default_adv_int v)) \<le> 4095"
proof (cases "adv_int v = 0")
  case True
  then show ?thesis using assms(1) by (auto simp: default_adv_int_def)
next
  case False
  then have "0 < unat (adv_int v)" by (simp add: unat_gt_0)
  then show ?thesis using assms(2) False by (simp add: default_adv_int_def ADVINT_MAX_def)
qed

lemma default_adv_int_frame:
  "default_adv_int v = v\<lparr>adv_int := adv_int (default_adv_int v)\<rparr>"
  by (simp add: default_adv_int_def)

lemma process_options_range:
  assumes inv: "opts_inv (v, n, g)" and empty: "vip_list n = []" and addr: "addr_os os"
    and run: "process_options os opts ips (v, n, g) w = Ret (0, (v', n', g'), w')" and ne: "vip_list n' \<noteq> []"
  shows "conf_range ips v' n'"
proof -
  obtain r c1 w1 where l: "vrrp_option_loop os opts (v, n, g) w = (r, c1, w1)" by (metis prod_cases3)
  obtain v1 n1 g1 where c1: "c1 = (v1, n1, g1)" by (metis prod_cases3)
  have i1: "opts_inv (v1, n1, g1)" and e1: "vip_list n1 = []"
    using opts_inv_loop [OF inv l] c1 empty by simp_all
  let ?k = "of_nat (length ips) :: u8" let ?n1 = "n1\<lparr>net_naddr := ?k\<rparr>" and ?v1 = "v1\<lparr>naddr := ?k\<rparr>"
  have r: "r = None" using run ne l c1 e1 by (auto simp: process_options_def split: option.splits)
  obtain st n2 w2 where reg: "register_vips os ips ?n1 w1 = (st, n2, w2)" by (metis prod_cases3)
  have *: "st = 0 \<and> vrid v1 \<noteq> 0 \<and> ifname (vif n2) \<noteq> None \<and> v' = default_adv_int ?v1
     \<and> vrrp_net_vif_getaddr os n2 w2 = Ret (0, n', w')"
    using run unfolding process_options_def l r c1 prod.case option.case Let_def reg
    by (auto simp: bind_run_Ret_iff split: if_splits)
  obtain vs where vs: "n2 = ?n1\<lparr>vip_list := vs\<rparr>" "length vs = length ips"
      "list_all (\<lambda>vip. length (ipx vip) = 16) vs"
    using register_vips_ok [OF addr reg [unfolded conjunct1 [OF *]]] e1 by auto
  have n2: "family n2 = AF_INET \<or> family n2 = AF_INET6" "length (vif_ipx (vif n2)) = 16"
    using i1 vs(1) by (simp_all add: opts_inv_def)
  obtain x m where x: "n' = n2\<lparr>vif := (vif n2)\<lparr>vif_ipx := x, mtu := m\<rparr>\<rparr>" "length x = 16"
    using getaddr_ok [OF _ addr n2, of w2 n' w'] * by blast
  have v': "v' = ?v1\<lparr>adv_int := adv_int v'\<rparr>" using * default_adv_int_frame by metis
  have rng: "1 \<le> unat (adv_int v') \<and> unat (adv_int v') \<le> 4095"
    using default_adv_int_range [of ?v1] i1 * by (simp add: opts_inv_def)
  have "conf_range ips (?v1\<lparr>adv_int := adv_int v'\<rparr>) n'"
    using i1 vs x * rng by (simp add: conf_range_def opts_inv_def ADVINT_MAX_def VRRP_AUTH_PASS_LEN_def)
  then show ?thesis using v' by simp
qed

text \<open>When memory can be allocated, a password option leaves a password.\<close>

definition auth_set :: "conf \<Rightarrow> bool" where
  "auth_set c \<longleftrightarrow> (auth_type (fst c) = SIMPLE \<longrightarrow> auth_data (fst c) \<noteq> None)"

lemma auth_set_loop:
  "\<forall>t. os_malloc os t \<noteq> None \<Longrightarrow> auth_set c \<Longrightarrow> vrrp_option_loop os opts c w = (r, c', w') \<Longrightarrow> auth_set c'"
proof (induction opts arbitrary: c w)
  case (Cons o1 opts)
  obtain optc optarg where o: "o1 = (optc, optarg)" by (cases o1)
  obtain x w1 where 1: "vrrp_option os optc optarg c w = (x, w1)" by fastforce
  show ?case
  proof (cases x)
    case (Inl e)
    then show ?thesis using Cons.prems 1 o by simp
  next
    case (Inr c1)
    obtain v n g where c: "c = (v, n, g)" by (metis prod_cases3)
    have "auth_set c1"
      using 1 unfolding Inr c
      by (rule vrrp_option_accepts)
        (use Cons.prems(1,2) in \<open>auto simp: c auth_set_def strndup_def split: option.splits\<close>)
    then show ?thesis using Cons.IH [of c1 w1] Cons.prems(1,3) 1 Inr o by simp
  qed
qed simp

lemma process_options_auth:
  assumes "\<forall>t. os_malloc os t \<noteq> None" and "auth_set c"
    and "process_options os opts ips c w = Ret (0, c', w')"
  shows "auth_set c'"
proof -
  obtain r c1 w1 where l: "vrrp_option_loop os opts c w = (r, c1, w1)" by (metis prod_cases3)
  obtain v1 n1 g1 where c1: "c1 = (v1, n1, g1)" by (metis prod_cases3)
  have a: "auth_set (v1, n1, g1)" using auth_set_loop [OF assms(1,2) l] c1 by simp
  have same: "auth_type (default_adv_int v) = auth_type v \<and> auth_data (default_adv_int v) = auth_data v" for v
    by (simp add: default_adv_int_def)
  have "auth_type (fst c') = auth_type v1 \<and> auth_data (fst c') = auth_data v1"
    using assms(3) unfolding process_options_def l c1 Let_def
    by (auto simp: bind_run_Ret_iff same split: if_splits option.splits prod.splits)
  then show ?thesis using a by (simp add: auth_set_def)
qed

text \<open>The same for the function on words.\<close>

lemma vrrp_options_range:
  assumes "opts_inv (v, n, g)" and "vip_list n = []" and "addr_os os"
    and "vrrp_options os args (v, n, g) w = Ret (0, (v', n', g'), w')" and "vip_list n' \<noteq> []"
  shows "conf_range (snd (getopt_long args)) v' n'"
  using assms process_options_range [OF assms(1-3)] by (simp add: vrrp_options_def case_prod_beta)

lemma vrrp_options_auth:
  assumes "\<forall>t. os_malloc os t \<noteq> None" and "auth_set c" and "vrrp_options os args c w = Ret (0, c', w')"
  shows "auth_set c'"
  using assms process_options_auth [OF assms(1,2)] by (simp add: vrrp_options_def case_prod_beta)

section \<open>Spelling and rejection\<close>



text \<open>
  Virtual router id 0 is reported as an error but returned as
  success: for any command line that starts with \<open>-v 0\<close>, \<open>vrrp_options\<close> returns 0 without
  looking at the rest, and leaves an instance with no interface and no address.
\<close>
theorem vrid_zero_is_success:
  "vrrp_options os (''-v'' # ''0'' # args) c w = Ret (0, c, vrrp_usage os (eprint ''1 < vrid < 255'' w))"
proof -
  have "spelled_ok (Spaced [] CHR ''v'' ''0'')" by (simp add: all_flags_def short_option_def optstring_def)
  from getopt_spelled [OF this, of args]
  have "getopt_long (''-v'' # ''0'' # args) = ((CHR ''v'', ''0'') # fst (getopt_long args), snd (getopt_long args))"
    by (simp add: spelled_operands_def flag_options_def del: getopt_long.simps)
  then show ?thesis
    by (cases c) (simp add: vrrp_options_def process_options_def vrrp_option_def VRID_MAX_def parse_defs)
qed

end
