(* ===== verification/Vrrp_Main.thy ===== *)
theory Vrrp_Main
  imports Vrrp_Steady Vrrp_Options
begin

text \<open>
  The daemon, \<^verbatim>\<open>uvrrpd.c\<close>: signal set-up, the pid file and the control fifo, the set-up
  sequence of \<open>main\<close>, its loop and its shutdown.  The results tie the components
  together: an accepted command line and a successful set-up give a well-formed instance, every
  reachable state of the loop is well formed, and a termination signal ends the loop.
\<close>

section \<open>Signals\<close>

definition SIGALRM :: int where "SIGALRM = 14"

text \<open>The signals given to \<open>sigaction\<close> and the mask given to \<open>sigprocmask\<close>.\<close>

definition signal_setup :: "int list \<times> int list" where
  "signal_setup =
     ([SIGINT, SIGTERM, SIGQUIT, SIGHUP, SIGCHLD, SIGUSR1, SIGUSR2, SIGALRM, SIGPIPE],
      [SIGINT, SIGTERM, SIGQUIT, SIGHUP, SIGUSR1, SIGUSR2])"

section \<open>Files\<close>

definition ENOENT :: int where "ENOENT = 2"

text \<open>\<open>stringify(PATHRUN) "/uvrrpd_%d.pid"\<close> and \<open>stringify(PATHRUN) "/uvrrpd_ctrl.%d"\<close>.\<close>

definition PIDFILE_NAME :: "os \<Rightarrow> nat \<Rightarrow> string" where
  "PIDFILE_NAME os vid = os_pathrun os @ ''/uvrrpd_'' @ nat_str vid @ ''.pid''"

definition CTRLFILE_NAME :: "os \<Rightarrow> nat \<Rightarrow> string" where
  "CTRLFILE_NAME os vid = os_pathrun os @ ''/uvrrpd_ctrl.'' @ nat_str vid"

definition pidfile_init :: "os \<Rightarrow> nat \<Rightarrow> daemon \<Rightarrow> world \<Rightarrow> int \<times> daemon \<times> world" where
  "pidfile_init os vid g w =
     (if pidfile_name g = Null_str then
        (case os_malloc os (tick w) of
           None \<Rightarrow> (-1, g, syscall w)
         | Some _ \<Rightarrow>
             (0, g\<lparr>pidfile_name := Heap_str (snprintf FILE_NAME_MAX (PIDFILE_NAME os vid))\<rparr>, syscall w))
      else (0, g, w))"

definition ctrlfile_init :: "os \<Rightarrow> nat \<Rightarrow> daemon \<Rightarrow> world \<Rightarrow> int \<times> daemon \<times> world" where
  "ctrlfile_init os vid g w =
     (if ctrlfile_name g = Null_str then
        (case os_malloc os (tick w) of
           None \<Rightarrow> (-1, g, syscall w)
         | Some _ \<Rightarrow>
             (0, g\<lparr>ctrlfile_name := Heap_str (snprintf FILE_NAME_MAX (CTRLFILE_NAME os vid))\<rparr>, syscall w))
      else (0, g, w))"

text \<open>\<open>unlink\<close> of a global name, if it is not null.  A freed name cannot be read.\<close>

definition unlink_name :: "heap_str \<Rightarrow> world \<Rightarrow> world run" where
  "unlink_name h w =
     (case h of Null_str \<Rightarrow> Ret w | Heap_str s \<Rightarrow> Ret (emit (File ''unlink'' s) (syscall w)) | Freed \<Rightarrow> Undef)"

definition pidfile_unlink :: "daemon \<Rightarrow> world \<Rightarrow> world run" where
  "pidfile_unlink g w = unlink_name (pidfile_name g) w"

definition ctrlfile_unlink :: "daemon \<Rightarrow> world \<Rightarrow> world run" where
  "ctrlfile_unlink g w = unlink_name (ctrlfile_name g) w"

text \<open>
  A running daemon holds a write lock on its pid file: its presence ends the process.
  The calls are \<open>open\<close>, \<open>fcntl\<close> and \<open>close\<close>.
\<close>

definition pidfile_check :: "os \<Rightarrow> world \<Rightarrow> world run" where
  "pidfile_check os w =
     (let w1 = syscall w in
      if os_call os (tick w) < 0 then (if os_errno os (tick w) = ENOENT then Ret w1 else Exit)
      else let w2 = syscall w1; w3 = syscall w2 in
        if os_call os (tick w1) < 0 then Exit
        else if os_locked os (tick w1) then Exit else Ret w3)"

definition pidfile :: "os \<Rightarrow> daemon \<Rightarrow> world \<Rightarrow> world run" where
  "pidfile os g w =
     (case pidfile_name g of
        Freed \<Rightarrow> Undef
      | Null_str \<Rightarrow> Exit
      | Heap_str nm \<Rightarrow>
          (let w1 = syscall w; w2 = syscall w1 in
           if os_call os (tick w) < 0 then Exit
           else if os_call os (tick w1) < 0 then Exit
           else if os_call os (tick w2) < 0 then Exit
           else Ret (emit (File (nat_str (os_pid os) @ [CHR 0x0a]) nm) (syscall w2))))"

definition ctrlfile :: "os \<Rightarrow> daemon \<Rightarrow> vrrp \<Rightarrow> world \<Rightarrow> (vrrp \<times> world) run" where
  "ctrlfile os g v w =
     bind_run (ctrlfile_unlink g w) (\<lambda>w0.
       case ctrlfile_name g of
         Heap_str nm \<Rightarrow>
           (let w1 = syscall w0 in
            if os_call os (tick w0) \<noteq> 0 then Exit
            else if os_call os (tick w1) = -1 then Exit
            else Ret (v\<lparr>ctrl := (ctrl v)\<lparr>ctrl_fd := os_call os (tick w1)\<rparr>\<rparr>,
                      emit (File ''mkfifo'' nm) (syscall w1)))
       | _ \<Rightarrow> Exit)"

section \<open>The main function\<close>

text \<open>
  The set-up, up to \<open>set_bit(KEEP_GOING, &reg)\<close>.  \<open>v\<close> and \<open>n\<close> are the uninitialised locals.
  The result of \<open>ctrlfile_init\<close> is not tested.  \<open>daemon\<close> continues in the child.
\<close>

definition main_topology :: "os \<Rightarrow> vrrp_net \<Rightarrow> world \<Rightarrow> (int \<times> vrrp_net \<times> world) run" where
  "main_topology os n w =
     (if family n = AF_INET then Ret (vrrp_arp_init os n w)
      else if family n = AF_INET6 then vrrp_na_init os n w else Ret (0, n, w))"

definition main_daemonize :: "os \<Rightarrow> daemon \<Rightarrow> world \<Rightarrow> world run" where
  "main_daemonize os g w =
     (if background g then (if os_call os (tick w) \<noteq> 0 then Exit else Ret (emit (File ''daemon'' ''/'') (syscall w)))
      else if os_call os (tick w) \<noteq> 0 then Exit else Ret (emit (File ''chdir'' ''/'') (syscall w)))"

definition exit_unless0 :: "int \<Rightarrow> 'a \<Rightarrow> 'a run" where
  "exit_unless0 st x = (if st \<noteq> 0 then Exit else Ret x)"

definition main_files :: "os \<Rightarrow> conf \<Rightarrow> world \<Rightarrow> (conf \<times> world) run" where
  "main_files os c w =
     (case c of (v, n, g) \<Rightarrow>
        case pidfile_init os (unat (vrid v)) g w of (r, g1, w1) \<Rightarrow>
        bind_run (exit_unless0 r ()) (\<lambda>_.
        bind_run (pidfile_check os w1) (\<lambda>w2.
        case ctrlfile_init os (unat (vrid v)) (log_open (Some ''uvrrpd'') (loglevel g1) g1) w2 of (_, g2, w3) \<Rightarrow>
        bind_run (ctrlfile os g2 v w3) (\<lambda>(v1, w4).
        case vrrp_ctrl_init os (ctrl v1) w4 of (r, k, w5) \<Rightarrow>
        exit_unless0 r ((v1\<lparr>ctrl := k\<rparr>, n, g2), w5)))))"

definition main_network :: "os \<Rightarrow> conf \<Rightarrow> world \<Rightarrow> (conf \<times> world) run" where
  "main_network os c w =
     (case c of (v, n, g) \<Rightarrow>
        bind_run (vrrp_net_socket os n w) (\<lambda>(r, n1, w1).
        bind_run (exit_unless0 r ()) (\<lambda>_.
        case vrrp_net_socket_xmit os n1 w1 of (r, n2, w2) \<Rightarrow>
        bind_run (exit_unless0 r ()) (\<lambda>_.
        case vrrp_exec_init os v w2 of (r, v1, w3) \<Rightarrow>
        bind_run (exit_unless0 r ()) (\<lambda>_.
        bind_run (vrrp_adv_init os n2 v1 w3) (\<lambda>(r, n3, w4).
        bind_run (exit_unless0 r ()) (\<lambda>_.
        bind_run (main_topology os n3 w4) (\<lambda>(r, n4, w5).
        exit_unless0 r ((v1, n4, g), w5)))))))))"

definition main_setup ::
    "os \<Rightarrow> string list \<Rightarrow> conf \<Rightarrow> world \<Rightarrow> (conf \<times> world) run" where
  "main_setup os args c w =
     (case c of (v, n, g) \<Rightarrow>
        bind_run (vrrp_options os args (vrrp_init v, vrrp_net_init n, g) w) (\<lambda>(r, c1, w1).
        bind_run (exit_unless0 r ()) (\<lambda>_.
        bind_run (main_files os c1 w1) (\<lambda>(c2, w2).
        bind_run (main_network os c2 w2) (\<lambda>((v3, n3, g3), w3).
        bind_run (main_daemonize os g3 w3) (\<lambda>w4.
        bind_run (pidfile os g3 w4) (\<lambda>w5.
        case uvrrpd_sched_set os (syscall w5) of (_, w6) \<Rightarrow>
          Ret ((v3, n3, g3), w6\<lparr>reg := set_bit KEEP_GOING (reg w6)\<rparr>))))))))"

text \<open>The loop.  \<open>None\<close> is a daemon that runs forever.\<close>

partial_function (option) main_loop ::
    "os \<Rightarrow> vrrp \<Rightarrow> vrrp_net \<Rightarrow> world \<Rightarrow> (vrrp \<times> vrrp_net \<times> world) run option" where
  "main_loop os v n w =
     (if test_bit KEEP_GOING (reg w)
      then (case vrrp_process os v n w of
              Ret (r, v', n', w') \<Rightarrow> if r \<noteq> 0 then Some (Ret (v', n', w')) else main_loop os v' n' w'
            | Exit \<Rightarrow> Some Exit
            | Undef \<Rightarrow> Some Undef
            | Diverge \<Rightarrow> Some Diverge)
      else Some (Ret (v, n, w)))"

text \<open>The shutdown, up to the \<open>return\<close>.\<close>

definition main_shutdown :: "conf \<Rightarrow> world \<Rightarrow> (conf \<times> world) run" where
  "main_shutdown c w =
     (case c of (v, n, g) \<Rightarrow>
        (let n1 = vrrp_adv_cleanup n;
             n2 = (if family n1 = AF_INET then vrrp_arp_cleanup n1 else vrrp_na_cleanup n1);
             v1 = vrrp_exec_cleanup (vrrp_cleanup v);
             v2 = v1\<lparr>ctrl := vrrp_ctrl_cleanup (ctrl v1)\<rparr>;
             (n3, w1) = vrrp_net_cleanup n2 w;
             g1 = (log_close g)\<lparr>loglevel := None\<rparr>
         in bind_run (pidfile_unlink g1 w1) (\<lambda>w2.
            bind_run (ctrlfile_unlink g1 w2) (\<lambda>w3.
              Ret ((v2, n3, g1\<lparr>pidfile_name := Freed\<rparr>), syscall w3)))))"

text \<open>
  The whole function.  \<open>None\<close> is a daemon that runs forever, \<open>Exit\<close> a failed set-up, and \<open>Ret\<close> the
  \<open>return EXIT_SUCCESS\<close>.
\<close>

definition main ::
    "os \<Rightarrow> string list \<Rightarrow> conf \<Rightarrow> world \<Rightarrow> (conf \<times> world) run option" where
  "main os args c w =
     (case main_setup os args c w of
        Ret ((v, n, g), w1) \<Rightarrow>
          (case main_loop os v n w1 of
             None \<Rightarrow> None
           | Some r \<Rightarrow> Some (bind_run r (\<lambda>(v', n', w2). main_shutdown (v', n', g) w2)))
      | Exit \<Rightarrow> Some Exit | Undef \<Rightarrow> Some Undef | Diverge \<Rightarrow> Some Diverge)"

text \<open>The functions registered with \<open>atexit\<close> run after \<open>main\<close> returns, the last one first.\<close>

definition exit_handlers :: "daemon \<Rightarrow> world \<Rightarrow> world run" where
  "exit_handlers g w = bind_run (pidfile_unlink g w) (\<lambda>w1. ctrlfile_unlink g w1)"

section \<open>Set-up gives a well-formed instance\<close>

lemma exit_unless0_Ret [simp]: "exit_unless0 r x = Ret y \<longleftrightarrow> r = 0 \<and> y = x"
  by (auto simp: exit_unless0_def)

lemma bind_exit_unless0 [simp]:
  "bind_run (exit_unless0 r ()) f = Ret y \<longleftrightarrow> r = 0 \<and> f () = Ret y"
  by (auto simp: exit_unless0_def)

lemma ctrlfile_frame:
  "ctrlfile os g v w = Ret (v', w') \<Longrightarrow> \<exists>c fifo. v' = v\<lparr>ctrl := c\<rparr> \<and> ctrlfile_name g = Heap_str fifo"
  by (cases "ctrlfile_name g") (auto simp: ctrlfile_def bind_run_Ret_iff Let_def split: if_splits)

text \<open>Memory that \<open>malloc\<close> happens to return zeroed: then the command array is valid.\<close>

definition zeroed :: "os \<Rightarrow> bool" where
  "zeroed os \<longleftrightarrow> (\<forall>t. \<exists>old. os_malloc os t = Some old \<and> (\<forall>i. old i = 0))"

lemma ctrl_init_zeroed:
  assumes "zeroed os" and "vrrp_ctrl_init os c w = (r, c', w')"
  shows "ctrl_wf c'"
proof -
  obtain old where "os_malloc os (tick w) = Some old" "\<forall>i. old i = 0" using assms(1) by (auto simp: zeroed_def)
  then show ?thesis
    using assms(2) by (auto simp: vrrp_ctrl_init_def ctrl_wf_def CTRL_CMD_NTOKEN_def upt_rec numeral_3_eq_3)
qed

lemma main_files_frame:
  assumes "main_files os (v, n, g) w = Ret ((v', n', g'), w')"
  shows "n' = n \<and> v' = v\<lparr>ctrl := ctrl v'\<rparr> \<and> (zeroed os \<longrightarrow> ctrl_wf (ctrl v'))
    \<and> (\<exists>fifo. ctrlfile_name g' = Heap_str fifo)"
proof -
  obtain r g1 w1 where 1: "pidfile_init os (unat (vrid v)) g w = (r, g1, w1)" by (metis prod_cases3)
  obtain w2 where 2: "pidfile_check os w1 = Ret w2"
    using assms by (auto simp: main_files_def 1 bind_run_Ret_iff)
  obtain r2 g2 w3 where 3: "ctrlfile_init os (unat (vrid v)) (log_open (Some ''uvrrpd'') (loglevel g1) g1) w2 = (r2, g2, w3)"
    by (metis prod_cases3)
  obtain v1 w4 where 4: "ctrlfile os g2 v w3 = Ret (v1, w4)"
    using assms by (auto simp: main_files_def 1 2 3 bind_run_Ret_iff)
  obtain r3 k w5 where 5: "vrrp_ctrl_init os (ctrl v1) w4 = (r3, k, w5)" by (metis prod_cases3)
  have *: "v' = v1\<lparr>ctrl := k\<rparr>" "n' = n" "g' = g2" using assms by (simp_all add: main_files_def 1 2 3 4 5)
  moreover obtain c fifo where "v1 = v\<lparr>ctrl := c\<rparr>" "ctrlfile_name g2 = Heap_str fifo"
    using ctrlfile_frame [OF 4] by blast
  moreover have "zeroed os \<longrightarrow> ctrl_wf k" using ctrl_init_zeroed [OF _ 5] by blast
  ultimately show ?thesis by simp
qed

lemma net_socket_frame:
  assumes "vrrp_net_socket os n w = Ret (0, n1, w1)"
  shows "\<exists>fd. n1 = n\<lparr>sock := fd, ipx_helper := vrrp_ipx_set (family n)\<rparr>
    \<and> (family n = AF_INET \<or> family n = AF_INET6)"
  using assms
  by (auto simp: vrrp_net_socket_def vrrp_ipx_set_def Let_def bind_run_Ret_iff split: if_splits option.splits prod.splits)

lemma socket_xmit_frame: "vrrp_net_socket_xmit os n w = (r, n1, w1) \<Longrightarrow> \<exists>fd. n1 = n\<lparr>xmit := fd\<rparr>"
  by (auto simp: vrrp_net_socket_xmit_def Let_def split: if_splits)

lemma exec_init_frame: "vrrp_exec_init os v w = (r, v1, w1) \<Longrightarrow> r = 0 \<Longrightarrow> \<exists>av. v1 = v\<lparr>argv := Some av\<rparr>"
  by (auto simp: vrrp_exec_init_def split: if_splits)

lemma arp_init_empty: "vip_list n = [] \<Longrightarrow> vrrp_arp_init os n w = (r, n', w') \<Longrightarrow> r = -1"
  by (simp add: vrrp_arp_init_def)

text \<open>The configuration of an instance with up to 255 addresses.\<close>

lemma conf_range_base:
  assumes "conf_range ips v n" and "length ips \<le> 255" and "auth_set (v, n, g)"
  shows "conf_base (n\<lparr>sock := fd, ipx_helper := vrrp_ipx_set (family n), xmit := fd'\<rparr>) (v\<lparr>argv := av\<rparr>)"
proof -
  have "unat (of_nat (length ips) :: u8) = length ips" using assms(2) by (simp add: unat_of_nat)
  moreover have "auth_type v = SIMPLE \<longrightarrow> (case auth_data v of None \<Rightarrow> False | Some a \<Rightarrow> length a \<le> 8)"
    using assms(1,3) by (auto simp: conf_range_def auth_set_def split: option.splits)
  ultimately show ?thesis using assms(1) by (auto simp: conf_range_def conf_base_def)
qed

text \<open>Memory for every buffer, and the two multicast addresses can be converted.\<close>

definition setup_os :: "os \<Rightarrow> bool" where
  "setup_os os \<longleftrightarrow> build_os os \<and> (\<exists>dst. na_os os dst)"

lemma main_topology_wf:
  assumes "conf_ok n v" and "setup_os os" and "vip_list n \<noteq> []" and "ifname (vif n) \<noteq> None" and "pkt_wf (pkt n)"
    and "ctrl_wf (ctrl v)" and "argv v \<noteq> None"
  obtains n1 n2 w1 w2 where "vrrp_adv_init os n v w = Ret (0, n1, w1)" "main_topology os n1 w1 = Ret (0, n2, w2)"
    "inst_wf v n2" "advertises n2 v"
proof -
  obtain dst where os: "build_os os" "na_os os dst" using assms(2) by (auto simp: setup_os_def)
  have fam: "family n = AF_INET \<or> family n = AF_INET6" using assms(1) by (simp add: conf_ok_def conf_base_def)
  show ?thesis
  proof (cases "family n = AF_INET")
    case True
    show ?thesis
    proof (rule setup_ip4 [OF assms(1) os(1) True assms(3-7), of w], goal_cases)
      case (1 n1 n2 w1 w2)
      then have "advertises n2 v" using init_carries [OF assms(1) os(1) 1(1) 1(9)] by simp
      with 1 show ?thesis by (intro that [OF 1(1)]) (simp_all add: main_topology_def)
    qed
  next
    case False
    then have six: "family n = AF_INET6" using fam by simp
    show ?thesis
    proof (rule setup_ip6 [OF assms(1) os six assms(3-7), of w], goal_cases)
      case (1 n1 n2 w1 w2)
      then have "advertises n2 v" using init_carries [OF assms(1) os(1) 1(1) 1(6)] by simp
      with 1 show ?thesis by (intro that [OF 1(1)]) (simp_all add: main_topology_def family_defs)
    qed
  qed
qed

lemma main_topology_empty:
  assumes "family n = AF_INET \<or> family n = AF_INET6" and "vip_list n = []"
  shows "main_topology os n w \<noteq> Ret (0, n', w')"
  using assms by (auto simp: main_topology_def vrrp_arp_init_def vrrp_na_init_def family_defs)

lemma main_network_ok:
  assumes "main_network os (v, n, g) w = Ret ((v', n', g'), w')" and "setup_os os"
    and "conf_range ips v n \<or> vip_list n = []"
    and "length ips \<le> 255" and "auth_set (v, n, g)" and "ctrl_wf (ctrl v)"
  shows "inst_wf v' n' \<and> advertises n' v' \<and> conf_range ips v n \<and> (\<exists>av. v' = v\<lparr>argv := Some av\<rparr>)"
proof -
  have os: "build_os os" using assms(2) by (simp add: setup_os_def)
  obtain r1 n1 w1 where 1: "vrrp_net_socket os n w = Ret (r1, n1, w1)"
    using assms(1) by (auto simp: main_network_def bind_run_Ret_iff)
  obtain r2 n2 w2 where 2: "vrrp_net_socket_xmit os n1 w1 = (r2, n2, w2)" by (metis prod_cases3)
  obtain r3 v3 w3 where 3: "vrrp_exec_init os v w2 = (r3, v3, w3)" by (metis prod_cases3)
  have r: "r1 = 0" "r2 = 0" "r3 = 0"
    using assms(1) by (auto simp: main_network_def 1 2 3)
  obtain fd fd' av where f: "n2 = n\<lparr>sock := fd, ipx_helper := vrrp_ipx_set (family n), xmit := fd'\<rparr>"
      "v3 = v\<lparr>argv := Some av\<rparr>" "family n = AF_INET \<or> family n = AF_INET6"
    using net_socket_frame [OF 1 [unfolded r]] socket_xmit_frame [OF 2] exec_init_frame [OF 3 r(3)] by auto
  obtain n3 w4 where 4: "vrrp_adv_init os n2 v3 w3 = Ret (0, n3, w4)"
      "main_topology os n3 w4 = Ret (0, n', w')" "v' = v3"
    using assms(1) by (auto simp: main_network_def 1 2 3 r bind_run_Ret_iff)
  have "\<exists>iov. n3 = n2\<lparr>adv_iov := iov\<rparr>"
    using 4(1) by (auto simp: vrrp_adv_init_def Let_def bind_run_Ret_iff split: prod.splits)
  then have "vip_list n \<noteq> []"
    using 4(2) main_topology_empty [of n3 os w4 n' w'] f by auto
  then have range: "conf_range ips v n" using assms(3) by blast
  have base: "conf_base n2 v3"
    using conf_range_base [OF range assms(4,5), where fd = fd and fd' = fd' and av = "Some av"] f by simp
  then have "ipx_helper n2 \<noteq> None" by (auto simp: conf_base_def vrrp_ipx_set_def)
  then have conf: "conf_ok n2 v3"
    using vrrp_adv_init_overflow [OF base os, of _ w3] 4(1) base by (auto simp: conf_ok_def)
  have pre: "vip_list n2 \<noteq> []" "ifname (vif n2) \<noteq> None" "pkt_wf (pkt n2)" "ctrl_wf (ctrl v3)" "argv v3 \<noteq> None"
    using range \<open>vip_list n \<noteq> []\<close> assms(6) f by (simp_all add: conf_range_def)
  obtain m1 m2 x1 x2 where "vrrp_adv_init os n2 v3 w3 = Ret (0, m1, x1)"
    "main_topology os m1 x1 = Ret (0, m2, x2)" "inst_wf v3 m2" "advertises m2 v3"
    using main_topology_wf [OF conf assms(2) pre] .
  then have "inst_wf v3 n'" "advertises n' v3" using 4 by simp_all
  then show ?thesis using 4(3) f(2) range by blast
qed

lemma initial_inv:
  assumes "length (adv_iov n) = 3"
  shows "opts_inv (vrrp_init v, vrrp_net_init n, g)" "auth_set (vrrp_init v, vrrp_net_init n, g)"
    "vip_list (vrrp_net_init n) = []"
  using assms
  by (simp_all add: opts_inv_def auth_set_def vrrp_init_def vrrp_net_init_def pkt_wf_def family_defs)

text \<open>Early success leaves no address, a complete run leaves a configuration in range.\<close>

lemma vrrp_options_outcome:
  assumes "length (adv_iov n) = 3" and "addr_os os"
    and "vrrp_options os args (vrrp_init v, vrrp_net_init n, g) w = Ret (0, (v', n', g'), w')"
  shows "conf_range (snd (getopt_long args)) v' n' \<or> vip_list n' = []"
  using vrrp_options_range [OF initial_inv(1) [OF assms(1)] initial_inv(3) [OF assms(1)] assms(2,3)] by blast

lemma conf_range_ctrl [simp]: "conf_range ips (v\<lparr>ctrl := k\<rparr>) n = conf_range ips v n"
  "conf_range ips (v\<lparr>argv := a\<rparr>) n = conf_range ips v n"
  by (simp_all add: conf_range_def)

lemma auth_set_ctrl [simp]: "auth_set (v\<lparr>ctrl := k\<rparr>, c) = auth_set (v, c')"
  by (simp add: auth_set_def)

lemma main_setup_wf:
  assumes "main_setup os args (v, n, g) w = Ret ((v', n', g'), w')"
    and "length (adv_iov n) = 3" and "addr_os os" and "setup_os os" and "zeroed os"
    and "length (snd (getopt_long args)) \<le> 255"
  shows "inst_wf v' n' \<and> advertises n' v' \<and> timers_ok v' \<and> state v' = INIT \<and> test_bit KEEP_GOING (reg w')
    \<and> 1 \<le> unat (adv_int v') \<and> unat (adv_int v') \<le> 4095 \<and> vrid v' \<noteq> 0"
proof -
  obtain v1 n1 g1 w1 v2 n2 g2 w2 v3 n3 g3 w3 z where
    1: "vrrp_options os args (vrrp_init v, vrrp_net_init n, g) w = Ret (0, (v1, n1, g1), w1)" and
    2: "main_files os (v1, n1, g1) w1 = Ret ((v2, n2, g2), w2)" and
    3: "main_network os (v2, n2, g2) w2 = Ret ((v3, n3, g3), w3)" and
    4: "v' = v3" "n' = n3" "reg w' = set_bit KEEP_GOING z"
    using assms(1) by (auto simp: main_setup_def bind_run_Ret_iff uvrrpd_sched_set_def)
  have f2: "n2 = n1" "v2 = v1\<lparr>ctrl := ctrl v2\<rparr>" "ctrl_wf (ctrl v2)"
    using main_files_frame [OF 2] assms(5) by auto
  have mal: "\<forall>t. os_malloc os t \<noteq> None" using assms(4) by (simp add: setup_os_def build_os_def)
  have auth: "auth_set (v2, n2, g2)"
    using vrrp_options_auth [OF mal initial_inv(2) [OF assms(2)] 1] f2(2) auth_set_ctrl by metis
  have "conf_range (snd (getopt_long args)) v2 n2 \<or> vip_list n2 = []"
    using vrrp_options_outcome [OF assms(2,3) 1] f2(1,2) conf_range_ctrl(1) by metis
  from main_network_ok [OF 3 assms(4) this assms(6) auth f2(3)]
  obtain av where wf: "inst_wf v3 n3" "conf_range (snd (getopt_long args)) v2 n2" "v3 = v2\<lparr>argv := Some av\<rparr>" "advertises n3 v3" by blast
  then have "conf_range (snd (getopt_long args)) v3 n2" by simp
  then have "timers_ok v3 \<and> state v3 = INIT \<and> 1 \<le> unat (adv_int v3) \<and> unat (adv_int v3) \<le> 4095 \<and> vrid v3 \<noteq> 0"
    by (simp add: conf_range_def timers_ok_def)
  moreover have "test_bit KEEP_GOING (reg w')" using reg.test_set [of KEEP_GOING KEEP_GOING] 4(3) by simp
  ultimately show ?thesis using wf(1,4) 4(1,2) by simp
qed

section \<open>The loop\<close>

text \<open>The states the loop goes through.\<close>

inductive reachable ::
    "os \<Rightarrow> vrrp \<times> vrrp_net \<times> world \<Rightarrow> vrrp \<times> vrrp_net \<times> world \<Rightarrow> bool" for os s0 where
  start: "reachable os s0 s0"
| step: "reachable os s0 (v, n, w) \<Longrightarrow> test_bit KEEP_GOING (reg w) \<Longrightarrow>
    vrrp_process os v n w = Ret (0, v', n', w') \<Longrightarrow> reachable os s0 (v', n', w')"

lemma process_keeps:
  assumes "inst_wf v n" and "timers_ok v" and "os_ok os"
  obtains v' n' w' where "vrrp_process os v n w = Ret (0, v', n', w')" "inst_wf v' n'" "timers_ok v'"
    "conf_of v' = (conf_of v)\<lparr>rc_prio := uint (priority v')\<rparr>"
proof -
  obtain i p r v' n' w' where 1: "observed os v n w = Some (i, p, r)"
    "vrrp_process os v n w = Ret (0, v', n', w')" "process_ok os v n w i v' n' w'"
    "conf_of v' = (conf_of v)\<lparr>rc_prio := uint p\<rparr>"
    using vrrp_process_refines_step [OF assms] .
  from 1(4) have "uint (priority v') = uint p" by (simp add: conf_of_def)
  with 1(2-4) show ?thesis using that by (simp add: process_ok_def)
qed

lemma reachable_inv:
  assumes "reachable os (v0, n0, w0) s" and "inst_wf v0 n0" and "timers_ok v0" and "os_ok os"
  shows "case s of (v, n, w) \<Rightarrow> inst_wf v n \<and> timers_ok v
    \<and> conf_of v = (conf_of v0)\<lparr>rc_prio := uint (priority v)\<rparr> \<and> (advertises n0 v0 \<longrightarrow> advertises n v)"
  using assms(1)
proof induction
  case start
  then show ?case using assms by (simp add: conf_of_def)
next
  case (step v n w v' n' w')
  then have inv: "inst_wf v n" "timers_ok v" "conf_of v = (conf_of v0)\<lparr>rc_prio := uint (priority v)\<rparr>"
    "advertises n0 v0 \<longrightarrow> advertises n v" by simp_all
  then have "advertises n0 v0 \<longrightarrow> advertises n' v'" using advertises_process [OF _ inv(1) assms(4) inv(2) step(3)] by simp
  then show ?case using inv process_keeps [OF inv(1,2) assms(4), of w] step(3) by fastforce
qed

text \<open>
  C10. The invariant of the daemon: in every state the main loop reaches, the instance is
  well formed (sealed packets that carry the current priority, allocated buffers, a clean
  command buffer), the advertisement timer runs exactly in state MASTER and the
  master-down timer exactly in state BACKUP, the configuration other than the priority is what it
  was, and the next step returns 0: the daemon never exits, crashes or hangs by itself.  If the send
  buffers held the advertisement of the configuration at the start, then they hold, byte for
  byte, that of the current priority.
\<close>
theorem daemon_invariant:
  assumes "reachable os (v0, n0, w0) (v, n, w)" and "inst_wf v0 n0" and "timers_ok v0" and "os_ok os"
  shows "inst_wf v n \<and> timers_ok v \<and> conf_of v = (conf_of v0)\<lparr>rc_prio := uint (priority v)\<rparr>
    \<and> (advertises n0 v0 \<longrightarrow> advertises n v) \<and> (\<exists>v' n' w'. vrrp_process os v n w = Ret (0, v', n', w'))"
proof -
  have inv: "inst_wf v n" "timers_ok v" "conf_of v = (conf_of v0)\<lparr>rc_prio := uint (priority v)\<rparr>"
    "advertises n0 v0 \<longrightarrow> advertises n v"
    using reachable_inv [OF assms] by simp_all
  then show ?thesis using process_keeps [OF inv(1,2) assms(4), of w] by blast
qed

theorem daemon_invariant_witness:
  "\<exists>v n w. reachable (ticking 10 Sel_error None) (vrrp0, inst0, world0\<lparr>reg := 2\<rparr>) (v, n, w)
     \<and> w \<noteq> world0\<lparr>reg := 2\<rparr> \<and> inst_wf v n \<and> timers_ok v"
proof -
  let ?os = "ticking 10 Sel_error None" and ?w = "world0\<lparr>reg := 2\<rparr>"
  have ok: "os_ok ?os" by (simp add: ticking_ok)
  have keep: "test_bit KEEP_GOING (reg ?w)" by (simp add: test_bit_def)
  have "state vrrp0 = BACKUP" "nanos (ts (masterdown_timer vrrp0)) < nanos \<lparr>tv_sec = 10, tv_nsec = 0\<rparr>"
    by (simp_all add: vrrp0_def nanos_def NANOUL_def)
  then obtain v n w es where p: "vrrp_process ?os vrrp0 inst0 ?w = Ret (0, v, n, w)"
      "trace w = trace ?w @ es" "sent es = master_frames n"
    using backup_timeout_effect [OF inst0_ok(1) vrrp0_timers(1) ok _ ticking_ok(3), of ?w] ticking_ok(2) by blast
  have "es \<noteq> []" using p(3) by (auto simp: master_frames_def)
  then have "w \<noteq> ?w" using p(2) by auto
  moreover have r: "reachable ?os (vrrp0, inst0, ?w) (v, n, w)"
    using reachable.step [OF reachable.start keep p(1)] .
  ultimately show ?thesis using daemon_invariant [OF r inst0_ok(1) vrrp0_timers(1) ok] by blast
qed

text \<open>When the loop ends it ends in a reachable state, because the flag was cleared.\<close>

lemma reachable_first:
  assumes "reachable os (v', n', w') s" and "test_bit KEEP_GOING (reg w)"
    and "vrrp_process os v n w = Ret (0, v', n', w')"
  shows "reachable os (v, n, w) s"
  using assms(1) by induction (auto intro: reachable.intros assms(2,3))

lemma main_loop_ends:
  assumes "main_loop os v n w = Some x" and "inst_wf v n" and "timers_ok v" and "os_ok os"
  shows "\<exists>v' n' w'. x = Ret (v', n', w') \<and> reachable os (v, n, w) (v', n', w') \<and> \<not> test_bit KEEP_GOING (reg w')"
proof -
  have "inst_wf v n \<longrightarrow> timers_ok v \<longrightarrow> os_ok os \<longrightarrow> (\<exists>v' n' w'. x = Ret (v', n', w')
      \<and> reachable os (v, n, w) (v', n', w') \<and> \<not> test_bit KEEP_GOING (reg w'))"
  proof (rule main_loop.raw_induct [OF _ assms(1)], intro impI)
    fix loop os v n w x
    assume IH: "\<And>os v n w x. loop os v n w = Some x \<Longrightarrow> inst_wf v n \<longrightarrow> timers_ok v \<longrightarrow> os_ok os \<longrightarrow>
        (\<exists>v' n' w'. x = Ret (v', n', w') \<and> reachable os (v, n, w) (v', n', w') \<and> \<not> test_bit KEEP_GOING (reg w'))"
      and body: "(if test_bit KEEP_GOING (reg w)
          then (case vrrp_process os v n w of
              Ret (r, v', n', w') \<Rightarrow> if r \<noteq> 0 then Some (Ret (v', n', w')) else loop os v' n' w'
            | Exit \<Rightarrow> Some Exit | Undef \<Rightarrow> Some Undef | Diverge \<Rightarrow> Some Diverge)
          else Some (Ret (v, n, w))) = Some x"
      and inv: "inst_wf v n" "timers_ok v" "os_ok os"
    obtain v1 n1 w1 where p: "vrrp_process os v n w = Ret (0, v1, n1, w1)" "inst_wf v1 n1" "timers_ok v1"
      using process_keeps [OF inv] .
    show "\<exists>v' n' w'. x = Ret (v', n', w') \<and> reachable os (v, n, w) (v', n', w') \<and> \<not> test_bit KEEP_GOING (reg w')"
    proof (cases "test_bit KEEP_GOING (reg w)")
      case True
      then have "loop os v1 n1 w1 = Some x" using body p(1) by simp
      then show ?thesis using IH p inv(3) reachable_first [OF _ True p(1)] by blast
    next
      case False
      then show ?thesis using body by (auto intro: reachable.start)
    qed
  qed
  then show ?thesis using assms(2-4) by blast
qed

lemma loop_after_signal:
  assumes "inst_wf v n" and "timers_ok v" and "os_ok os" and "state v \<noteq> INIT"
    and "sig = SIGINT \<or> sig = SIGTERM \<or> sig = SIGQUIT"
    and "os_clock os (tick w) = Some now" and "running_timer v = Some vt"
    and "nanos now < nanos (ts (get_timer vt v))" and "os_pselect os (Suc (tick w)) = Sel_signals [sig]"
    and "test_bit KEEP_GOING (reg w)"
  shows "\<exists>v' n' w' es h q. main_loop os v n w = Some (Ret (v', n', w')) \<and> state v' = INIT \<and> inst_wf v' n'
    \<and> trace w' = trace w @ es \<and> h_priority q = 0 \<and> adv_checksum h n' q None None = Some (h_chksum q)
    \<and> (link_up os \<longrightarrow> sent es = (if state v = MASTER then [adv_frame (set_adv_pkt q n')] else []))"
proof -
  obtain v' n' w' es h q where p: "vrrp_process os v n w = Ret (0, v', n', w')" "state v' = INIT"
      "\<not> test_bit KEEP_GOING (reg w')" "trace w' = trace w @ es"
      "h_priority q = 0 \<and> adv_checksum h n' q None None = Some (h_chksum q)"
      "link_up os \<longrightarrow> sent es = (if state v = MASTER then [adv_frame (set_adv_pkt q n')] else [])"
    using signal_resign_effect [OF assms(1-9)] by blast
  have "main_loop os v n w = main_loop os v' n' w'"
    using assms(10) p(1) by (subst main_loop.simps) (simp del: control_bits)
  also have "\<dots> = Some (Ret (v', n', w'))"
    using p(3) by (subst main_loop.simps) (simp del: control_bits)
  finally have loop: "main_loop os v n w = Some (Ret (v', n', w'))" .
  then have "inst_wf v' n'" using main_loop_ends [OF loop assms(1-3)] reachable_inv assms(1-3) by fastforce
  with loop p(2,4-6) show ?thesis by blast
qed

text \<open>
  C12. Termination: a termination signal caught while the daemon waits ends the main loop in
  that step.  The loop returns normally, in state INIT.  A master has sent one advertisement
  of priority 0 with a verifying checksum on the way, so that a backup takes over after the
  skew time; a backup has sent nothing.
\<close>
theorem signal_ends_loop:
  assumes "inst_wf v n" and "timers_ok v" and "os_ok os" and "state v \<noteq> INIT"
    and "sig = SIGINT \<or> sig = SIGTERM \<or> sig = SIGQUIT"
    and "os_clock os (tick w) = Some now" and "running_timer v = Some vt"
    and "nanos now < nanos (ts (get_timer vt v))" and "os_pselect os (Suc (tick w)) = Sel_signals [sig]"
    and "test_bit KEEP_GOING (reg w)"
  shows "\<exists>v' n' w' es h q. main_loop os v n w = Some (Ret (v', n', w')) \<and> state v' = INIT \<and> inst_wf v' n'
    \<and> trace w' = trace w @ es \<and> h_priority q = 0 \<and> adv_checksum h n' q None None = Some (h_chksum q)
    \<and> (link_up os \<longrightarrow> sent es = (if state v = MASTER then [adv_frame (set_adv_pkt q n')] else []))"
  using assms by (rule loop_after_signal)

theorem signal_ends_loop_witness:
  "\<exists>v' n' w'. main_loop (ticking 5 (Sel_signals [SIGTERM]) None) vrrp0 inst0 (world0\<lparr>reg := 2\<rparr>)
      = Some (Ret (v', n', w')) \<and> state v' = INIT"
proof -
  let ?w = "world0\<lparr>reg := 2\<rparr>"
  have rt: "running_timer vrrp0 = Some Masterdown_timer"
    using running_timer_states(1) [OF vrrp0_timers(1)] by (simp add: vrrp0_def)
  have lt: "nanos \<lparr>tv_sec = 5, tv_nsec = 0\<rparr> < nanos (ts (get_timer Masterdown_timer vrrp0))"
    by (simp add: get_timer_def vrrp0_def nanos_def NANOUL_def)
  have sig: "os_pselect (ticking 5 (Sel_signals [SIGTERM]) None) (Suc (tick ?w)) = Sel_signals [SIGTERM]"
    by (simp add: ticking_def)
  have ok: "os_ok (ticking 5 (Sel_signals [SIGTERM]) None)" by (simp add: ticking_ok)
  have st: "state vrrp0 \<noteq> INIT" by (simp add: vrrp0_def)
  have keep: "test_bit KEEP_GOING (reg ?w)" by (simp add: test_bit_def)
  have "SIGTERM = SIGINT \<or> SIGTERM = SIGTERM \<or> SIGTERM = SIGQUIT" by simp
  from signal_ends_loop [OF inst0_ok(1) vrrp0_timers(1) ok st this ticking_ok(3) rt lt sig keep]
  show ?thesis by blast
qed

section \<open>From the command line to the loop\<close>


text \<open>An example run of the set-up in the quiet environment.\<close>

definition args0 :: "string list" where
  "args0 = [''-v'', ''42'', ''--inter=eth0'', ''10.0.0.254'', ''-r3'']"

lemma args0_options:
  "getopt_long args0 = ([(CHR ''v'', ''42''), (CHR ''i'', ''eth0''), (CHR ''r'', ''3'')], [''10.0.0.254''])"
  by code_simp

lemma quiet_addr: "addr_os (ticking sec ev d)" "zeroed (ticking sec ev d)" "setup_os (ticking sec ev d)"
  by (auto simp: addr_os_def zeroed_def ticking_def quiet_os_def setup_os_def build_os_def na_os_def family_defs)

lemma ticking_same:
  "os_malloc (ticking sec ev d) = os_malloc quiet_os" "os_pton (ticking sec ev d) = os_pton quiet_os"
  "os_ifaddrs (ticking sec ev d) = os_ifaddrs quiet_os" "os_mtu (ticking sec ev d) = os_mtu quiet_os"
  "os_call (ticking sec ev d) = os_call quiet_os" "os_socket (ticking sec ev d) = os_socket quiet_os"
  by (simp_all add: ticking_def)

lemma options_run:
  "\<exists>v n g w. vrrp_options (ticking sec ev d) args0 (vrrp_init vrrp0, vrrp_net_init vnet0, daemon0) world0
      = Ret (0, (v, n, g), w) \<and> vip_list n \<noteq> [] \<and> family n = AF_INET
    \<and> pidfile_name g = Null_str \<and> ctrlfile_name g = Null_str \<and> loglevel g = None"
proof -
  have m: "mystrtoul ''42'' VRID_MAX = Inr 42" "mystrtoul ''3'' 3 = Inr 3"
    by (simp_all add: parse_defs VRID_MAX_def)
  have n: "split_ip_netmask (ticking sec ev d) AF_INET ''10.0.0.254'' = Inr ([10, 0, 0, 254], 0)"
    by (simp add: split_ip_netmask_def ticking_def quiet_os_def AF_INET_def)
  show ?thesis
    by (simp add: args0_options vrrp_options_def process_options_def vrrp_option_def m strndup_def IFNAMSIZ_def
        vrrp_net_vip_set_def n vrrp_net_vif_getaddr_def vrrp_net_vif_mtu_def
        getaddr_entry_def vrrp_init_def vrrp_net_init_def daemon0_def ticking_same example_defs Let_def)
qed

lemma ctrl_init_run: "\<exists>k. vrrp_ctrl_init (ticking sec ev d) c w = (0, k, syscall w) \<and> ctrl_wf k"
  using ctrl_init_zeroed [OF quiet_addr(2)] by (simp add: vrrp_ctrl_init_def ticking_def quiet_os_def)

lemma files_run:
  assumes "pidfile_name g = Null_str" and "ctrlfile_name g = Null_str"
  shows "\<exists>k g' w' nm. main_files (ticking sec ev d) (v, n, g) w = Ret ((v\<lparr>ctrl := k\<rparr>, n, g'), w')
     \<and> ctrl_wf k \<and> pidfile_name g' = Heap_str nm"
proof -
  obtain g1 nm where 1: "pidfile_init (ticking sec ev d) (unat (vrid v)) g w = (0, g1, syscall w)"
      "pidfile_name g1 = Heap_str nm" "ctrlfile_name g1 = Null_str"
    using assms by (simp add: pidfile_init_def ticking_def quiet_os_def)
  obtain w2 where 2: "pidfile_check (ticking sec ev d) (syscall w) = Ret w2"
    by (simp add: pidfile_check_def ticking_def quiet_os_def Let_def)
  obtain g2 nm2 where 3: "ctrlfile_init (ticking sec ev d) (unat (vrid v)) (log_open (Some ''uvrrpd'') (loglevel g1) g1) w2
      = (0, g2, syscall w2)" "pidfile_name g2 = Heap_str nm" "ctrlfile_name g2 = Heap_str nm2"
    using 1 by (simp add: ctrlfile_init_def log_open_def log_trigger_def ticking_def quiet_os_def Let_def)
  obtain fd w4 where 4: "ctrlfile (ticking sec ev d) g2 v (syscall w2) = Ret (v\<lparr>ctrl := (ctrl v)\<lparr>ctrl_fd := fd\<rparr>\<rparr>, w4)"
    using 3 by (simp add: ctrlfile_def ctrlfile_unlink_def unlink_name_def ticking_def quiet_os_def Let_def)
  obtain k where "vrrp_ctrl_init (ticking sec ev d) ((ctrl v)\<lparr>ctrl_fd := fd\<rparr>) w4 = (0, k, syscall w4)" "ctrl_wf k"
    using ctrl_init_run by blast
  then have "main_files (ticking sec ev d) (v, n, g) w = Ret ((v\<lparr>ctrl := k\<rparr>, n, g2), syscall w4)"
    using 1 2 3 4 by (simp add: main_files_def exit_unless0_def)
  with \<open>ctrl_wf k\<close> 3(2) show ?thesis by blast
qed

lemma network_run:
  assumes "conf_range ips v n" and "length ips \<le> 255" and "auth_set (v, n, g)" and "auth_fits n v"
    and "ctrl_wf (ctrl v)" and "vip_list n \<noteq> []"
  shows "\<exists>v' n' w'. main_network (ticking sec ev d) (v, n, g) w = Ret ((v', n', g), w')"
proof -
  have "family n = AF_INET \<or> family n = AF_INET6" using assms(1) by (simp add: conf_range_def)
  moreover obtain nm where "ifname (vif n) = Some nm" using assms(1) by (auto simp: conf_range_def)
  ultimately obtain w1 where 1: "vrrp_net_socket (ticking sec ev d) n w
      = Ret (0, n\<lparr>sock := 5, ipx_helper := vrrp_ipx_set (family n)\<rparr>, w1)"
    by (auto simp: vrrp_net_socket_def vrrp_ipx_set_def Let_def vrrp_ip4_setsockopt_def vrrp_ip4_mgroup_def
        vrrp_ip6_setsockopt_def vrrp_ip6_mgroup_def ticking_def quiet_os_def)
  let ?n1 = "n\<lparr>sock := 5, ipx_helper := vrrp_ipx_set (family n)\<rparr>" let ?n2 = "?n1\<lparr>xmit := 5\<rparr>"
  have 2: "vrrp_net_socket_xmit (ticking sec ev d) ?n1 w1 = (0, ?n2, syscall w1)"
    by (simp add: vrrp_net_socket_xmit_def ticking_def quiet_os_def)
  obtain av w3 where 3: "vrrp_exec_init (ticking sec ev d) v (syscall w1) = (0, v\<lparr>argv := Some av\<rparr>, w3)"
    by (simp add: vrrp_exec_init_def ticking_def quiet_os_def list_ex_iff)
  let ?v = "v\<lparr>argv := Some av\<rparr>"
  have "conf_base ?n2 ?v" using conf_range_base [OF assms(1-3)] by simp
  then have conf: "conf_ok ?n2 ?v" using assms(4) by (simp add: conf_ok_def auth_fits_def split: option.splits)
  have pre: "vip_list ?n2 \<noteq> []" "ifname (vif ?n2) \<noteq> None" "pkt_wf (pkt ?n2)" "ctrl_wf (ctrl ?v)" "argv ?v \<noteq> None"
    using assms by (simp_all add: conf_range_def)
  obtain m1 m2 x1 x2 where 4: "vrrp_adv_init (ticking sec ev d) ?n2 ?v w3 = Ret (0, m1, x1)"
    "main_topology (ticking sec ev d) m1 x1 = Ret (0, m2, x2)" "inst_wf ?v m2"
    using main_topology_wf [OF conf quiet_addr(3) pre] .
  then show ?thesis using 1 2 3 by (simp add: main_network_def exit_unless0_def)
qed

lemma setup_run:
  "\<exists>v n g w. main_setup (ticking sec ev d) args0 (vrrp0, vnet0, daemon0) world0 = Ret ((v, n, g), w)"
proof -
  have l3: "length (adv_iov vnet0) = 3" by (simp add: vnet0_def)
  obtain v1 n1 g1 w1 where 1: "vrrp_options (ticking sec ev d) args0
        (vrrp_init vrrp0, vrrp_net_init vnet0, daemon0) world0 = Ret (0, (v1, n1, g1), w1)"
      "vip_list n1 \<noteq> []" "family n1 = AF_INET" "pidfile_name g1 = Null_str" "ctrlfile_name g1 = Null_str"
    using options_run by blast
  have range: "conf_range [''10.0.0.254''] v1 n1"
    using vrrp_options_outcome [OF l3 quiet_addr(1) 1(1)] 1(2) by (simp add: args0_options)
  have mal: "\<forall>t. os_malloc (ticking sec ev d) t \<noteq> None" by (simp add: ticking_def quiet_os_def)
  have auth: "auth_set (v1, n1, g1)" using vrrp_options_auth [OF mal initial_inv(2) [OF l3] 1(1)] .
  obtain k g2 w2 nm where 2: "main_files (ticking sec ev d) (v1, n1, g1) w1 = Ret ((v1\<lparr>ctrl := k\<rparr>, n1, g2), w2)"
      "ctrl_wf k" "pidfile_name g2 = Heap_str nm"
    using files_run [OF 1(4,5)] by blast
  have "conf_range [''10.0.0.254''] (v1\<lparr>ctrl := k\<rparr>) n1" "auth_set (v1\<lparr>ctrl := k\<rparr>, n1, g2)"
    using range auth by (simp_all add: auth_set_def)
  moreover have "auth_fits n1 (v1\<lparr>ctrl := k\<rparr>)"
    using range 1(3) by (auto simp: auth_fits_def conf_range_def tail_size_def split: option.splits)
  ultimately obtain v3 n3 w3 where 3: "main_network (ticking sec ev d) (v1\<lparr>ctrl := k\<rparr>, n1, g2) w2 = Ret ((v3, n3, g2), w3)"
    using network_run [of "[''10.0.0.254'']" "v1\<lparr>ctrl := k\<rparr>" n1 g2 sec ev d w2] 1(2) 2(2) by auto
  obtain w4 where "main_daemonize (ticking sec ev d) g2 w3 = Ret w4"
    by (cases "background g2") (simp_all add: main_daemonize_def ticking_def quiet_os_def)
  moreover obtain w5 where "pidfile (ticking sec ev d) g2 w4 = Ret w5"
    using 2(3) by (simp add: pidfile_def ticking_def quiet_os_def Let_def)
  ultimately show ?thesis
    using 1(1) 2(1) 3 by (simp add: main_setup_def exit_unless0_def uvrrpd_sched_set_def)
qed


section \<open>After the loop\<close>

text \<open>After the set-up both names are allocated; they are what the shutdown removes.\<close>

lemma main_setup_names:
  assumes "main_setup os args (v, n, g) w = Ret ((v', n', g'), w')"
  shows "\<exists>pid fifo. pidfile_name g' = Heap_str pid \<and> ctrlfile_name g' = Heap_str fifo"
proof -
  obtain v1 n1 g1 w1 v2 n2 g2 w2 v3 n3 g3 w3 w4 w5 where
    2: "main_files os (v1, n1, g1) w1 = Ret ((v2, n2, g2), w2)" and
    3: "main_network os (v2, n2, g2) w2 = Ret ((v3, n3, g3), w3)" and
    4: "pidfile os g3 w4 = Ret w5" "g' = g3"
    using assms by (auto simp: main_setup_def bind_run_Ret_iff uvrrpd_sched_set_def)
  have "g3 = g2" using 3 by (auto simp: main_network_def bind_run_Ret_iff case_prod_beta)
  moreover have "\<exists>fifo. ctrlfile_name g2 = Heap_str fifo"
    using main_files_frame [OF 2] by blast
  moreover have "\<exists>pid. pidfile_name g3 = Heap_str pid"
    using 4(1) by (auto simp: pidfile_def split: heap_str.splits)
  ultimately show ?thesis using 4(2) by simp
qed

lemma main_shutdown_effect:
  assumes "pidfile_name g = Heap_str pid" and "ctrlfile_name g = Heap_str fifo"
  shows "\<exists>v' n' g' w'. main_shutdown (v, n, g) w = Ret ((v', n', g'), w')
    \<and> trace w' = trace w @ [File ''unlink'' pid, File ''unlink'' fifo]
    \<and> scriptname v' = None \<and> auth_data v' = None \<and> argv v' = None \<and> cmd (ctrl v') = []
    \<and> vip_list n' = [] \<and> ifname (vif n') = None \<and> list_all (\<lambda>iov. iov_base iov = None) (adv_iov n')
    \<and> pidfile_name g' = Freed"
  using assms
  by (simp add: main_shutdown_def Let_def pidfile_unlink_def ctrlfile_unlink_def unlink_name_def
      vrrp_net_cleanup_def vrrp_adv_cleanup_def vrrp_arp_cleanup_def vrrp_na_cleanup_def topo_release_def
      vrrp_cleanup_def vrrp_exec_cleanup_def vrrp_ctrl_cleanup_def log_close_def list_all_iff)


text \<open>
  An environment with a constant clock that delivers SIGTERM to every wait: the daemon leaves state INIT, and
  its next step ends the loop.
\<close>

lemma init_step:
  assumes "inst_wf v n" and "timers_ok v" and "os_ok os" and "state v = INIT" and "1 \<le> unat (adv_int v)"
    and "\<forall>t. os_clock os t = Some now"
  obtains v' n' w' vt where "vrrp_process os v n w = Ret (0, v', n', w')" "inst_wf v' n'" "timers_ok v'"
    "state v' \<noteq> INIT" "test_bit KEEP_GOING (reg w') = test_bit KEEP_GOING (reg w)"
    "running_timer v' = Some vt" "nanos now < nanos (ts (get_timer vt v'))"
proof -
  obtain i p r v' n' w' where 1: "observed os v n w = Some (i, p, r)"
    "vrrp_process os v n w = Ret (0, v', n', w')" "process_ok os v n w i v' n' w'"
    "conf_of v' = (conf_of v)\<lparr>rc_prio := uint p\<rparr>" "test_bit KEEP_GOING (reg w') = test_bit KEEP_GOING r"
    using vrrp_process_refines_step [OF assms(1-3)] .
  have i: "i = Start" "p = priority v" "r = reg w" using 1(1) assms(4) by (simp_all add: observed_def)
  obtain outs where s: "rfc_step (conf_of v') (nanos now) (abs_state v) Start (abs_state v') outs"
    and wf: "inst_wf v' n'" "timers_ok v'"
    using 1(3) assms(6) unfolding process_ok_def i read_in_def by auto
  have "adv_int v \<noteq> 0" using assms(5) by auto
  then have "0 < uint (adv_int v)" using uint_0_iff [of "adv_int v"] uint_ge_0 [of "adv_int v"] by linarith
  then have adv: "0 < rc_adv (conf_of v')" using 1(4) by (simp add: conf_of_def)
  have d: "0 \<le> rc_delay (conf_of v')" "rc_prio (conf_of v') \<le> 255"
    using uint_lt2p [of "priority v'"] by (simp_all add: conf_of_def)
  have pos: "0 < mdown (conf_of v') (rc_adv (conf_of v'))"
    using adv d(2) by (simp add: mdown_def skew_def pos_imp_zdiv_nonneg_iff add_pos_nonneg)
  have later: "nanos now < after (conf_of v') (nanos now) x" if "0 < x" for x
    using that by (simp add: after_def CENTUL_def NANOUL_def)
  have "abs_state v = Initialize" using assms(4) by (simp add: abs_state_def)
  then consider (master) "state v' = MASTER" "nanos now < nanos (ts (adv_timer v'))"
    | (backup) "state v' = BACKUP" "nanos now < nanos (ts (masterdown_timer v'))"
    using s adv d(1) pos later
    by (cases "state v'") (auto simp: abs_state_def elim!: initialize_stepE split: if_splits)
  then obtain vt where "state v' \<noteq> INIT" "running_timer v' = Some vt" "nanos now < nanos (ts (get_timer vt v'))"
    using running_timer_states [OF wf(2)] by cases (auto simp: get_timer_def)
  with 1(2,5) wf i(3) show ?thesis using that by blast
qed

lemma signal_from_init:
  assumes "inst_wf v n" and "timers_ok v" and "os_ok os" and "state v = INIT" and "1 \<le> unat (adv_int v)"
    and "\<forall>t. os_clock os t = Some now" and "\<forall>t. os_pselect os t = Sel_signals [SIGTERM]"
    and "test_bit KEEP_GOING (reg w)"
  shows "main_loop os v n w \<noteq> None"
proof -
  obtain v' n' w' vt where s: "vrrp_process os v n w = Ret (0, v', n', w')" "inst_wf v' n'" "timers_ok v'"
    "state v' \<noteq> INIT" "test_bit KEEP_GOING (reg w') = test_bit KEEP_GOING (reg w)"
    "running_timer v' = Some vt" "nanos now < nanos (ts (get_timer vt v'))"
    using init_step [OF assms(1-6)] .
  have "SIGTERM = SIGINT \<or> SIGTERM = SIGTERM \<or> SIGTERM = SIGQUIT" by simp
  from loop_after_signal [OF s(2,3) assms(3) s(4) this spec [OF assms(6)] s(6,7) spec [OF assms(7)]] s(5) assms(8)
  have "main_loop os v' n' w' \<noteq> None" by (auto simp del: control_bits)
  moreover have "main_loop os v n w = main_loop os v' n' w'"
    using assms(8) s(1) by (subst main_loop.simps) (simp del: control_bits)
  ultimately show ?thesis by simp
qed


end
