(* ===== verification/Vrrp_Election.thy ===== *)
theory Vrrp_Election
  imports Vrrp_Main
begin

text \<open>
  The daemon over time, in an environment where nothing arrives: it becomes master, remains master and never
  ends.
\<close>

section \<open>Silence\<close>

text \<open>Every wait ends without a packet, a command or a signal, after a time-out or in an error.\<close>

definition silent :: "os \<Rightarrow> bool" where
  "silent os \<longleftrightarrow> (\<forall>t. os_pselect os t = Sel_ready False False \<or> os_pselect os t = Sel_error)"

text \<open>The clock passes every bound.\<close>

definition time_passes :: "os \<Rightarrow> bool" where
  "time_passes os \<longleftrightarrow> (\<forall>T. \<exists>k. \<forall>t \<ge> k. \<exists>now. os_clock os t = Some now \<and> T < nanos now)"

lemma silent_listen:
  assumes "silent os" and "running_timer v = Some vt"
  shows "\<exists>e v1 w1. vrrp_listen os v n w = Ret (e, v1, n, w1) \<and> (e = TIMER \<or> e = INVALID) \<and> reg w1 = reg w
    \<and> priority v1 = priority v"
proof -
  obtain r t1 w1 where 1: "vrrp_timer_update os (get_timer vt v) w = (r, t1, w1)" by (metis prod_cases3)
  obtain b t2 w2 where 2: "vrrp_timer_is_expired os t1 (syscall w1) = (b, t2, w2)" by (metis prod_cases3)
  have w: "reg w1 = reg w" "reg w2 = reg w1"
    using 1 2 by (auto simp: vrrp_timer_is_expired_def split: prod.splits dest!: update_world)
  have p: "priority (put_timer vt t v) = priority v" for t v by (cases vt) (simp_all add: put_timer_def)
  consider "os_pselect os (tick w1) = Sel_ready False False" | "os_pselect os (tick w1) = Sel_error"
    using assms(1) by (auto simp: silent_def)
  then show ?thesis
    by cases (auto simp: vrrp_listen_def assms(2) 1 2 w p Let_def)
qed

text \<open>A step in silence: start, timer or nothing; buffers and flags stay.\<close>

lemma silent_net:
  assumes "timers_ok v" and "silent os" and "vrrp_process os v n w = Ret (r, v', n', w')"
  shows "n' = n"
proof -
  obtain v1 n1 w1 where 1: "(case state v of INIT \<Rightarrow> vrrp_state_init os v n w
       | BACKUP \<Rightarrow> bind_run (vrrp_state_backup os v n w) (\<lambda>(e, r). Ret r)
       | MASTER \<Rightarrow> bind_run (vrrp_state_master os v n w) (\<lambda>(e, r). Ret r)) = Ret (v1, n1, w1)"
    and d: "dumped (v1, n1, w1) = (r, v', n', w')"
    using assms(3) unfolding vrrp_process_cases by (auto simp: bind_run_Ret_iff)
  have "n' = n1" using d by (auto simp: dumped_def split: prod.splits)
  also have "n1 = n"
  proof (cases "state v")
    case INIT
    then show ?thesis using 1 still_init [of os v n w v1 n1 w1] by simp
  next
    case BACKUP
    obtain e u x where "vrrp_listen os v n w = Ret (e, u, n, x)" "e = TIMER \<or> e = INVALID"
      using silent_listen [OF assms(2) running_timer_states(1) [OF assms(1) BACKUP], of n w] by blast
    with 1 show ?thesis
      by (auto simp: BACKUP vrrp_state_backup_def bind_run_Ret_iff dest: still_goto_master)
  next
    case MASTER
    obtain e u x where "vrrp_listen os v n w = Ret (e, u, n, x)" "e = TIMER \<or> e = INVALID"
      using silent_listen [OF assms(2) running_timer_states(2) [OF assms(1) MASTER], of n w] by blast
    with 1 show ?thesis
      by (auto simp: MASTER vrrp_state_master_def bind_run_Ret_iff dest: still_master(1))
  qed
  finally show ?thesis .
qed

lemma silent_step:
  assumes "inst_wf v n" and "timers_ok v" and "os_ok os" and "silent os"
  obtains i p now v' w' outs es where "observed os v n w = Some (i, p, reg w)"
    "vrrp_process os v n w = Ret (0, v', n, w')" "inst_wf v' n" "timers_ok v'"
    "if state v = INIT then i = Start else i = Timeout \<or> i = Ignore"
    "tick w < tick w'" "rfc_step (conf_of v) now (abs_state v) i (abs_state v') outs"
    "conf_of v' = conf_of v" "trace w' = trace w @ es" "link_up os \<longrightarrow> sent es = concat (map (out_frames n) outs)"
    "test_bit KEEP_GOING (reg w') = test_bit KEEP_GOING (reg w)"
proof -
  obtain i p r v' n' w' where 1: "observed os v n w = Some (i, p, r)"
    "vrrp_process os v n w = Ret (0, v', n', w')" "process_ok os v n w i v' n' w'"
    "conf_of v' = (conf_of v)\<lparr>rc_prio := uint p\<rparr>" "test_bit KEEP_GOING (reg w') = test_bit KEEP_GOING r"
    using vrrp_process_refines_step [OF assms(1-3)] .
  have n: "n' = n" using silent_net [OF assms(2,4) 1(2)] .
  have i: "(if state v = INIT then i = Start else i = Timeout \<or> i = Ignore) \<and> p = priority v \<and> r = reg w"
  proof (cases "state v = INIT")
    case True
    then show ?thesis using 1(1) by (simp add: observed_def)
  next
    case False
    then obtain vt where "running_timer v = Some vt"
      using running_timer_states [OF assms(2)] by (cases "state v") auto
    then show ?thesis using silent_listen [OF assms(4), of v vt n w] False 1(1) by (auto simp: observed_def)
  qed
  have c: "conf_of v' = conf_of v" using 1(4) i by (simp add: conf_of_def)
  obtain now outs es where s: "read_in os (tick w) w' now"
    "rfc_step (conf_of v) (nanos now) (abs_state v) i (abs_state v') outs"
    "trace w' = trace w @ es" "link_up os \<longrightarrow> sent es = concat (map (out_frames n) outs)"
    using 1(3) unfolding process_ok_def c n by blast
  have "tick w < tick w'" using s(1) by (auto simp: read_in_def)
  moreover have "inst_wf v' n" "timers_ok v'" using 1(3) n by (simp_all add: process_ok_def)
  ultimately show ?thesis using that [of i p v' w' "nanos now" outs es] 1(1,2,5) i c s n by simp
qed

section \<open>The next time-out\<close>

text \<open>The instance is ready for another step of the loop.\<close>

definition runs :: "vrrp \<Rightarrow> vrrp_net \<Rightarrow> world \<Rightarrow> bool" where
  "runs v n w \<longleftrightarrow> inst_wf v n \<and> timers_ok v \<and> test_bit KEEP_GOING (reg w)"

text \<open>
  \<open>leads os n v w v' w' fs\<close>: the loop goes from \<open>v, w\<close> to \<open>v', w'\<close>, with the same configuration and buffers, and
  on a working link has sent the frames \<open>fs\<close> on the way.
\<close>

definition leads :: "os \<Rightarrow> vrrp_net \<Rightarrow> vrrp \<Rightarrow> world \<Rightarrow> vrrp \<Rightarrow> world \<Rightarrow> bytes list \<Rightarrow> bool" where
  "leads os n v w v' w' fs \<longleftrightarrow> reachable os (v, n, w) (v', n, w') \<and> runs v' n w' \<and> conf_of v' = conf_of v
     \<and> (\<exists>es. trace w' = trace w @ es \<and> (link_up os \<longrightarrow> sent es = fs))"

lemma leads_refl: "runs v n w \<Longrightarrow> leads os n v w v w []"
  unfolding leads_def by (auto intro: reachable.start)

lemma reachable_trans: "reachable os s0 s1 \<Longrightarrow> reachable os s1 s2 \<Longrightarrow> reachable os s0 s2"
  by (rotate_tac, induction rule: reachable.induct) (auto intro: reachable.step)

lemma leads_trans:
  assumes "leads os n v w v1 w1 fs" and "leads os n v1 w1 v2 w2 gs"
  shows "leads os n v w v2 w2 (fs @ gs)"
proof -
  obtain es es' where t: "trace w1 = trace w @ es" "link_up os \<longrightarrow> sent es = fs"
    "trace w2 = trace w1 @ es'" "link_up os \<longrightarrow> sent es' = gs"
    using assms unfolding leads_def by blast
  have "reachable os (v, n, w) (v2, n, w2)"
    using assms reachable_trans [of os "(v, n, w)" "(v1, n, w1)"] by (simp add: leads_def)
  moreover have "runs v2 n w2" "conf_of v2 = conf_of v" using assms by (simp_all add: leads_def)
  moreover have "trace w2 = trace w @ (es @ es')" "link_up os \<longrightarrow> sent (es @ es') = fs @ gs" using t by simp_all
  ultimately show ?thesis unfolding leads_def by blast
qed

lemma silent_leads:
  assumes "runs v n w" and "os_ok os" and "silent os"
  obtains i p now v' w' outs where "observed os v n w = Some (i, p, reg w)"
    "leads os n v w v' w' (concat (map (out_frames n) outs))"
    "if state v = INIT then i = Start else i = Timeout \<or> i = Ignore"
    "tick w < tick w'" "rfc_step (conf_of v) now (abs_state v) i (abs_state v') outs"
proof -
  have wf: "inst_wf v n" "timers_ok v" and keep: "test_bit KEEP_GOING (reg w)"
    using assms(1) by (simp_all add: runs_def del: control_bits)
  obtain i p now v' w' outs es where 1: "observed os v n w = Some (i, p, reg w)"
    "vrrp_process os v n w = Ret (0, v', n, w')" "inst_wf v' n" "timers_ok v'"
    "if state v = INIT then i = Start else i = Timeout \<or> i = Ignore"
    "tick w < tick w'" "rfc_step (conf_of v) now (abs_state v) i (abs_state v') outs"
    "conf_of v' = conf_of v" "trace w' = trace w @ es" "link_up os \<longrightarrow> sent es = concat (map (out_frames n) outs)"
    "test_bit KEEP_GOING (reg w') = test_bit KEEP_GOING (reg w)"
    using silent_step [OF wf assms(2,3)] .
  have "leads os n v w v' w' (concat (map (out_frames n) outs))"
    using reachable.step [OF reachable.start keep 1(2)] 1(3,4,8-11) keep
    by (auto simp: leads_def runs_def simp del: control_bits)
  with that 1(1,5-7) show ?thesis by blast
qed

text \<open>
  The timer that runs fires: by induction on the number of calls until the clock is past its deadline.
\<close>

definition deadline :: "vrrp \<Rightarrow> int" where
  "deadline v = nanos (ts (if state v = MASTER then adv_timer v else masterdown_timer v))"

lemma observed_late:
  assumes "inst_wf v n" and "timers_ok v" and "state v \<noteq> INIT" and "os_clock os (tick w) = Some now"
    and "deadline v < nanos now"
  shows "\<exists>p. observed os v n w = Some (Timeout, p, reg w)"
proof -
  obtain vt where vt: "running_timer v = Some vt" "nanos (ts (get_timer vt v)) = deadline v"
    using running_timer_states [OF assms(2)] assms(3) by (cases "state v") (auto simp: get_timer_def deadline_def)
  then obtain v1 where "vrrp_listen os v n w = Ret (TIMER, v1, n, syscall w)"
    using listen_expired [OF assms(1) vt(1) assms(4)] assms(5) by metis
  then show ?thesis using assms(3) by (simp add: observed_def)
qed

lemma abs_deadline: "abs_state v' = abs_state v \<Longrightarrow> state v' = state v \<and> (state v \<noteq> INIT \<longrightarrow> deadline v' = deadline v)"
  by (cases "state v"; cases "state v'") (simp_all add: abs_state_def deadline_def)

lemma timer_fires:
  assumes "os_ok os" and "silent os" and late: "\<forall>t \<ge> k. \<exists>now. os_clock os t = Some now \<and> deadline v < nanos now"
    and "runs v n w" and "state v \<noteq> INIT"
  shows "\<exists>now v' w' outs. leads os n v w v' w' (concat (map (out_frames n) outs))
    \<and> rfc_step (conf_of v) now (abs_state v) Timeout (abs_state v') outs"
  using assms(3-5)
proof (induction "k - tick w" arbitrary: v w rule: less_induct)
  case less
  obtain i p now v1 w1 outs where 1: "observed os v n w = Some (i, p, reg w)"
    "leads os n v w v1 w1 (concat (map (out_frames n) outs))"
    "if state v = INIT then i = Start else i = Timeout \<or> i = Ignore"
    "tick w < tick w1" "rfc_step (conf_of v) now (abs_state v) i (abs_state v1) outs"
    using silent_leads [OF less.prems(2) assms(1,2)] .
  consider "i = Timeout" | "i = Ignore" using 1(3) less.prems(3) by auto
  then show ?case
  proof cases
    case 1
    then show ?thesis using \<open>leads _ _ _ _ _ _ _\<close> \<open>rfc_step _ _ _ _ _ _\<close> by blast
  next
    case 2
    have "\<not> k \<le> tick w"
    proof
      assume "k \<le> tick w"
      then obtain now where "os_clock os (tick w) = Some now" "deadline v < nanos now" using less.prems(1) by blast
      then have "\<exists>p. observed os v n w = Some (Timeout, p, reg w)"
        using observed_late [of v n os w now] less.prems(2,3) by (simp add: runs_def)
      then show False using 1(1) 2 by simp
    qed
    then have lt: "k - tick w1 < k - tick w" using 1(4) by linarith
    have o: "outs = []" and a: "abs_state v1 = abs_state v"
      using 1(5) 2 by (auto elim: rfc_step.cases)
    have r: "runs v1 n w1" "conf_of v1 = conf_of v" using 1(2) by (simp_all add: leads_def)
    obtain now' v' w' outs' where 2: "leads os n v1 w1 v' w' (concat (map (out_frames n) outs'))"
      "rfc_step (conf_of v1) now' (abs_state v1) Timeout (abs_state v') outs'"
      using less.hyps [OF lt _ r(1)] abs_deadline [OF a] less.prems(1,3) by auto
    from leads_trans [OF 1(2) 2(1)] 2(2) show ?thesis using o a r(2) by auto
  qed
qed

lemma next_timeout:
  assumes "os_ok os" and "silent os" and "time_passes os" and "runs v n w" and "state v \<noteq> INIT"
  obtains now v' w' outs where "leads os n v w v' w' (concat (map (out_frames n) outs))"
    "rfc_step (conf_of v) now (abs_state v) Timeout (abs_state v') outs"
proof -
  obtain k where "\<forall>t \<ge> k. \<exists>now. os_clock os t = Some now \<and> deadline v < nanos now"
    using assms(3) unfolding time_passes_def by blast
  from timer_fires [OF assms(1,2) this assms(4,5)] that show ?thesis by blast
qed

section \<open>Election and stability\<close>

lemma master_advertises:
  assumes "os_ok os" and "silent os" and "time_passes os" and "runs v n w" and "state v = MASTER"
  shows "\<exists>v' w'. leads os n v w v' w' (replicate k (adv_frame n)) \<and> state v' = MASTER"
proof (induction k)
  case 0
  then show ?case using leads_refl [OF assms(4)] assms(5) by auto
next
  case (Suc k)
  then obtain v1 w1 where 1: "leads os n v w v1 w1 (replicate k (adv_frame n))" "state v1 = MASTER" by blast
  have r: "runs v1 n w1" using 1(1) by (simp add: leads_def)
  obtain now v2 w2 outs where 2: "leads os n v1 w1 v2 w2 (concat (map (out_frames n) outs))"
    "rfc_step (conf_of v1) now (abs_state v1) Timeout (abs_state v2) outs"
    by (rule next_timeout [OF assms(1-3) r]) (use 1(2) in auto)
  have "outs = [Advertise]" "state v2 = MASTER"
    using 2(2) 1(2) by (cases "state v2"; auto simp: abs_state_def elim: master_stepE)+
  then show ?case
    using leads_trans [OF 1(1) 2(1)] by (auto simp: out_frames_def replicate_append_same)
qed

lemma backup_elected:
  assumes "os_ok os" and "silent os" and "time_passes os" and "runs v n w" and "state v = BACKUP"
  shows "\<exists>v' w'. leads os n v w v' w' (master_frames n) \<and> state v' = MASTER"
proof -
  obtain now v' w' outs where 1: "leads os n v w v' w' (concat (map (out_frames n) outs))"
    "rfc_step (conf_of v) now (abs_state v) Timeout (abs_state v') outs"
    by (rule next_timeout [OF assms(1-4)]) (use assms(5) in auto)
  have "outs = [Advertise, Announce]" "state v' = MASTER"
    using 1(2) assms(5) by (cases "state v'"; auto simp: abs_state_def elim: backup_stepE)+
  then show ?thesis using 1(1) by (auto simp: out_frames_def master_frames_def)
qed

lemma elected:
  assumes "os_ok os" and "silent os" and "time_passes os" and "runs v n w" and "state v \<noteq> MASTER"
  shows "\<exists>v' w'. leads os n v w v' w' (master_frames n) \<and> state v' = MASTER"
proof (cases "state v = BACKUP")
  case True
  then show ?thesis using backup_elected [OF assms(1-4)] by blast
next
  case False
  then have init: "state v = INIT" using assms(5) by (cases "state v") auto
  obtain i p now v1 w1 outs where 1: "observed os v n w = Some (i, p, reg w)"
    "leads os n v w v1 w1 (concat (map (out_frames n) outs))"
    "if state v = INIT then i = Start else i = Timeout \<or> i = Ignore"
    "tick w < tick w1" "rfc_step (conf_of v) now (abs_state v) i (abs_state v1) outs"
    using silent_leads [OF assms(4,1,2)] .
  have r: "runs v1 n w1" using 1(2) by (simp add: leads_def)
  consider "state v1 = MASTER" "outs = [Advertise, Announce]" | "state v1 = BACKUP" "outs = []"
    using 1(3,5) init by (cases "state v1") (auto simp: abs_state_def elim: initialize_stepE)
  then show ?thesis
  proof cases
    case 1
    then show ?thesis using \<open>leads _ _ _ _ _ _ _\<close> by (auto simp: out_frames_def master_frames_def)
  next
    case 2
    obtain v2 w2 where "leads os n v1 w1 v2 w2 (master_frames n)" "state v2 = MASTER"
      using backup_elected [OF assms(1-3) r 2(1)] by blast
    then show ?thesis using leads_trans [OF 1(2)] 2(2) by fastforce
  qed
qed

text \<open>In silence the flag stays set, and a master stays master.\<close>

lemma silent_reachable:
  assumes "reachable os (v0, n, w0) s" and "os_ok os" and "silent os" and "runs v0 n w0"
  shows "case s of (v, m, w) \<Rightarrow> m = n \<and> runs v n w \<and> (state v0 = MASTER \<longrightarrow> state v = MASTER)"
  using assms(1)
proof induction
  case start
  then show ?case using assms(4) by simp
next
  case (step v m w v1 m1 w1)
  then have r: "runs v n w" "m = n" "state v0 = MASTER \<longrightarrow> state v = MASTER" by simp_all
  then have wf: "inst_wf v n" "timers_ok v" "test_bit KEEP_GOING (reg w)" by (simp_all add: runs_def del: control_bits)
  obtain i p now v' w' outs es where 1: "observed os v n w = Some (i, p, reg w)"
    "vrrp_process os v n w = Ret (0, v', n, w')" "inst_wf v' n" "timers_ok v'"
    "if state v = INIT then i = Start else i = Timeout \<or> i = Ignore"
    "tick w < tick w'" "rfc_step (conf_of v) now (abs_state v) i (abs_state v') outs"
    "conf_of v' = conf_of v" "trace w' = trace w @ es" "link_up os \<longrightarrow> sent es = concat (map (out_frames n) outs)"
    "test_bit KEEP_GOING (reg w') = test_bit KEEP_GOING (reg w)"
    using silent_step [OF wf(1,2) assms(2,3)] .
  have eq: "v1 = v'" "m1 = n" "w1 = w'" using step(3) r(2) 1(2) by simp_all
  have "state v = MASTER \<Longrightarrow> state v' = MASTER"
    using 1(5,7) by (cases "state v'") (auto simp: abs_state_def elim: master_stepE)
  then show ?case using eq r(3) 1(3,4,11) wf(3) by (auto simp: runs_def simp del: control_bits)
qed

text \<open>
  C7. A daemon that hears nothing becomes and remains master: as long as time passes, the main loop reaches state
  MASTER after finitely many steps, from INIT or BACKUP, having sent exactly one advertisement and one announcement
  per address; from then on every state is MASTER, the advertisement is sent again and again without
  end and nothing else is, and the loop never returns.
\<close>
theorem silence_elects_master:
  assumes "os_ok os" and "silent os" and "time_passes os" and "link_up os"
    and "inst_wf v n" and "timers_ok v" and "state v \<noteq> MASTER" and "test_bit KEEP_GOING (reg w)"
  shows "\<exists>v1 w1. reachable os (v, n, w) (v1, n, w1) \<and> state v1 = MASTER \<and> conf_of v1 = conf_of v
    \<and> (\<exists>es. trace w1 = trace w @ es \<and> sent es = master_frames n)
    \<and> (\<forall>v2 n2 w2. reachable os (v1, n, w1) (v2, n2, w2) \<longrightarrow> state v2 = MASTER \<and> n2 = n)
    \<and> (\<forall>k. \<exists>v2 w2 es. reachable os (v1, n, w1) (v2, n, w2) \<and> trace w2 = trace w1 @ es
          \<and> sent es = replicate k (adv_frame n))
    \<and> main_loop os v n w = None"
proof -
  have r: "runs v n w" using assms(5,6,8) by (simp add: runs_def del: control_bits)
  obtain v1 w1 where 1: "leads os n v w v1 w1 (master_frames n)" "state v1 = MASTER"
    using elected [OF assms(1-3) r assms(7)] by blast
  have r1: "runs v1 n w1" using 1(1) by (simp add: leads_def)
  have stay: "state v2 = MASTER \<and> n2 = n" if "reachable os (v1, n, w1) (v2, n2, w2)" for v2 n2 w2
    using silent_reachable [OF that assms(1,2) r1] 1(2) by simp
  have again: "\<exists>v2 w2 es. reachable os (v1, n, w1) (v2, n, w2) \<and> trace w2 = trace w1 @ es
      \<and> sent es = replicate k (adv_frame n)" for k
    using master_advertises [OF assms(1-3) r1 1(2), of k] assms(4) unfolding leads_def by blast
  have "main_loop os v n w = None"
  proof (rule ccontr)
    assume "main_loop os v n w \<noteq> None"
    then obtain x where "main_loop os v n w = Some x" by blast
    from main_loop_ends [OF this assms(5,6,1)] silent_reachable [OF _ assms(1,2) r]
    show False by (fastforce simp: runs_def simp del: control_bits)
  qed
  with 1 stay again assms(4) show ?thesis unfolding leads_def by blast
qed

text \<open>An environment in which a second passes with every call.\<close>

definition lone_os :: os where
  "lone_os = quiet_os\<lparr>os_clock := (\<lambda>t. Some \<lparr>tv_sec = int t + 1, tv_nsec = 0\<rparr>), os_pselect := (\<lambda>_. Sel_ready False False)\<rparr>"

lemma lone_os_ok: "os_ok lone_os" "silent lone_os" "time_passes lone_os" "link_up lone_os"
proof -
  show "os_ok lone_os" "silent lone_os" "link_up lone_os"
    using ticking_ok [of 1 Sel_error None]
    by (auto simp: lone_os_def ticking_def os_ok_def clock_ok_def fork_ok_def wait_ends_def fifo_ends_def
        os_recv_ok_def link_up_def silent_def clock_reading_def NANOUL_def)
  show "time_passes lone_os" unfolding time_passes_def
  proof
    fix T
    have "T < nanos \<lparr>tv_sec = int t + 1, tv_nsec = 0\<rparr>" if "nat T \<le> t" for t
      using that by (simp add: nanos_def NANOUL_def)
    then show "\<exists>k. \<forall>t \<ge> k. \<exists>now. os_clock lone_os t = Some now \<and> T < nanos now"
      by (auto simp: lone_os_def intro!: exI [of _ "nat T"])
  qed
qed

theorem silence_elects_master_witness:
  "\<exists>v1 w1. reachable lone_os (vrrp0, inst0, world0\<lparr>reg := 2\<rparr>) (v1, inst0, w1) \<and> state v1 = MASTER
     \<and> main_loop lone_os vrrp0 inst0 (world0\<lparr>reg := 2\<rparr>) = None"
proof -
  have "state vrrp0 \<noteq> MASTER" "test_bit KEEP_GOING (reg (world0\<lparr>reg := 2\<rparr>))" by (simp_all add: vrrp0_def test_bit_def)
  from silence_elects_master [OF lone_os_ok inst0_ok(1) vrrp0_timers(1) this] show ?thesis by blast
qed

end
