(* ===== verification/Vrrp_Wire.thy ===== *)
theory Vrrp_Wire
  imports Vrrp_Steady
begin

text \<open>
  Two running instances over the wire: the packet one instance advertises (\<^verbatim>\<open>vrrp_adv.c\<close>), delivered to a
  waiting peer (\<^verbatim>\<open>vrrp_net.c\<close>), and the step the peer takes on it (\<^verbatim>\<open>vrrp_state.c\<close>).  The
  round trips, the invariant of the send buffers and the refinement of the state machine compose.
\<close>

section \<open>Waiting for a datagram\<close>

lemma update_pending:
  assumes "os_ok os" and "os_clock os (tick w) = Some now" and "nanos now < nanos (ts t)"
    and "vrrp_timer_update os t w = (r, t', w')"
  shows "r = 0" "ts t' = ts t" "w' = syscall w" "\<not> (tv_sec (ts t) \<le> 0 \<and> tv_nsec (ts t) \<le> 0)"
  using update_expired [OF os_okD(1) [OF assms(1)] assms(4)] assms(2,3) update_ts [OF assms(4)]
    update_world [OF assms(4)]
  by (auto simp: now_at_def)

text \<open>With a readable socket and the deadline ahead, \<open>vrrp_listen\<close> receives.\<close>

lemma listen_receives:
  assumes "os_ok os" and "running_timer v = Some vt"
    and "os_clock os (tick w) = Some t1" and "nanos t1 < nanos (ts (get_timer vt v))"
    and "os_pselect os (Suc (tick w)) = Sel_ready True c"
    and "os_clock os (Suc (Suc (tick w))) = Some t2" and "nanos t2 < nanos (ts (get_timer vt v))"
  obtains u where "retimed v u"
    "vrrp_listen os v n w = bind_run (vrrp_net_recv os n u (syscall (syscall (syscall w))))
       (\<lambda>(e, n', w'). Ret (e, u, n', w'))"
proof -
  obtain r a w1 where 1: "vrrp_timer_update os (get_timer vt v) w = (r, a, w1)" by (metis prod_cases3)
  note p1 = update_pending [OF assms(1,3,4) 1]
  obtain r2 b w2 where 2: "vrrp_timer_update os a (syscall w1) = (r2, b, w2)" by (metis prod_cases3)
  have "os_clock os (tick (syscall w1)) = Some t2" "nanos t2 < nanos (ts a)"
    using assms(6,7) p1 by simp_all
  note p2 = update_pending [OF assms(1) this 2]
  have "vrrp_timer_is_expired os a (syscall w1) = (False, b, w2)"
    using 2 p2 by (simp add: vrrp_timer_is_expired_def)
  then have "vrrp_listen os v n w = bind_run (vrrp_net_recv os n (put_timer vt b (put_timer vt a v)) w2)
       (\<lambda>(e, n', w'). Ret (e, put_timer vt b (put_timer vt a v), n', w'))"
    using assms(5) p1 by (simp add: vrrp_listen_def assms(2) 1 Let_def)
  moreover have "put_timer vt b (put_timer vt a v) = put_timer vt b v"
    by (cases vt) (simp_all add: put_timer_def)
  moreover have "retimed v (put_timer vt b v)" using p1(2) p2(2) by (intro retimed_put) simp
  ultimately show ?thesis using that p1(3) p2(3) by simp
qed

section \<open>Delivery to a peer\<close>

text \<open>The frame an instance sends is an Ethernet header in front of its datagram.\<close>

lemma frame_datagram:
  assumes "advertises n v"
  shows "\<exists>e. length e = 14 \<and> adv_frame n = e @ datagram n"
proof -
  obtain a b c where iov: "adv_iov n = [a, b, c]" "iov_exact 14 a"
    using assms by (auto simp: advertises_def carries_def adv_ready_def ETHDR_SIZE_def)
  then show ?thesis
    by (intro exI [of _ "iov_bytes a"]) (auto simp: adv_frame_def datagram_def iov_exact_def iov_bytes_def split: option.splits)
qed

definition delivers :: "os \<Rightarrow> nat \<Rightarrow> int \<Rightarrow> bytes \<Rightarrow> bool" where
  "delivers os t fam dg \<longleftrightarrow>
     (if fam = AF_INET then os_read os t = Some dg else \<exists>rm. os_recvmsg os t = Some rm \<and> delivery6 dg rm)"

text \<open>
  \<open>m, u\<close> belongs to the group of the sender \<open>n, v\<close>: same configuration, not the owner, an MTU that
  lets the packet through.
\<close>

definition peer :: "vrrp_net \<Rightarrow> vrrp \<Rightarrow> vrrp_net \<Rightarrow> vrrp \<Rightarrow> bool" where
  "peer n v m u \<longleftrightarrow> priority u \<noteq> PRIO_OWNER
     \<and> (if family n = AF_INET
        then same_group n v m u \<and> addr4 (vif_ipx (vif n)) \<noteq> [0, 0, 0, 0]
          \<and> int (20 + vrrp_ip4_getsize n) \<le> mtu (vif m)
        else same_group6 n v m u \<and> 0 < unat (naddr v) \<and> unat (naddr v) \<le> 64
          \<and> int (vrrp_ip6_getsize n) \<le> mtu (vif m))"

lemma peer_retimed: "retimed u u' \<Longrightarrow> peer n v m u' = peer n v m u"
  by (auto simp: retimed_def peer_def same_group_def same_group6_def)

lemma recv_peer:
  assumes "advertises n v" and "advertises m u" and "peer n v m u"
    and "delivers os (tick x) (family n) (datagram n)" and "ipx_helper m = Some h"
  obtains r where "vrrp_net_recv os m u x = Ret (PKT, m\<lparr>pkt := r\<rparr>, syscall x)"
    "vrrp_adv_get_priority (m\<lparr>pkt := r\<rparr>) = uint (priority v)"
    "vrrp_adv_get_advint (m\<lparr>pkt := r\<rparr>) = adv_int v"
    "sender_greater (m\<lparr>pkt := r\<rparr>) \<longleftrightarrow> 0 < ipx_cmp h (vif_ipx (vif n)) (vif_ipx (vif m))"
proof (cases "family n = AF_INET")
  case True
  obtain iph p where n: "built_ip4 n v n iph p" using advertises_ip4 [OF assms(1) True] by blast
  have g: "same_group n v m u" "priority u \<noteq> PRIO_OWNER"
    "addr4 (vif_ipx (vif n)) \<noteq> [0, 0, 0, 0]" "int (20 + vrrp_ip4_getsize n) \<le> mtu (vif m)"
    "os_read os (tick x) = Some (datagram n)"
    using assms(3,4) True by (simp_all add: peer_def delivers_def)
  have conf: "conf_ok n v" "conf_ok m u" using assms(1,2) by (simp_all add: advertises_def)
  have "family m = AF_INET" using g(1) True by (simp add: same_group_def)
  then obtain iph' p' where m: "built_ip4 m u m iph' p'" "ipx_helper m = Some VRRP_IP4"
    using advertises_ip4 [OF assms(2)] by blast
  note l = built_listens4 [OF m(1) conf(2) m(2)]
  have "net_naddr m = naddr v" using l(2) g(1) by (simp add: same_group_def)
  from recv_built_ip4 [OF n l(1) this conf(1) g(1) True g(2-5)] show ?thesis
    using that assms(5) m(2) by (fastforce simp: sender_greater_def vrrp_ip4_cmp_def)
next
  case False
  have conf: "conf_ok n v" "conf_ok m u" using assms(1,2) by (simp_all add: advertises_def)
  then have six: "family n = AF_INET6" using False by (simp add: conf_ok_def conf_base_def)
  obtain iph dst p where n: "built_ip6 n v n iph dst p" using advertises_ip6 [OF assms(1) six] by blast
  obtain rm where g: "same_group6 n v m u"
    "priority u \<noteq> PRIO_OWNER" "0 < unat (naddr v)" "unat (naddr v) \<le> 64" "int (vrrp_ip6_getsize n) \<le> mtu (vif m)"
    "os_recvmsg os (tick x) = Some rm" "delivery6 (datagram n) rm"
    using assms(3,4) False by (auto simp: peer_def delivers_def)
  have "family m = AF_INET6" using g(1) six by (simp add: same_group6_def)
  then have h: "ipx_helper m = Some VRRP_IP6" using advertises_ip6 [OF assms(2)] by blast
  have "net_naddr m = naddr v" using conf(2) g(1) by (simp add: conf_ok_def conf_base_def same_group6_def)
  from recv_built_ip6 [OF n h this conf(1) g] show ?thesis
    using that assms(5) h by (fastforce simp: sender_greater_def)
qed

text \<open>What a waiting peer makes of the advertisement.\<close>

lemma peer_hears:
  assumes "advertises n v" and "advertises m u" and "os_ok os" and "peer n v m u" and "ipx_helper m = Some h"
    and "running_timer u = Some vt"
    and "os_clock os (tick x) = Some t1" and "nanos t1 < nanos (ts (get_timer vt u))"
    and "os_pselect os (Suc (tick x)) = Sel_ready True c"
    and "os_clock os (Suc (Suc (tick x))) = Some t2" and "nanos t2 < nanos (ts (get_timer vt u))"
    and "delivers os (Suc (Suc (Suc (tick x)))) (family n) (datagram n)"
  obtains u1 r where "vrrp_listen os u m x = Ret (PKT, u1, m\<lparr>pkt := r\<rparr>, syscall (syscall (syscall (syscall x))))"
    "retimed u u1" "state u \<noteq> INIT \<longrightarrow> observed os u m x = Some (Advert (uint (priority v)) (uint (adv_int v))
        (0 < ipx_cmp h (vif_ipx (vif n)) (vif_ipx (vif m))), priority u, reg x)"
proof -
  let ?x3 = "syscall (syscall (syscall x))"
  obtain u1 where u1: "retimed u u1"
    "vrrp_listen os u m x = bind_run (vrrp_net_recv os m u1 ?x3) (\<lambda>(e, n', w'). Ret (e, u1, n', w'))"
    using listen_receives [OF assms(3,6-11)] by blast
  have "peer n v m u1" using peer_retimed [OF u1(1)] assms(4) by simp
  moreover have "delivers os (tick ?x3) (family n) (datagram n)" using assms(12) by simp
  moreover have "advertises m u1" using advertises_still [OF assms(2)] u1(1) by (auto simp: retimed_def)
  ultimately obtain r where r: "vrrp_net_recv os m u1 ?x3 = Ret (PKT, m\<lparr>pkt := r\<rparr>, syscall ?x3)"
    "vrrp_adv_get_priority (m\<lparr>pkt := r\<rparr>) = uint (priority v)" "vrrp_adv_get_advint (m\<lparr>pkt := r\<rparr>) = adv_int v"
    "sender_greater (m\<lparr>pkt := r\<rparr>) \<longleftrightarrow> 0 < ipx_cmp h (vif_ipx (vif n)) (vif_ipx (vif m))"
    using recv_peer [OF assms(1) _ _ _ assms(5)] by blast
  have lis: "vrrp_listen os u m x = Ret (PKT, u1, m\<lparr>pkt := r\<rparr>, syscall ?x3)" using u1(2) r(1) by simp
  moreover have "priority u1 = priority u" using u1(1) by (auto simp: retimed_def)
  ultimately show ?thesis
    using that [OF lis u1(1)] r(2-4) by (simp add: observed_def input_of_def)
qed

section \<open>The step of the peer\<close>

lemma uint_order:
  fixes a b :: u8
  shows "uint a < uint b \<longleftrightarrow> a < b" "uint a \<le> uint b \<longleftrightarrow> a \<le> b" "uint a = uint b \<longleftrightarrow> a = b"
    "uint a = 0 \<longleftrightarrow> a = 0"
  by (simp_all add: word_less_def word_le_def word_uint_eq_iff)


section \<open>Example\<close>

text \<open>The example backup at 10.0.0.1 hears a router of the same priority at 10.0.0.2.\<close>

lemma inst0_advertises:
  "advertises inst0 vrrp0" "family inst0 = AF_INET" "vif inst0 = vif vnet0"
  "(\<lambda>x. addr4 (ipx x)) ` set (vip_list inst0) = (\<lambda>x. addr4 (ipx x)) ` set (vip_list vnet0)"
proof -
  obtain n w where 1: "vrrp_adv_init quiet_os vnet0 vrrp0 world0 = Ret (0, n, w)"
    "inst0 = n\<lparr>vip_list := vip_list inst0\<rparr>" "map ipx (vip_list inst0) = map ipx (vip_list vnet0)"
    using inst0_ok(4) by blast
  show "advertises inst0 vrrp0" using init_carries [OF conf_ok_examples 1(1,3)] 1(2) by simp
  have "\<exists>iov. n = vnet0\<lparr>adv_iov := iov\<rparr>"
    using 1(1) by (auto simp: vrrp_adv_init_def Let_def bind_run_Ret_iff split: prod.splits)
  then show "family inst0 = AF_INET" "vif inst0 = vif vnet0" by (subst 1(2); auto simp: vnet0_def AF_INET_def)+
  have "set (map ipx (vip_list inst0)) = set (map ipx (vip_list vnet0))" using 1(3) by (rule arg_cong)
  then have "addr4 ` ipx ` set (vip_list inst0) = addr4 ` ipx ` set (vip_list vnet0)" by simp
  then show "(\<lambda>x. addr4 (ipx x)) ` set (vip_list inst0) = (\<lambda>x. addr4 (ipx x)) ` set (vip_list vnet0)"
    by (simp add: image_image)
qed

lemma wire_example:
  obtains n w where "vrrp_adv_init quiet_os peer_net vrrp0 world0 = Ret (0, n, w)" "advertises n vrrp0"
    "family n = AF_INET" "peer n vrrp0 inst0 vrrp0"
proof -
  have h: "ipx_helper peer_net = Some VRRP_IP4" by (simp add: peer_net_def vnet0_def)
  obtain n w where n: "vrrp_adv_init quiet_os peer_net vrrp0 world0 = Ret (0, n, w)"
    by (rule init_example [OF conf_ok_peer h])
  obtain iov where iov: "n = peer_net\<lparr>adv_iov := iov\<rparr>"
    using n by (auto simp: vrrp_adv_init_def Let_def bind_run_Ret_iff split: prod.splits)
  have adv: "advertises n vrrp0"
    using init_carries [OF conf_ok_peer conf_ok_examples(2) n, of "vip_list n"] iov by simp
  have f: "family n = AF_INET" using iov by (simp add: peer_net_def vnet0_def AF_INET_def)
  have "peer n vrrp0 inst0 vrrp0"
    unfolding peer_def same_group_def using inst0_advertises(2-4) f iov
    by (simp add: peer_net_def example_defs PRIO_OWNER_def addr4_def vrrp_ip4_getsize_def size_defs)
  with that n adv f show ?thesis by blast
qed


end
