(* ===== verification/Vrrp_Heartbeat.thy ===== *)
theory Vrrp_Heartbeat
  imports Vrrp_Election Vrrp_Wire
begin

text \<open>
  A backup over time, while a master of its group is heard: as long as the advertisements arrive well within the
  master-down interval, it stays backup and silent.  With \<^verbatim>\<open>Vrrp_Election\<close> this is the life of a group: the
  backups follow a master that lives, and take over from one that does not.
\<close>

section \<open>The environment\<close>

text \<open>
  Every wait ends with the advertisement of the master \<open>n\<close>, and over the few calls of a step and the start of
  the next the clock advances by less than \<open>d\<close> nanoseconds.
\<close>

definition heartbeat :: "os \<Rightarrow> vrrp_net \<Rightarrow> int \<Rightarrow> bool" where
  "heartbeat os n d \<longleftrightarrow>
     (\<forall>t. (\<exists>c. os_pselect os t = Sel_ready True c) \<and> delivers os t (family n) (datagram n))
   \<and> (\<forall>t k a b. k \<le> 7 \<longrightarrow> os_clock os t = Some a \<longrightarrow> os_clock os (t + k) = Some b \<longrightarrow> nanos b < nanos a + d)"

text \<open>The master-down interval for the configured interval, in nanoseconds.\<close>

definition mdown_nanos :: "vrrp \<Rightarrow> int" where
  "mdown_nanos u = after (conf_of u) 0 (mdown (conf_of u) (uint (adv_int u)))"

text \<open>A backup that follows the master \<open>n, v\<close>, with its deadline ahead.\<close>

definition follows :: "os \<Rightarrow> vrrp_net \<Rightarrow> vrrp \<Rightarrow> vrrp \<Rightarrow> vrrp_net \<Rightarrow> world \<Rightarrow> bool" where
  "follows os n v u m x \<longleftrightarrow> inst_wf u m \<and> timers_ok u \<and> advertises m u \<and> peer n v m u \<and> state u = BACKUP
     \<and> (\<not> preempt u \<or> priority u \<le> priority v) \<and> master_adv_int u = adv_int u
     \<and> (\<forall>k \<in> {0, 2}. \<exists>a. os_clock os (tick x + k) = Some a \<and> nanos a < nanos (ts (masterdown_timer u)))"

section \<open>One step\<close>

lemma backup_pkt_tick: "backup_pkt os v n w = Ret (v', n', w') \<Longrightarrow> tick w' \<le> Suc (tick w)"
  by (auto simp: backup_pkt_def VRRP_SET_MASTERDOWN_TIMER_def VRRP_SET_SKEW_TIME_def vrrp_timer_set_def
      clock_gettime_def Let_def case_prod_beta split: if_splits option.splits)

text \<open>The step on a packet takes at most five calls and changes only the packet buffer of the network part.\<close>

lemma backup_step_calls:
  assumes "state u = BACKUP" and "vrrp_listen os u m x = Ret (PKT, u1, m1, x1)" and "retimed u u1"
    and "vrrp_process os u m x = Ret (r, u', m', x')"
  shows "m' = m1" "still u u'" "tick x' \<le> Suc (tick x1)"
proof -
  obtain v2 n2 w2 where 1: "backup_pkt os u1 m1 x1 = Ret (v2, n2, w2)" "dumped (v2, n2, w2) = (r, u', m', x')"
    using assms(1,2,4) by (auto simp: vrrp_process_cases vrrp_state_backup_def bind_run_Ret_iff)
  obtain w3 ns where d: "dumped (v2, n2, w2) = (0, v2, n2, w3)" "tick w3 = tick w2"
    by (rule dumped_effect)
  have s: "still u1 v2 \<and> n2 = m1" using still_backup(1) [OF 1(1)] .
  have e: "u' = v2" "m' = n2" "x' = w3" using d(1) 1(2) by simp_all
  show "m' = m1" using s e(2) by simp
  show "still u u'" using s e(1) assms(3) by (auto simp: retimed_def still_def same_conf_def)
  show "tick x' \<le> Suc (tick x1)" using backup_pkt_tick [OF 1(1)] d(2) e(3) by simp
qed

lemma peer_still:
  "still u u' \<Longrightarrow> m' = m\<lparr>pkt := r\<rparr> \<Longrightarrow> peer n v m' u' = peer n v m u"
  by (simp add: peer_def same_group_def same_group6_def still_def same_conf_def)

lemma advertises_helper: "advertises m u \<Longrightarrow> \<exists>h. ipx_helper m = Some h"
  by (auto simp: advertises_def conf_ok_def conf_base_def vrrp_ipx_set_def)

lemma follows_step:
  assumes "os_ok os" and "advertises n v" and "priority v \<noteq> 0" and "heartbeat os n (mdown_nanos u)" and "follows os n v u m x"
  obtains u' m' x' es where "vrrp_process os u m x = Ret (0, u', m', x')" "follows os n v u' m' x'"
    "mdown_nanos u' = mdown_nanos u" "trace x' = trace x @ es" "link_up os \<longrightarrow> sent es = []"
proof -
  have f: "inst_wf u m" "timers_ok u" "advertises m u" "peer n v m u" "state u = BACKUP"
    "\<not> preempt u \<or> priority u \<le> priority v" "master_adv_int u = adv_int u"
    using assms(5) by (simp_all add: follows_def)
  obtain t1 t2 where clk: "os_clock os (tick x) = Some t1" "nanos t1 < nanos (ts (get_timer Masterdown_timer u))"
    "os_clock os (Suc (Suc (tick x))) = Some t2" "nanos t2 < nanos (ts (get_timer Masterdown_timer u))"
    using assms(5) by (auto simp: follows_def get_timer_def)
  obtain h where h: "ipx_helper m = Some h" using advertises_helper [OF f(3)] by blast
  obtain c where c: "os_pselect os (Suc (tick x)) = Sel_ready True c"
    and dl: "delivers os (Suc (Suc (Suc (tick x)))) (family n) (datagram n)"
    using assms(4) unfolding heartbeat_def by blast
  let ?g = "0 < ipx_cmp h (vif_ipx (vif n)) (vif_ipx (vif m))"
  obtain u1 r where l: "vrrp_listen os u m x = Ret (PKT, u1, m\<lparr>pkt := r\<rparr>, syscall (syscall (syscall (syscall x))))"
    "retimed u u1" "observed os u m x = Some (Advert (uint (priority v)) (uint (adv_int v)) ?g, priority u, reg x)"
    using peer_hears [OF assms(2) f(3) assms(1) f(4) h running_timer_states(1) [OF f(2,5)] clk(1,2) c clk(3,4) dl] f(5)
    by auto
  obtain i p q u' m' x' where s: "observed os u m x = Some (i, p, q)"
    "vrrp_process os u m x = Ret (0, u', m', x')" "process_ok os u m x i u' m' x'"
    "conf_of u' = (conf_of u)\<lparr>rc_prio := uint p\<rparr>"
    using vrrp_process_refines_step [OF f(1,2) assms(1)] .
  have cf: "conf_of u' = conf_of u" using s(1,4) l(3) by (simp add: conf_of_def)
  note calls = backup_step_calls [OF f(5) l(1,2) s(2)]
  obtain t outs es where t: "inst_wf u' m'" "timers_ok u'" "read_in os (tick x) x' t"
    "rfc_step (conf_of u) (nanos t) (abs_state u) (Advert (uint (priority v)) (uint (adv_int v)) ?g) (abs_state u') outs"
    "trace x' = trace x @ es" "link_up os \<longrightarrow> sent es = concat (map (out_frames m') outs)"
    using s(1,3) l(3) cf unfolding process_ok_def by auto
  have pv: "uint (priority v) \<noteq> 0" using assms(3) by (simp add: uint_order)
  have ai: "adv_int v = adv_int u" using f(4) by (auto simp: peer_def same_group_def same_group6_def split: if_splits)
  have "learn (conf_of u) (uint (master_adv_int u)) (uint (adv_int v)) = uint (adv_int u)"
    using ai f(7) by (simp add: learn_def)
  then have a: "abs_state u' = Backup (uint (adv_int u)) (nanos t + mdown_nanos u)" "outs = []"
    using t(4) pv f(5,6)
    by (auto simp: abs_state_def conf_of_def uint_order mdown_nanos_def after_def elim!: backup_stepE)
  then have b: "state u' = BACKUP" "uint (master_adv_int u') = uint (adv_int u)"
    "nanos (ts (masterdown_timer u')) = nanos t + mdown_nanos u"
    by (cases "state u'"; simp add: abs_state_def)+
  have st: "adv_int u' = adv_int u" "priority u' = priority u" using calls(2) by (simp_all add: still_def same_conf_def)
  have pre: "preempt u' = preempt u" using cf by (simp add: conf_of_def)
  have ahead: "\<exists>a. os_clock os (tick x' + k) = Some a \<and> nanos a < nanos (ts (masterdown_timer u'))" if "k \<le> 2" for k
  proof -
    obtain j where j: "tick x \<le> j" "j < tick x'" "os_clock os j = Some t" using t(3) by (auto simp: read_in_def)
    obtain a where a: "os_clock os (tick x' + k) = Some a" using os_okD(1) [OF assms(1)] by (auto elim: clock_okE)
    have "tick x' + k - j \<le> 7" "tick x' + k = j + (tick x' + k - j)" using j that calls(3) by simp_all
    then have "nanos a < nanos t + mdown_nanos u" using assms(4) j(3) a unfolding heartbeat_def by metis
    then show ?thesis using a b(3) by simp
  qed
  have "master_adv_int u' = adv_int u'" using b(2) st(1) by (simp add: word_uint_eq_iff)
  then have "follows os n v u' m' x'"
    using t(1,2) advertises_process [OF f(3,1) assms(1) f(2) s(2)] peer_still [OF calls(2,1), of n v] f(4,6) b(1) st pre
      ahead [of 0] ahead [of 2]
    by (simp add: follows_def)
  moreover have "mdown_nanos u' = mdown_nanos u" using cf st(1) by (simp add: mdown_nanos_def)
  ultimately show ?thesis using that s(2) t(5,6) a(2) by simp
qed

section \<open>All steps\<close>

lemma follows_reachable:
  assumes "reachable os (u0, m0, x0) s" and "os_ok os" and "advertises n v" and "priority v \<noteq> 0"
    and "heartbeat os n (mdown_nanos u0)" and "follows os n v u0 m0 x0"
  shows "case s of (u, m, x) \<Rightarrow> follows os n v u m x \<and> mdown_nanos u = mdown_nanos u0
    \<and> (\<exists>es. trace x = trace x0 @ es \<and> (link_up os \<longrightarrow> sent es = []))"
  using assms(1)
proof induction
  case start
  then show ?case using assms(6) by simp
next
  case (step u m x u1 m1 x1)
  then have i: "follows os n v u m x" "heartbeat os n (mdown_nanos u)" "mdown_nanos u = mdown_nanos u0"
    using assms(5) by simp_all
  obtain es where es: "trace x = trace x0 @ es" "link_up os \<longrightarrow> sent es = []" using step.IH by auto
  obtain u' m' x' es' where 1: "vrrp_process os u m x = Ret (0, u', m', x')" "follows os n v u' m' x'"
    "mdown_nanos u' = mdown_nanos u" "trace x' = trace x @ es'" "link_up os \<longrightarrow> sent es' = []"
    using follows_step [OF assms(2-4) i(2,1)] .
  have "trace x' = trace x0 @ (es @ es')" "link_up os \<longrightarrow> sent (es @ es') = []" using es 1(4,5) by simp_all
  then show ?case using step(3) 1(1-3) i(3) by auto
qed

text \<open>
  C8. A backup that hears its master never takes over: while the advertisements of a running instance of the
  group arrive, well within the master-down interval, a backup that does not preempt it is in state BACKUP in
  every state its main loop reaches, whatever the number of steps, its deadline lies ahead, and it has sent
  nothing.
\<close>
theorem heartbeat_keeps_backup:
  assumes "os_ok os" and "link_up os" and "advertises n v" and "priority v \<noteq> 0"
    and "heartbeat os n (mdown_nanos u)" and "inst_wf u m" and "timers_ok u" and "advertises m u" and "peer n v m u"
    and "state u = BACKUP" and "\<not> preempt u \<or> priority u \<le> priority v" and "master_adv_int u = adv_int u"
    and "os_clock os (tick x) = Some t1" and "nanos t1 < nanos (ts (masterdown_timer u))"
    and "os_clock os (tick x + 2) = Some t2" and "nanos t2 < nanos (ts (masterdown_timer u))"
    and "reachable os (u, m, x) (u', m', x')"
  shows "state u' = BACKUP \<and> inst_wf u' m'
    \<and> (\<exists>a. os_clock os (tick x') = Some a \<and> nanos a < nanos (ts (masterdown_timer u')))
    \<and> (\<exists>es. trace x' = trace x @ es \<and> sent es = [])"
proof -
  have "follows os n v u m x" using assms(6-16) by (simp add: follows_def)
  from follows_reachable [OF assms(17,1,3-5) this] show ?thesis using assms(2) by (auto simp: follows_def)
qed

text \<open>The example backup in a group whose master is heard at every wait.\<close>

lemma mdown_nanos_vrrp0: "mdown_nanos vrrp0 = 3600000000"
  by (simp add: mdown_nanos_def after_def mdown_def skew_def conf_of_def vrrp0_def CENTUL_def NANOUL_def)

lemma ticking_heartbeat:
  "family n = AF_INET \<Longrightarrow> heartbeat (ticking 5 (Sel_ready True False) (Some (datagram n))) n (mdown_nanos vrrp0)"
  by (auto simp: heartbeat_def ticking_def delivers_def mdown_nanos_vrrp0)

theorem heartbeat_keeps_backup_witness:
  "\<exists>n w u m x. vrrp_adv_init quiet_os peer_net vrrp0 world0 = Ret (0, n, w)
     \<and> reachable (ticking 5 (Sel_ready True False) (Some (datagram n))) (vrrp0, inst0, world0\<lparr>reg := 2\<rparr>) (u, m, x)
     \<and> tick x \<noteq> 0 \<and> state u = BACKUP"
proof -
  obtain n w where n: "vrrp_adv_init quiet_os peer_net vrrp0 world0 = Ret (0, n, w)" and adv: "advertises n vrrp0"
    and f: "family n = AF_INET" and p: "peer n vrrp0 inst0 vrrp0"
    using wire_example .
  let ?os = "ticking 5 (Sel_ready True False) (Some (datagram n))" and ?w = "world0\<lparr>reg := 2\<rparr>"
  have ok: "os_ok ?os" "link_up ?os" by (simp_all add: ticking_ok)
  have st: "priority vrrp0 \<noteq> 0" "state vrrp0 = BACKUP" "\<not> preempt vrrp0 \<or> priority vrrp0 \<le> priority vrrp0"
    "master_adv_int vrrp0 = adv_int vrrp0" by (simp_all add: vrrp0_def)
  have lt: "nanos \<lparr>tv_sec = 5, tv_nsec = 0\<rparr> < nanos (ts (masterdown_timer vrrp0))"
    by (simp add: vrrp0_def nanos_def NANOUL_def)
  have keep: "test_bit KEEP_GOING (reg ?w)" by (simp add: test_bit_def)
  obtain i q r u m x where s: "observed ?os vrrp0 inst0 ?w = Some (i, q, r)"
    "vrrp_process ?os vrrp0 inst0 ?w = Ret (0, u, m, x)" "process_ok ?os vrrp0 inst0 ?w i u m x"
    using vrrp_process_refines_step [OF inst0_ok(1) vrrp0_timers(1) ok(1)] .
  have "tick x \<noteq> 0" using s(3) by (auto simp: process_ok_def read_in_def)
  moreover have r: "reachable ?os (vrrp0, inst0, ?w) (u, m, x)"
    using reachable.step [OF reachable.start keep s(2)] .
  moreover have "state u = BACKUP"
    using heartbeat_keeps_backup [OF ok adv st(1) ticking_heartbeat [OF f] inst0_ok(1) vrrp0_timers(1)
        inst0_advertises(1) p st(2-4) ticking_ok(3) lt ticking_ok(3) lt r] by blast
  ultimately show ?thesis using n by blast
qed

end
