(* ===== verification/Vrrp_List.thy ===== *)
theory Vrrp_List
  imports Vrrp_Net "HOL-Library.Monad_Syntax"
begin

text \<open>
  The intrusive doubly linked list of \<^verbatim>\<open>list.h\<close>, on an explicit heap of list heads.  An
  access through a pointer that does not point to a live list head (null, poison, freed) is
  \<open>None\<close>.  The operations refine functions on HOL lists, which is what the other
  theories use for \<open>vip_list\<close>; the last section states that correspondence.
\<close>

section \<open>Heap\<close>

type_synonym addr = u64

record list_head =
  lh_next :: addr
  lh_prev :: addr

type_synonym lheap = "addr \<rightharpoonup> list_head"

definition get_next :: "lheap \<Rightarrow> addr \<rightharpoonup> addr" where
  "get_next h p = map_option lh_next (h p)"

definition get_prev :: "lheap \<Rightarrow> addr \<rightharpoonup> addr" where
  "get_prev h p = map_option lh_prev (h p)"

definition set_next :: "lheap \<Rightarrow> addr \<Rightarrow> addr \<Rightarrow> lheap option" where
  "set_next h p q = map_option (\<lambda>n. h(p \<mapsto> n\<lparr>lh_next := q\<rparr>)) (h p)"

definition set_prev :: "lheap \<Rightarrow> addr \<Rightarrow> addr \<Rightarrow> lheap option" where
  "set_prev h p q = map_option (\<lambda>n. h(p \<mapsto> n\<lparr>lh_prev := q\<rparr>)) (h p)"

section \<open>Operations\<close>

definition LIST_POISON1 :: addr where "LIST_POISON1 = 0x00100100"
definition LIST_POISON2 :: addr where "LIST_POISON2 = 0x00200200"

definition container_of :: "addr \<Rightarrow> addr \<Rightarrow> addr" where
  "container_of ptr off = ptr - off"

definition LIST_HEAD_INIT :: "addr \<Rightarrow> list_head" where
  "LIST_HEAD_INIT name = \<lparr>lh_next = name, lh_prev = name\<rparr>"

definition INIT_LIST_HEAD :: "lheap \<Rightarrow> addr \<Rightarrow> lheap option" where
  "INIT_LIST_HEAD h l = do { h \<leftarrow> set_next h l l; set_prev h l l }"

text \<open>\<open>__list_add\<close>, \<open>__list_del\<close> and \<open>__list_splice\<close>, the operations on known neighbours.\<close>

definition raw_list_add :: "lheap \<Rightarrow> addr \<Rightarrow> addr \<Rightarrow> addr \<Rightarrow> lheap option" where
  "raw_list_add h new p q = do {
     h \<leftarrow> set_prev h q new;
     h \<leftarrow> set_next h new q;
     h \<leftarrow> set_prev h new p;
     set_next h p new }"

definition list_add :: "lheap \<Rightarrow> addr \<Rightarrow> addr \<Rightarrow> lheap option" where
  "list_add h new l = do { q \<leftarrow> get_next h l; raw_list_add h new l q }"

definition list_add_tail :: "lheap \<Rightarrow> addr \<Rightarrow> addr \<Rightarrow> lheap option" where
  "list_add_tail h new l = do { p \<leftarrow> get_prev h l; raw_list_add h new p l }"

definition raw_list_del :: "lheap \<Rightarrow> addr \<Rightarrow> addr \<Rightarrow> lheap option" where
  "raw_list_del h p q = do { h \<leftarrow> set_prev h q p; set_next h p q }"

definition unlink_entry :: "lheap \<Rightarrow> addr \<Rightarrow> lheap option" where
  "unlink_entry h e = do { p \<leftarrow> get_prev h e; q \<leftarrow> get_next h e; raw_list_del h p q }"

definition list_del :: "lheap \<Rightarrow> addr \<Rightarrow> lheap option" where
  "list_del h e = do {
     h \<leftarrow> unlink_entry h e;
     h \<leftarrow> set_next h e LIST_POISON1;
     set_prev h e LIST_POISON2 }"

definition list_del_init :: "lheap \<Rightarrow> addr \<Rightarrow> lheap option" where
  "list_del_init h e = do { h \<leftarrow> unlink_entry h e; INIT_LIST_HEAD h e }"

definition list_replace :: "lheap \<Rightarrow> addr \<Rightarrow> addr \<Rightarrow> lheap option" where
  "list_replace h old new = do {
     q \<leftarrow> get_next h old;
     h \<leftarrow> set_next h new q;
     q \<leftarrow> get_next h new;
     h \<leftarrow> set_prev h q new;
     p \<leftarrow> get_prev h old;
     h \<leftarrow> set_prev h new p;
     p \<leftarrow> get_prev h new;
     set_next h p new }"

definition list_replace_init :: "lheap \<Rightarrow> addr \<Rightarrow> addr \<Rightarrow> lheap option" where
  "list_replace_init h old new = do { h \<leftarrow> list_replace h old new; INIT_LIST_HEAD h old }"

text \<open>\<open>tmp\<close> is the address of the local list head of \<open>list_swap\<close>, gone on return.\<close>

definition list_swap :: "addr \<Rightarrow> lheap \<Rightarrow> addr \<Rightarrow> addr \<Rightarrow> lheap option" where
  "list_swap tmp h a b = do {
     an \<leftarrow> get_next h a;
     ap \<leftarrow> get_prev h a;
     if an = b then do { h \<leftarrow> list_replace h a b; list_add h b a }
     else if ap = b then do { h \<leftarrow> list_replace h b a; list_add h a b }
     else do {
       bn \<leftarrow> get_next h b;
       bp \<leftarrow> get_prev h b;
       h \<leftarrow> list_replace (h(tmp \<mapsto> \<lparr>lh_next = bn, lh_prev = bp\<rparr>)) a b;
       h \<leftarrow> list_replace h tmp a;
       Some (h(tmp := None)) } }"

definition list_move :: "lheap \<Rightarrow> addr \<Rightarrow> addr \<Rightarrow> lheap option" where
  "list_move h e l = do { h \<leftarrow> unlink_entry h e; list_add h e l }"

definition list_move_tail :: "lheap \<Rightarrow> addr \<Rightarrow> addr \<Rightarrow> lheap option" where
  "list_move_tail h e l = do { h \<leftarrow> unlink_entry h e; list_add_tail h e l }"

definition list_is_last :: "lheap \<Rightarrow> addr \<Rightarrow> addr \<Rightarrow> bool option" where
  "list_is_last h e l = do { q \<leftarrow> get_next h e; Some (q = l) }"

definition list_empty :: "lheap \<Rightarrow> addr \<Rightarrow> bool option" where
  "list_empty h l = do { q \<leftarrow> get_next h l; Some (q = l) }"

definition raw_list_splice :: "lheap \<Rightarrow> addr \<Rightarrow> addr \<Rightarrow> lheap option" where
  "raw_list_splice h k l = do {
     first \<leftarrow> get_next h k;
     last \<leftarrow> get_prev h k;
     at \<leftarrow> get_next h l;
     h \<leftarrow> set_prev h first l;
     h \<leftarrow> set_next h l first;
     h \<leftarrow> set_next h last at;
     set_prev h at last }"

definition list_splice :: "lheap \<Rightarrow> addr \<Rightarrow> addr \<Rightarrow> lheap option" where
  "list_splice h k l = do { e \<leftarrow> list_empty h k; if e then Some h else raw_list_splice h k l }"

definition list_splice_init :: "lheap \<Rightarrow> addr \<Rightarrow> addr \<Rightarrow> lheap option" where
  "list_splice_init h k l = do {
     e \<leftarrow> list_empty h k;
     if e then Some h else do { h \<leftarrow> raw_list_splice h k l; INIT_LIST_HEAD h k } }"

section \<open>Iteration\<close>

text \<open>
  The \<open>for\<close> loops.  \<open>step\<close> is \<open>get_next\<close> or \<open>get_prev\<close>, \<open>off\<close> the offset of the list head in the
  entry (0 for the variants on list heads), \<open>f\<close> the body.  \<open>None\<close> is a loop
  that never ends, \<open>Undef\<close> an access to a dead list head.
\<close>

partial_function (option) walk ::
    "(lheap \<Rightarrow> addr \<rightharpoonup> addr) \<Rightarrow> addr \<Rightarrow> lheap \<Rightarrow> addr \<Rightarrow> (addr \<Rightarrow> 's \<Rightarrow> 's) \<Rightarrow> addr \<Rightarrow> 's \<Rightarrow> 's run option" where
  "walk step off h l f pos s =
     (if pos + off = l then Some (Ret s)
      else case step h (pos + off) of
             None \<Rightarrow> Some Undef
           | Some q \<Rightarrow> walk step off h l f (container_of q off) (f pos s))"

definition walk_after ::
    "(lheap \<Rightarrow> addr \<rightharpoonup> addr) \<Rightarrow> addr \<Rightarrow> lheap \<Rightarrow> addr \<Rightarrow> addr \<Rightarrow> (addr \<Rightarrow> 's \<Rightarrow> 's) \<Rightarrow> 's \<Rightarrow> 's run option" where
  "walk_after step off h p l f s =
     (case step h p of None \<Rightarrow> Some Undef | Some q \<Rightarrow> walk step off h l f (container_of q off) s)"

definition list_for_each :: "lheap \<Rightarrow> addr \<Rightarrow> (addr \<Rightarrow> 's \<Rightarrow> 's) \<Rightarrow> 's \<Rightarrow> 's run option" where
  "list_for_each h l f s = walk_after get_next 0 h l l f s"

definition list_for_each_prev :: "lheap \<Rightarrow> addr \<Rightarrow> (addr \<Rightarrow> 's \<Rightarrow> 's) \<Rightarrow> 's \<Rightarrow> 's run option" where
  "list_for_each_prev h l f s = walk_after get_prev 0 h l l f s"

definition list_for_each_entry :: "addr \<Rightarrow> lheap \<Rightarrow> addr \<Rightarrow> (addr \<Rightarrow> 's \<Rightarrow> 's) \<Rightarrow> 's \<Rightarrow> 's run option" where
  "list_for_each_entry off h l f s = walk_after get_next off h l l f s"

definition list_for_each_entry_reverse ::
    "addr \<Rightarrow> lheap \<Rightarrow> addr \<Rightarrow> (addr \<Rightarrow> 's \<Rightarrow> 's) \<Rightarrow> 's \<Rightarrow> 's run option" where
  "list_for_each_entry_reverse off h l f s = walk_after get_prev off h l l f s"

definition list_for_each_entry_continue ::
    "addr \<Rightarrow> lheap \<Rightarrow> addr \<Rightarrow> addr \<Rightarrow> (addr \<Rightarrow> 's \<Rightarrow> 's) \<Rightarrow> 's \<Rightarrow> 's run option" where
  "list_for_each_entry_continue off h pos l f s = walk_after get_next off h (pos + off) l f s"

definition list_for_each_entry_from ::
    "addr \<Rightarrow> lheap \<Rightarrow> addr \<Rightarrow> addr \<Rightarrow> (addr \<Rightarrow> 's \<Rightarrow> 's) \<Rightarrow> 's \<Rightarrow> 's run option" where
  "list_for_each_entry_from off h pos l f s = walk get_next off h l f pos s"

text \<open>The variants safe against removal: the body \<open>f\<close> may change the heap, \<open>n\<close> is read ahead.\<close>

partial_function (option) walk_safe ::
    "(lheap \<Rightarrow> addr \<rightharpoonup> addr) \<Rightarrow> addr \<Rightarrow> addr \<Rightarrow> (addr \<Rightarrow> lheap \<Rightarrow> lheap option) \<Rightarrow> addr \<Rightarrow> addr \<Rightarrow> lheap
      \<Rightarrow> lheap run option" where
  "walk_safe step off l f pos n h =
     (if pos + off = l then Some (Ret h)
      else case f pos h of
             None \<Rightarrow> Some Undef
           | Some h1 \<Rightarrow>
               (case step h1 (n + off) of
                  None \<Rightarrow> Some Undef
                | Some q \<Rightarrow> walk_safe step off l f n (container_of q off) h1))"

definition walk_safe_from ::
    "(lheap \<Rightarrow> addr \<rightharpoonup> addr) \<Rightarrow> addr \<Rightarrow> addr \<Rightarrow> (addr \<Rightarrow> lheap \<Rightarrow> lheap option) \<Rightarrow> addr \<Rightarrow> lheap \<Rightarrow> lheap run option" where
  "walk_safe_from step off l f pos h =
     (case step h (pos + off) of
        None \<Rightarrow> Some Undef | Some n \<Rightarrow> walk_safe step off l f pos (container_of n off) h)"

definition walk_safe_after ::
    "(lheap \<Rightarrow> addr \<rightharpoonup> addr) \<Rightarrow> addr \<Rightarrow> addr \<Rightarrow> (addr \<Rightarrow> lheap \<Rightarrow> lheap option) \<Rightarrow> addr \<Rightarrow> lheap \<Rightarrow> lheap run option" where
  "walk_safe_after step off l f p h =
     (case step h p of None \<Rightarrow> Some Undef | Some q \<Rightarrow> walk_safe_from step off l f (container_of q off) h)"

definition list_for_each_safe :: "addr \<Rightarrow> (addr \<Rightarrow> lheap \<Rightarrow> lheap option) \<Rightarrow> lheap \<Rightarrow> lheap run option" where
  "list_for_each_safe l f h = walk_safe_after get_next 0 l f l h"

definition list_for_each_entry_safe ::
    "addr \<Rightarrow> addr \<Rightarrow> (addr \<Rightarrow> lheap \<Rightarrow> lheap option) \<Rightarrow> lheap \<Rightarrow> lheap run option" where
  "list_for_each_entry_safe off l f h = walk_safe_after get_next off l f l h"

definition list_for_each_entry_safe_continue ::
    "addr \<Rightarrow> addr \<Rightarrow> addr \<Rightarrow> (addr \<Rightarrow> lheap \<Rightarrow> lheap option) \<Rightarrow> lheap \<Rightarrow> lheap run option" where
  "list_for_each_entry_safe_continue off pos l f h = walk_safe_after get_next off l f (pos + off) h"

definition list_for_each_entry_safe_from ::
    "addr \<Rightarrow> addr \<Rightarrow> addr \<Rightarrow> (addr \<Rightarrow> lheap \<Rightarrow> lheap option) \<Rightarrow> lheap \<Rightarrow> lheap run option" where
  "list_for_each_entry_safe_from off pos l f h = walk_safe_from get_next off l f pos h"

definition list_for_each_entry_safe_reverse ::
    "addr \<Rightarrow> addr \<Rightarrow> (addr \<Rightarrow> lheap \<Rightarrow> lheap option) \<Rightarrow> lheap \<Rightarrow> lheap run option" where
  "list_for_each_entry_safe_reverse off l f h = walk_safe_after get_prev off l f l h"

section \<open>Well-formed lists\<close>

text \<open>
  \<open>path nx pv p xs q\<close>: from \<open>p\<close> the next pointers lead through \<open>xs\<close> to \<open>q\<close>, and the
  previous pointers back.  A list is a path from its head to its head.
\<close>

fun path :: "(addr \<rightharpoonup> addr) \<Rightarrow> (addr \<rightharpoonup> addr) \<Rightarrow> addr \<Rightarrow> addr list \<Rightarrow> addr \<Rightarrow> bool" where
  "path nx pv p [] q \<longleftrightarrow> nx p = Some q \<and> pv q = Some p"
| "path nx pv p (x # xs) q \<longleftrightarrow> nx p = Some x \<and> pv x = Some p \<and> path nx pv x xs q"

definition dlist :: "lheap \<Rightarrow> addr \<Rightarrow> addr list \<Rightarrow> bool" where
  "dlist h l xs \<longleftrightarrow> distinct (l # xs) \<and> path (get_next h) (get_prev h) l xs l"

lemma path_split [simp]: "path nx pv p (xs @ x # ys) q \<longleftrightarrow> path nx pv p xs x \<and> path nx pv x ys q"
  by (induction xs arbitrary: p) auto

lemma path_next_upd [simp]: "a \<notin> insert p (set xs) \<Longrightarrow> path (nx(a := v)) pv p xs q = path nx pv p xs q"
  by (induction xs arbitrary: p) auto

lemma path_prev_upd [simp]: "a \<notin> insert q (set xs) \<Longrightarrow> path nx (pv(a := v)) p xs q = path nx pv p xs q"
  by (induction xs arbitrary: p) auto

lemma path_cong:
  "(\<And>x. x \<in> insert p (set xs) \<Longrightarrow> nx x = nx' x) \<Longrightarrow> (\<And>x. x \<in> insert q (set xs) \<Longrightarrow> pv x = pv' x) \<Longrightarrow>
   path nx pv p xs q = path nx' pv' p xs q"
  by (induction xs arbitrary: p) auto

lemma path_sym: "path nx pv p xs q \<longleftrightarrow> path pv nx q (rev xs) p"
proof (induction xs arbitrary: p)
  case (Cons x xs)
  have "path nx pv p (x # xs) q \<longleftrightarrow> path pv nx x [] p \<and> path pv nx q (rev xs) x"
    by (simp add: Cons.IH [of x]) blast
  then show ?case by (simp only: rev.simps path_split) blast
qed auto

lemma path_ends:
  assumes "path nx pv p xs q"
  shows "nx p = Some (hd (xs @ [q]))" and "pv q = Some (last (p # xs))"
proof -
  show "nx p = Some (hd (xs @ [q]))" using assms by (cases xs) auto
  show "pv q = Some (last (p # xs))" using assms by (induction xs arbitrary: p) auto
qed

lemma path_live:
  "path (get_next h) (get_prev h) p xs q \<Longrightarrow> x \<in> set (p # xs @ [q]) \<Longrightarrow> h x \<noteq> None"
  by (induction xs arbitrary: p) (auto simp: get_next_def get_prev_def)

lemma dlist_live: "dlist h l xs \<Longrightarrow> x \<in> set (l # xs) \<Longrightarrow> h x \<noteq> None"
  unfolding dlist_def using path_live [of h l xs l x] by auto

lemma dlist_frame: "(\<And>x. x \<in> set (l # xs) \<Longrightarrow> h' x = h x) \<Longrightarrow> dlist h' l xs = dlist h l xs"
proof -
  assume "\<And>x. x \<in> set (l # xs) \<Longrightarrow> h' x = h x"
  then have "path (get_next h') (get_prev h') l xs l = path (get_next h) (get_prev h) l xs l"
    by (intro path_cong) (auto simp: get_next_def get_prev_def)
  then show ?thesis by (simp add: dlist_def)
qed

section \<open>Effect of the stores\<close>

text \<open>A heap is determined by its two pointer maps, so effects are stated on these.\<close>

definition live :: "lheap \<Rightarrow> addr \<Rightarrow> bool" where
  "live h p \<longleftrightarrow> h p \<noteq> None"

lemma live_iff: "live h x \<longleftrightarrow> get_next h x \<noteq> None" "live h x \<longleftrightarrow> get_prev h x \<noteq> None"
  by (simp_all add: live_def get_next_def get_prev_def)

lemma heap_eqI: "get_next h' x = get_next h x \<Longrightarrow> get_prev h' x = get_prev h x \<Longrightarrow> h' x = h x"
  by (cases "h x"; cases "h' x") (auto simp: get_next_def get_prev_def)

definition yields :: "lheap option \<Rightarrow> (addr \<rightharpoonup> addr) \<Rightarrow> (addr \<rightharpoonup> addr) \<Rightarrow> bool" where
  "yields m nx pv \<longleftrightarrow> (\<exists>h. m = Some h \<and> get_next h = nx \<and> get_prev h = pv)"

lemma set_next_Some:
  assumes "live h p"
  shows "\<exists>h'. set_next h p v = Some h' \<and> get_next h' = (get_next h)(p \<mapsto> v) \<and> get_prev h' = get_prev h"
proof -
  obtain n where "h p = Some n" using assms by (auto simp: live_def)
  then show ?thesis
    by (intro exI [of _ "h(p \<mapsto> n\<lparr>lh_next := v\<rparr>)"]) (auto simp: set_next_def get_next_def get_prev_def fun_eq_iff)
qed

lemma set_prev_Some:
  assumes "live h p"
  shows "\<exists>h'. set_prev h p v = Some h' \<and> get_next h' = get_next h \<and> get_prev h' = (get_prev h)(p \<mapsto> v)"
proof -
  obtain n where "h p = Some n" using assms by (auto simp: live_def)
  then show ?thesis
    by (intro exI [of _ "h(p \<mapsto> n\<lparr>lh_prev := v\<rparr>)"]) (auto simp: set_prev_def get_next_def get_prev_def fun_eq_iff)
qed

text \<open>Rules for a store followed by the rest of an operation, and for a store at its end.\<close>

lemma store_bind:
  assumes "live h p"
  shows "(\<And>h'. get_next h' = (get_next h)(p \<mapsto> v) \<Longrightarrow> get_prev h' = get_prev h \<Longrightarrow> live h' = live h
            \<Longrightarrow> yields (F h') nx pv) \<Longrightarrow> yields (set_next h p v \<bind> F) nx pv"
    and "(\<And>h'. get_next h' = get_next h \<Longrightarrow> get_prev h' = (get_prev h)(p \<mapsto> v) \<Longrightarrow> live h' = live h
            \<Longrightarrow> yields (F h') nx pv) \<Longrightarrow> yields (set_prev h p v \<bind> F) nx pv"
proof -
  obtain h1 where 1: "set_next h p v = Some h1" "get_next h1 = (get_next h)(p \<mapsto> v)" "get_prev h1 = get_prev h"
    using set_next_Some [OF assms] by blast
  then have "live h1 = live h" by (intro ext) (metis live_iff(2))
  then show "(\<And>h'. get_next h' = (get_next h)(p \<mapsto> v) \<Longrightarrow> get_prev h' = get_prev h \<Longrightarrow> live h' = live h
            \<Longrightarrow> yields (F h') nx pv) \<Longrightarrow> yields (set_next h p v \<bind> F) nx pv" using 1 by simp
next
  obtain h1 where 1: "set_prev h p v = Some h1" "get_next h1 = get_next h" "get_prev h1 = (get_prev h)(p \<mapsto> v)"
    using set_prev_Some [OF assms] by blast
  then have "live h1 = live h" by (intro ext) (metis live_iff(1))
  then show "(\<And>h'. get_next h' = get_next h \<Longrightarrow> get_prev h' = (get_prev h)(p \<mapsto> v) \<Longrightarrow> live h' = live h
            \<Longrightarrow> yields (F h') nx pv) \<Longrightarrow> yields (set_prev h p v \<bind> F) nx pv" using 1 by simp
qed

lemma store_last:
  assumes "live h p"
  shows "nx = (get_next h)(p \<mapsto> v) \<Longrightarrow> pv = get_prev h \<Longrightarrow> yields (set_next h p v) nx pv"
    and "nx = get_next h \<Longrightarrow> pv = (get_prev h)(p \<mapsto> v) \<Longrightarrow> yields (set_prev h p v) nx pv"
  using set_next_Some [OF assms, of v] set_prev_Some [OF assms, of v] by (auto simp: yields_def)

lemma yields_bind:
  assumes "yields m nx pv" and "\<And>h. get_next h = nx \<Longrightarrow> get_prev h = pv \<Longrightarrow> yields (F h) nx' pv'"
  shows "yields (m \<bind> F) nx' pv'"
  using assms by (auto simp: yields_def)

lemma INIT_LIST_HEAD_ok:
  "live h l \<Longrightarrow> yields (INIT_LIST_HEAD h l) ((get_next h)(l \<mapsto> l)) ((get_prev h)(l \<mapsto> l))"
  unfolding INIT_LIST_HEAD_def by (intro store_bind store_last) simp_all

lemma raw_list_add_ok:
  "live h new \<Longrightarrow> live h p \<Longrightarrow> live h q \<Longrightarrow>
   yields (raw_list_add h new p q) ((get_next h)(new \<mapsto> q, p \<mapsto> new)) ((get_prev h)(q \<mapsto> new, new \<mapsto> p))"
  unfolding raw_list_add_def by (intro store_bind store_last) simp_all

lemma raw_list_del_ok:
  "live h p \<Longrightarrow> live h q \<Longrightarrow> yields (raw_list_del h p q) ((get_next h)(p \<mapsto> q)) ((get_prev h)(q \<mapsto> p))"
  unfolding raw_list_del_def by (intro store_bind store_last) simp_all

lemma raw_list_splice_ok:
  assumes "get_next h k = Some f" "get_prev h k = Some e" "get_next h l = Some a" "live h f" "live h e" "live h a"
  shows "yields (raw_list_splice h k l) ((get_next h)(l \<mapsto> f, e \<mapsto> a)) ((get_prev h)(f \<mapsto> l, a \<mapsto> e))"
proof -
  have "live h l" using assms(3) by (simp add: live_iff(1))
  then show ?thesis unfolding raw_list_splice_def using assms by (auto intro!: store_bind store_last)
qed

lemma list_replace_ok:
  assumes "get_next h old = Some q" "get_prev h old = Some p" "live h new" "live h p" "live h q" "new \<noteq> old" "q \<noteq> old"
  shows "yields (list_replace h old new) ((get_next h)(new \<mapsto> q, p \<mapsto> new)) ((get_prev h)(q \<mapsto> new, new \<mapsto> p))"
  unfolding list_replace_def using assms by (auto intro!: store_bind store_last)

section \<open>The operations on lists\<close>

lemma path_at:
  assumes "path nx pv p (xs @ ys) q"
  shows "nx (last (p # xs)) = Some (hd (ys @ [q]))" and "pv (hd (ys @ [q])) = Some (last (p # xs))"
  using assms by (induction xs arbitrary: p) (cases ys; auto)+

lemma path_insert:
  assumes "path nx pv l (xs @ ys) l" and "distinct (l # new # xs @ ys)"
    and "p = last (l # xs)" and "q = hd (ys @ [l])"
  shows "path (nx(new \<mapsto> q, p \<mapsto> new)) (pv(q \<mapsto> new, new \<mapsto> p)) l (xs @ new # ys) l"
  using assms by (cases xs rule: rev_cases; cases ys) auto

lemma path_delete:
  assumes "path nx pv l (xs @ e # ys) l" and "distinct (l # xs @ e # ys)"
    and "p = last (l # xs)" and "q = hd (ys @ [l])"
  shows "path (nx(p \<mapsto> q)) (pv(q \<mapsto> p)) l (xs @ ys) l"
  using assms by (cases xs rule: rev_cases; cases ys) auto

lemma path_replace:
  assumes "path nx pv l (xs @ old # ys) l" and "distinct (l # new # xs @ old # ys)"
    and "p = last (l # xs)" and "q = hd (ys @ [l])"
  shows "path (nx(new \<mapsto> q, p \<mapsto> new)) (pv(q \<mapsto> new, new \<mapsto> p)) l (xs @ new # ys) l"
  using assms by (cases xs rule: rev_cases; cases ys) auto

lemma yields_dlist:
  assumes "yields m nx pv" and "distinct (l # ys)" and "path nx pv l ys l"
    and "\<And>x. x \<notin> S \<Longrightarrow> nx x = get_next h x \<and> pv x = get_prev h x"
  shows "\<exists>h'. m = Some h' \<and> dlist h' l ys \<and> (\<forall>x. x \<notin> S \<longrightarrow> h' x = h x)"
  using assms by (auto simp: yields_def dlist_def intro: heap_eqI)

text \<open>The pointers around a position of a list.\<close>

lemma dlist_gap:
  assumes "dlist h l (xs @ ys)"
  shows "get_next h (last (l # xs)) = Some (hd (ys @ [l]))" "get_prev h (hd (ys @ [l])) = Some (last (l # xs))"
    "live h (last (l # xs))" "live h (hd (ys @ [l]))"
proof -
  show *: "get_next h (last (l # xs)) = Some (hd (ys @ [l]))" "get_prev h (hd (ys @ [l])) = Some (last (l # xs))"
    using path_at [of "get_next h" "get_prev h" l xs ys l] assms by (simp_all add: dlist_def)
  show "live h (last (l # xs))" using *(1) by (simp only: live_iff(1)) simp
  show "live h (hd (ys @ [l]))" using *(2) by (simp only: live_iff(2)) simp
qed

lemma dlist_around:
  assumes "dlist h l (xs @ e # ys)"
  shows "get_prev h e = Some (last (l # xs))" "get_next h e = Some (hd (ys @ [l]))" "live h e"
    "live h (last (l # xs))" "live h (hd (ys @ [l]))"
proof -
  show "get_prev h e = Some (last (l # xs))" "live h e" "live h (last (l # xs))" using dlist_gap [of h l xs "e # ys"] assms by simp_all
  show "get_next h e = Some (hd (ys @ [l]))" "live h (hd (ys @ [l]))" using dlist_gap [of h l "xs @ [e]" ys] assms by simp_all
qed

lemma INIT_LIST_HEAD_refines:
  assumes "live h l" shows "\<exists>h'. INIT_LIST_HEAD h l = Some h' \<and> dlist h' l [] \<and> (\<forall>x. x \<noteq> l \<longrightarrow> h' x = h x)"
  using yields_dlist [OF INIT_LIST_HEAD_ok [OF assms], of l "[]" "{l}" h] by auto

lemma list_insert_refines:
  assumes "dlist h l (xs @ ys)" and "live h new" and "new \<notin> set (l # xs @ ys)"
  shows "\<exists>h'. raw_list_add h new (last (l # xs)) (hd (ys @ [l])) = Some h' \<and> dlist h' l (xs @ new # ys)
    \<and> (\<forall>x. x \<notin> set (l # new # xs @ ys) \<longrightarrow> h' x = h x)"
proof (rule yields_dlist [OF raw_list_add_ok])
  show "path ((get_next h)(new \<mapsto> hd (ys @ [l]), last (l # xs) \<mapsto> new))
      ((get_prev h)(hd (ys @ [l]) \<mapsto> new, new \<mapsto> last (l # xs))) l (xs @ new # ys) l"
    using assms by (intro path_insert) (auto simp: dlist_def)
  fix x assume "x \<notin> set (l # new # xs @ ys)"
  moreover have "last (l # xs) \<in> set (l # xs)" "hd (ys @ [l]) \<in> set (l # ys)" by (simp, cases ys, simp_all)
  ultimately show "((get_next h)(new \<mapsto> hd (ys @ [l]), last (l # xs) \<mapsto> new)) x = get_next h x
      \<and> ((get_prev h)(hd (ys @ [l]) \<mapsto> new, new \<mapsto> last (l # xs))) x = get_prev h x" by auto
qed (use assms dlist_gap [OF assms(1)] in \<open>auto simp: dlist_def\<close>)

lemma list_add_refines:
  assumes "dlist h l xs" and "live h new" and "new \<notin> set (l # xs)"
  shows "\<exists>h'. list_add h new l = Some h' \<and> dlist h' l (new # xs) \<and> (\<forall>x. x \<notin> set (l # new # xs) \<longrightarrow> h' x = h x)"
  using list_insert_refines [of h l "[]" xs new] dlist_gap(1) [of h l "[]" xs] assms by (simp add: list_add_def)

lemma list_add_tail_refines:
  assumes "dlist h l xs" and "live h new" and "new \<notin> set (l # xs)"
  shows "\<exists>h'. list_add_tail h new l = Some h' \<and> dlist h' l (xs @ [new])
    \<and> (\<forall>x. x \<notin> set (l # new # xs) \<longrightarrow> h' x = h x)"
  using list_insert_refines [of h l xs "[]" new] dlist_gap(2) [of h l xs "[]"] assms by (simp add: list_add_tail_def)

lemma unlink_refines:
  assumes "dlist h l (xs @ e # ys)"
  shows "\<exists>h'. unlink_entry h e = Some h' \<and> dlist h' l (xs @ ys) \<and> live h' e
    \<and> (\<forall>x. x \<notin> set (l # xs @ ys) \<longrightarrow> h' x = h x)"
proof -
  let ?p = "last (l # xs)" and ?q = "hd (ys @ [l])"
  have ar: "get_prev h e = Some ?p" "get_next h e = Some ?q" "live h e" "live h ?p" "live h ?q"
    using dlist_around [OF assms] .
  have mem: "?p \<in> set (l # xs)" "?q \<in> set (l # ys)" by (simp, cases ys, simp_all)
  have "\<exists>h'. raw_list_del h ?p ?q = Some h' \<and> dlist h' l (xs @ ys) \<and> (\<forall>x. x \<notin> set (l # xs @ ys) \<longrightarrow> h' x = h x)"
  proof (rule yields_dlist [OF raw_list_del_ok [OF ar(4,5)]])
    show "path ((get_next h)(?p \<mapsto> ?q)) ((get_prev h)(?q \<mapsto> ?p)) l (xs @ ys) l"
      using assms by (intro path_delete) (auto simp: dlist_def)
    show "((get_next h)(?p \<mapsto> ?q)) x = get_next h x \<and> ((get_prev h)(?q \<mapsto> ?p)) x = get_prev h x"
      if "x \<notin> set (l # xs @ ys)" for x using that mem by auto
  qed (use assms in \<open>auto simp: dlist_def\<close>)
  moreover have "e \<notin> set (l # xs @ ys)" using assms by (auto simp: dlist_def)
  ultimately show ?thesis using ar(1-3) by (auto simp: unlink_entry_def live_def)
qed

lemma list_del_refines:
  assumes "dlist h l (xs @ e # ys)"
  shows "\<exists>h'. list_del h e = Some h' \<and> dlist h' l (xs @ ys)
    \<and> h' e = Some \<lparr>lh_next = LIST_POISON1, lh_prev = LIST_POISON2\<rparr>
    \<and> (\<forall>x. x \<notin> set (l # e # xs @ ys) \<longrightarrow> h' x = h x)"
proof -
  obtain h1 where 1: "unlink_entry h e = Some h1" "dlist h1 l (xs @ ys)" "live h1 e"
      "\<forall>x. x \<notin> set (l # xs @ ys) \<longrightarrow> h1 x = h x"
    using unlink_refines [OF assms] by blast
  let ?h2 = "h1(e \<mapsto> \<lparr>lh_next = LIST_POISON1, lh_prev = LIST_POISON2\<rparr>)"
  obtain n where "h1 e = Some n" using 1(3) by (auto simp: live_def)
  then have "list_del h e = Some ?h2"
    using 1(1) by (cases n) (simp add: list_del_def set_next_def set_prev_def)
  moreover have "dlist ?h2 l (xs @ ys)"
    using 1(2) assms by (subst dlist_frame [of _ _ _ h1]) (auto simp: dlist_def)
  ultimately show ?thesis using 1(4) by auto
qed

lemma list_del_init_refines:
  assumes "dlist h l (xs @ e # ys)"
  shows "\<exists>h'. list_del_init h e = Some h' \<and> dlist h' l (xs @ ys) \<and> dlist h' e []
    \<and> (\<forall>x. x \<notin> set (l # e # xs @ ys) \<longrightarrow> h' x = h x)"
proof -
  obtain h1 where 1: "unlink_entry h e = Some h1" "dlist h1 l (xs @ ys)" "live h1 e"
      "\<forall>x. x \<notin> set (l # xs @ ys) \<longrightarrow> h1 x = h x"
    using unlink_refines [OF assms] by blast
  obtain h2 where 2: "INIT_LIST_HEAD h1 e = Some h2" "dlist h2 e []" "\<forall>x. x \<noteq> e \<longrightarrow> h2 x = h1 x"
    using INIT_LIST_HEAD_refines [OF 1(3)] by blast
  have "dlist h2 l (xs @ ys)"
    using 1(2) 2(3) assms by (subst dlist_frame [of _ _ _ h1]) (auto simp: dlist_def)
  then show ?thesis using 1 2 by (auto simp: list_del_init_def)
qed

lemma list_replace_refines:
  assumes "dlist h l (xs @ old # ys)" and "live h new" and "new \<notin> set (l # xs @ old # ys)"
  shows "\<exists>h'. list_replace h old new = Some h' \<and> dlist h' l (xs @ new # ys) \<and> live h' old
    \<and> (\<forall>x. x \<notin> set (l # new # xs @ ys) \<longrightarrow> h' x = h x)"
proof -
  let ?p = "last (l # xs)" and ?q = "hd (ys @ [l])"
  have ar: "get_prev h old = Some ?p" "get_next h old = Some ?q" "live h old" "live h ?p" "live h ?q"
    using dlist_around [OF assms(1)] .
  have mem: "?p \<in> set (l # xs)" "?q \<in> set (l # ys)" by (simp, cases ys, simp_all)
  have dist: "distinct (l # new # xs @ old # ys)" using assms by (auto simp: dlist_def)
  then have ne: "new \<noteq> old" "?q \<noteq> old" using mem by auto
  have "\<exists>h'. list_replace h old new = Some h' \<and> dlist h' l (xs @ new # ys)
      \<and> (\<forall>x. x \<notin> set (l # new # xs @ ys) \<longrightarrow> h' x = h x)"
  proof (rule yields_dlist [OF list_replace_ok [OF ar(2,1) assms(2) ar(4,5) ne]])
    show "path ((get_next h)(new \<mapsto> ?q, ?p \<mapsto> new)) ((get_prev h)(?q \<mapsto> new, new \<mapsto> ?p)) l (xs @ new # ys) l"
      using assms(1) dist by (intro path_replace) (auto simp: dlist_def)
    show "((get_next h)(new \<mapsto> ?q, ?p \<mapsto> new)) x = get_next h x
        \<and> ((get_prev h)(?q \<mapsto> new, new \<mapsto> ?p)) x = get_prev h x"
      if "x \<notin> set (l # new # xs @ ys)" for x using that mem by auto
  qed (use dist in auto)
  moreover have "old \<notin> set (l # new # xs @ ys)" using dist by auto
  ultimately show ?thesis using ar(3) by (auto simp: live_def)
qed

lemma list_replace_init_refines:
  assumes "dlist h l (xs @ old # ys)" and "live h new" and "new \<notin> set (l # xs @ old # ys)"
  shows "\<exists>h'. list_replace_init h old new = Some h' \<and> dlist h' l (xs @ new # ys) \<and> dlist h' old []"
proof -
  obtain h1 where 1: "list_replace h old new = Some h1" "dlist h1 l (xs @ new # ys)" "live h1 old"
    using list_replace_refines [OF assms] by blast
  obtain h2 where 2: "INIT_LIST_HEAD h1 old = Some h2" "dlist h2 old []" "\<forall>x. x \<noteq> old \<longrightarrow> h2 x = h1 x"
    using INIT_LIST_HEAD_refines [OF 1(3)] by blast
  have "dlist h2 l (xs @ new # ys)"
    using 1(2) 2(3) assms by (subst dlist_frame [of _ _ _ h1]) (auto simp: dlist_def)
  then show ?thesis using 1 2 by (auto simp: list_replace_init_def)
qed

text \<open>Moving an entry, within a list or to another one.\<close>

lemma list_move_refines:
  assumes "dlist h k (xs @ e # ys)" and "dlist h l zs" and "set (k # xs @ e # ys) \<inter> set (l # zs) = {}"
  shows "\<exists>h'. list_move h e l = Some h' \<and> dlist h' k (xs @ ys) \<and> dlist h' l (e # zs)"
    and "\<exists>h'. list_move_tail h e l = Some h' \<and> dlist h' k (xs @ ys) \<and> dlist h' l (zs @ [e])"
proof -
  obtain h1 where 1: "unlink_entry h e = Some h1" "dlist h1 k (xs @ ys)" "live h1 e"
      "\<forall>x. x \<notin> set (k # xs @ ys) \<longrightarrow> h1 x = h x"
    using unlink_refines [OF assms(1)] by blast
  have 2: "dlist h1 l zs" using 1(4) assms(2,3) by (subst dlist_frame [of _ _ _ h]) auto
  have e: "e \<notin> set (l # zs)" "set (k # xs @ ys) \<inter> set (l # e # zs) = {}" using assms(1,3) by (auto simp: dlist_def)
  have keep: "dlist h2 k (xs @ ys)" if "\<forall>x. x \<notin> set (l # e # zs) \<longrightarrow> h2 x = h1 x" for h2
    using 1(2) that e(2) by (subst dlist_frame [of _ _ _ h1]) auto
  show "\<exists>h'. list_move h e l = Some h' \<and> dlist h' k (xs @ ys) \<and> dlist h' l (e # zs)"
    using list_add_refines [OF 2 1(3) e(1)] keep 1(1) by (auto simp: list_move_def)
  show "\<exists>h'. list_move_tail h e l = Some h' \<and> dlist h' k (xs @ ys) \<and> dlist h' l (zs @ [e])"
    using list_add_tail_refines [OF 2 1(3) e(1)] keep 1(1) by (auto simp: list_move_tail_def)
qed

lemma list_move_within:
  assumes "dlist h l (xs @ e # ys)"
  shows "\<exists>h'. list_move h e l = Some h' \<and> dlist h' l (e # xs @ ys)"
    and "\<exists>h'. list_move_tail h e l = Some h' \<and> dlist h' l (xs @ ys @ [e])"
proof -
  obtain h1 where 1: "unlink_entry h e = Some h1" "dlist h1 l (xs @ ys)" "live h1 e"
    using unlink_refines [OF assms(1)] by blast
  have e: "e \<notin> set (l # xs @ ys)" using assms by (auto simp: dlist_def)
  show "\<exists>h'. list_move h e l = Some h' \<and> dlist h' l (e # xs @ ys)"
    using list_add_refines [OF 1(2,3) e] 1(1) by (auto simp: list_move_def)
  show "\<exists>h'. list_move_tail h e l = Some h' \<and> dlist h' l (xs @ ys @ [e])"
    using list_add_tail_refines [OF 1(2,3) e] 1(1) by (auto simp: list_move_tail_def)
qed

lemma list_empty_iff: "dlist h l xs \<Longrightarrow> list_empty h l = Some (xs = [])"
  using dlist_gap(1) [of h l "[]" xs] by (cases xs) (auto simp: list_empty_def dlist_def)

lemma list_is_last_iff: "dlist h l (xs @ e # ys) \<Longrightarrow> list_is_last h e l = Some (ys = [])"
  using dlist_around(2) [of h l xs e ys] by (cases ys) (auto simp: list_is_last_def dlist_def)

lemma path_splice:
  assumes "path nx pv k ys k" and "path nx pv l zs l" and "distinct (k # l # ys @ zs)" and "ys \<noteq> []"
  shows "path (nx(l \<mapsto> hd ys, last ys \<mapsto> hd (zs @ [l]))) (pv(hd ys \<mapsto> l, hd (zs @ [l]) \<mapsto> last ys)) l (ys @ zs) l"
proof -
  obtain y ys1 where y: "ys = y # ys1" using assms(4) by (cases ys) auto
  show ?thesis
    using assms unfolding y by (cases ys1 rule: rev_cases; cases zs) auto
qed

lemma list_splice_refines:
  assumes "dlist h k ys" and "dlist h l zs" and "set (k # ys) \<inter> set (l # zs) = {}"
  shows "\<exists>h'. list_splice h k l = Some h' \<and> dlist h' l (ys @ zs)"
    and "\<exists>h'. list_splice_init h k l = Some h' \<and> dlist h' l (ys @ zs) \<and> dlist h' k []"
proof -
  have "\<exists>h'. raw_list_splice h k l = Some h' \<and> dlist h' l (ys @ zs) \<and> (\<forall>x. x \<notin> set (l # ys @ zs) \<longrightarrow> h' x = h x)"
    if ne: "ys \<noteq> []"
  proof (rule yields_dlist [OF raw_list_splice_ok])
    have hl: "hd (ys @ [k]) = hd ys" "last (k # ys) = last ys" using ne by simp_all
    show "get_next h k = Some (hd ys)" "live h (hd ys)" using dlist_gap(1,4) [of h k "[]" ys] assms(1) hl(1) by simp_all
    show "get_prev h k = Some (last ys)" "live h (last ys)" using dlist_gap(2,3) [of h k ys "[]"] assms(1) hl(2) by simp_all
    show "get_next h l = Some (hd (zs @ [l]))" "live h (hd (zs @ [l]))" using dlist_gap(1,4) [of h l "[]" zs] assms(2) by simp_all
    show "path ((get_next h)(l \<mapsto> hd ys, last ys \<mapsto> hd (zs @ [l]))) ((get_prev h)(hd ys \<mapsto> l, hd (zs @ [l]) \<mapsto> last ys)) l (ys @ zs) l"
      using assms ne by (intro path_splice [of _ _ k]) (auto simp: dlist_def)
    show "distinct (l # ys @ zs)" using assms by (auto simp: dlist_def)
    fix x assume "x \<notin> set (l # ys @ zs)"
    moreover have "hd ys \<in> set ys" "last ys \<in> set ys" "hd (zs @ [l]) \<in> set (l # zs)" using ne by (simp, simp, cases zs, simp_all)
    ultimately show "((get_next h)(l \<mapsto> hd ys, last ys \<mapsto> hd (zs @ [l]))) x = get_next h x
        \<and> ((get_prev h)(hd ys \<mapsto> l, hd (zs @ [l]) \<mapsto> last ys)) x = get_prev h x" by auto
  qed
  note splice = this
  show "\<exists>h'. list_splice h k l = Some h' \<and> dlist h' l (ys @ zs)"
    using splice list_empty_iff [OF assms(1)] assms(2) by (cases "ys = []") (auto simp: list_splice_def)
  show "\<exists>h'. list_splice_init h k l = Some h' \<and> dlist h' l (ys @ zs) \<and> dlist h' k []"
  proof (cases "ys = []")
    case True
    then show ?thesis using assms(1,2) list_empty_iff [OF assms(1)] by (simp add: list_splice_init_def)
  next
    case False
    obtain h1 where 1: "raw_list_splice h k l = Some h1" "dlist h1 l (ys @ zs)" "\<forall>x. x \<notin> set (l # ys @ zs) \<longrightarrow> h1 x = h x"
      using splice [OF False] by blast
    have k: "k \<notin> set (l # ys @ zs)" using assms by (auto simp: dlist_def)
    then have "live h1 k" using 1(3) dlist_live [OF assms(1), of k] by (auto simp: live_def)
    then obtain h2 where 2: "INIT_LIST_HEAD h1 k = Some h2" "dlist h2 k []" "\<forall>x. x \<noteq> k \<longrightarrow> h2 x = h1 x"
      using INIT_LIST_HEAD_refines by blast
    have "dlist h2 l (ys @ zs)" using 1(2) 2(3) k by (subst dlist_frame [of _ _ _ h1]) auto
    then show ?thesis using 1(1) 2(1,2) False list_empty_iff [OF assms(1)] by (simp add: list_splice_init_def)
  qed
qed

section \<open>The loops\<close>

text \<open>The pointers a forward loop follows: \<open>linked nx xs q\<close> holds of the entries \<open>xs\<close> up to \<open>q\<close>.\<close>

fun linked :: "(addr \<rightharpoonup> addr) \<Rightarrow> addr list \<Rightarrow> addr \<Rightarrow> bool" where
  "linked nx [] q \<longleftrightarrow> True"
| "linked nx (x # xs) q \<longleftrightarrow> nx x = Some (hd (xs @ [q])) \<and> linked nx xs q"

lemma linked_cong: "(\<And>x. x \<in> set xs \<Longrightarrow> nx x = nx' x) \<Longrightarrow> linked nx xs q = linked nx' xs q"
  by (induction xs) auto

lemma path_linked: "path nx pv p xs q \<Longrightarrow> linked nx xs q"
proof (induction xs arbitrary: p)
  case (Cons x xs)
  then have "path nx pv x xs q" by simp
  then show ?case using path_ends(1) [of nx pv x xs q] Cons.IH by simp
qed simp

lemma container_of_off [simp]: "container_of p off + off = p" "container_of (p + off) off = p" "container_of p 0 = p"
  by (simp_all add: container_of_def)

lemma walk_linked:
  "linked (step h) xs q \<Longrightarrow> l \<notin> set xs \<Longrightarrow>
   walk step off h l f (container_of (hd (xs @ [q])) off) s
     = walk step off h l f (container_of q off) (fold (\<lambda>x. f (container_of x off)) xs s)"
proof (induction xs arbitrary: s)
  case (Cons x xs)
  then show ?case by (subst walk.simps) auto
qed simp

lemma walk_stops [simp]:
  "walk step off h l f (container_of l off) s = Some (Ret s)" "walk step 0 h l f l s = Some (Ret s)"
  by (subst walk.simps, simp)+

lemma walk_after_path:
  assumes "path (step h) pv p xs q" and "l \<notin> set xs"
  shows "walk_after step off h p l f s
    = walk step off h l f (container_of q off) (fold (\<lambda>x. f (container_of x off)) xs s)"
  using path_ends(1) [OF assms(1)] walk_linked [where step = step, OF path_linked [OF assms(1)] assms(2)]
  by (simp add: walk_after_def)

lemma list_for_each_visits:
  assumes "dlist h l xs"
  shows "list_for_each h l f s = Some (Ret (fold f xs s))"
    and "list_for_each_prev h l f s = Some (Ret (fold f (rev xs) s))"
    and "list_for_each_entry off h l g t = Some (Ret (fold (\<lambda>x. g (container_of x off)) xs t))"
    and "list_for_each_entry_reverse off h l g t = Some (Ret (fold (\<lambda>x. g (container_of x off)) (rev xs) t))"
proof -
  have p: "path (get_next h) (get_prev h) l xs l" "path (get_prev h) (get_next h) l (rev xs) l" "l \<notin> set xs"
    using assms path_sym [of "get_next h" "get_prev h" l xs l] by (auto simp: dlist_def)
  show "list_for_each h l f s = Some (Ret (fold f xs s))"
    "list_for_each_entry off h l g t = Some (Ret (fold (\<lambda>x. g (container_of x off)) xs t))"
    by (simp_all add: list_for_each_def list_for_each_entry_def
        walk_after_path [where step = get_next, OF p(1,3)])
  show "list_for_each_prev h l f s = Some (Ret (fold f (rev xs) s))"
    "list_for_each_entry_reverse off h l g t = Some (Ret (fold (\<lambda>x. g (container_of x off)) (rev xs) t))"
    using p(3) by (simp_all add: list_for_each_prev_def list_for_each_entry_reverse_def
        walk_after_path [where step = get_prev, OF p(2)])
qed

lemma list_for_each_continue_visits:
  assumes "dlist h l (xs @ e # ys)"
  shows "list_for_each_entry_continue off h (container_of e off) l f s
      = Some (Ret (fold (\<lambda>x. f (container_of x off)) ys s))"
    and "list_for_each_entry_from off h (container_of e off) l f s
      = Some (Ret (fold (\<lambda>x. f (container_of x off)) (e # ys) s))"
proof -
  have p: "path (get_next h) (get_prev h) e ys l" "path (get_next h) (get_prev h) l (xs @ e # ys) l"
    "l \<notin> set ys" "l \<notin> set (e # ys)"
    using assms by (auto simp: dlist_def)
  have "linked (get_next h) (e # ys) l" using path_ends(1) [OF p(1)] path_linked [OF p(1)] by simp
  then show "list_for_each_entry_from off h (container_of e off) l f s
      = Some (Ret (fold (\<lambda>x. f (container_of x off)) (e # ys) s))"
    using walk_linked [of get_next h "e # ys" l l off f s] p(4) by (simp add: list_for_each_entry_from_def)
  show "list_for_each_entry_continue off h (container_of e off) l f s
      = Some (Ret (fold (\<lambda>x. f (container_of x off)) ys s))"
    by (simp add: list_for_each_entry_continue_def walk_after_path [where step = get_next, OF p(1,3)])
qed

text \<open>
  The loops that are safe against removal, for a body that releases the entry: every list
  head but the one of the list is gone afterwards, and no released one was read.
\<close>

definition free_entry :: "addr \<Rightarrow> addr \<Rightarrow> lheap \<Rightarrow> lheap option" where
  "free_entry off e h = (if h (e + off) = None then None else Some (h(e + off := None)))"

lemma walk_safe_frees:
  assumes "\<And>h p. step h p \<noteq> None \<longleftrightarrow> h p \<noteq> None" and "\<And>h h' p. h p = h' p \<Longrightarrow> step h p = step h' p"
  shows "linked (step h) xs l \<Longrightarrow> distinct xs \<Longrightarrow> l \<notin> set xs \<Longrightarrow> h l \<noteq> None \<Longrightarrow>
    walk_safe_from step off l (free_entry off) (container_of (hd (xs @ [l])) off) h = Some (Ret (h |` (- set xs)))"
proof (induction xs arbitrary: h)
  case Nil
  then obtain n where "step h l = Some n" using assms(1) by blast
  then show ?case by (subst walk_safe_from_def) (simp, subst walk_safe.simps, simp add: restrict_map_def)
next
  case (Cons x xs)
  let ?h = "h(x := None)" and ?n = "hd (xs @ [l])"
  have x: "step h x = Some ?n" "x \<noteq> l" "x \<notin> set xs" using Cons.prems by auto
  have live: "h x \<noteq> None" using assms(1) [of h x] x(1) by simp
  have link: "linked (step ?h) xs l"
    using Cons.prems(1) x(3) by (subst linked_cong [of _ _ "step h"]) (auto intro: assms(2))
  have IH: "walk_safe_from step off l (free_entry off) (container_of ?n off) ?h = Some (Ret (?h |` (- set xs)))"
    using Cons.prems x by (intro Cons.IH [OF link]) auto
  have n: "step ?h ?n \<noteq> None"
    using Cons.prems(1,4) x assms(1) [of ?h ?n] assms(1) [of h ?n] by (cases xs) (auto simp: assms(1))
  have "walk_safe step off l (free_entry off) (container_of x off) (container_of ?n off) h
      = walk_safe_from step off l (free_entry off) (container_of ?n off) ?h"
    using live x n by (subst walk_safe.simps) (auto simp: free_entry_def walk_safe_from_def split: option.split)
  moreover have "?h |` (- set xs) = h |` (- set (x # xs))" by (auto simp: restrict_map_def fun_eq_iff)
  ultimately show ?case using IH x(1) by (subst walk_safe_from_def) simp
qed

lemma step_live: "get_next h p \<noteq> None \<longleftrightarrow> h p \<noteq> None" "get_prev h p \<noteq> None \<longleftrightarrow> h p \<noteq> None"
  "h p = h' p \<Longrightarrow> get_next h p = get_next h' p" "h p = h' p \<Longrightarrow> get_prev h p = get_prev h' p"
  by (simp_all add: get_next_def get_prev_def)

lemma list_for_each_safe_frees:
  assumes "dlist h l xs"
  shows "list_for_each_entry_safe off l (free_entry off) h = Some (Ret (h |` (- set xs)))"
    and "list_for_each_entry_safe_reverse off l (free_entry off) h = Some (Ret (h |` (- set xs)))"
    and "list_for_each_safe l (free_entry 0) h = Some (Ret (h |` (- set xs)))"
proof -
  have p: "path (get_next h) (get_prev h) l xs l" "path (get_prev h) (get_next h) l (rev xs) l" "l \<notin> set xs" "distinct xs"
    using assms path_sym [of "get_next h" "get_prev h" l xs l] by (auto simp: dlist_def)
  have l: "h l \<noteq> None" using dlist_live [OF assms] by simp
  have nx: "walk_safe_after get_next o1 l (free_entry o1) l h = Some (Ret (h |` (- set xs)))" for o1
    using walk_safe_frees [where step = get_next, OF step_live(1,3) path_linked [OF p(1)] p(4,3) l]
      path_ends(1) [OF p(1)] by (simp add: walk_safe_after_def)
  have pv: "walk_safe_after get_prev o1 l (free_entry o1) l h = Some (Ret (h |` (- set xs)))" for o1
    using walk_safe_frees [where step = get_prev, OF step_live(2,4) path_linked [OF p(2)]] p(3,4) l
      path_ends(1) [OF p(2)] by (simp add: walk_safe_after_def)
  show "list_for_each_entry_safe off l (free_entry off) h = Some (Ret (h |` (- set xs)))"
    "list_for_each_safe l (free_entry 0) h = Some (Ret (h |` (- set xs)))"
    using nx by (simp_all add: list_for_each_entry_safe_def list_for_each_safe_def)
  show "list_for_each_entry_safe_reverse off l (free_entry off) h = Some (Ret (h |` (- set xs)))"
    using pv by (simp add: list_for_each_entry_safe_reverse_def)
qed

lemma walk_self_loop:
  assumes "step h b = Some b" and "b \<noteq> l"
  shows "walk step off h l f (container_of b off) s = None"
proof -
  have "step h b = Some b \<and> b \<noteq> l \<longrightarrow> pos \<noteq> container_of b off" if "walk step off h l f pos s = Some x" for pos s x
  proof (rule walk.raw_induct [where P = "\<lambda>step off h l f pos s x. step h b = Some b \<and> b \<noteq> l
        \<longrightarrow> pos \<noteq> container_of b off", OF _ that])
    fix loop step off and h :: lheap and l f pos s x
    assume IH: "\<And>step off (h :: lheap) l f pos s x. loop step off h l f pos s = Some x \<Longrightarrow>
          step h b = Some b \<and> b \<noteq> l \<longrightarrow> pos \<noteq> container_of b off"
      and body: "(if pos + off = l then Some (Ret s) else case step h (pos + off) of None \<Rightarrow> Some Undef
          | Some q \<Rightarrow> loop step off h l f (container_of q off) (f pos s)) = Some x"
    show "step h b = Some b \<and> b \<noteq> l \<longrightarrow> pos \<noteq> container_of b off"
    proof (rule impI, rule notI)
      assume *: "step h b = Some b \<and> b \<noteq> l" "pos = container_of b off"
      then have "loop step off h l f (container_of b off) (f pos s) = Some x" using body by simp
      from IH [OF this] * show False by simp
    qed
  qed
  then show ?thesis using assms by (cases "walk step off h l f (container_of b off) s") auto
qed

section \<open>Swapping\<close>

lemma path_swap:
  assumes "path nx pv l (xs @ a # zs @ b # ys) l" and "distinct (l # xs @ a # zs @ b # ys)" and "zs \<noteq> []"
    and "p = last (l # xs)" and "q = hd (ys @ [l])"
  shows "path (nx(b \<mapsto> hd zs, p \<mapsto> b, a \<mapsto> q, last zs \<mapsto> a)) (pv(hd zs \<mapsto> b, b \<mapsto> p, q \<mapsto> a, a \<mapsto> last zs))
    l (xs @ b # zs @ a # ys) l"
proof -
  obtain z zs1 where z: "zs = z # zs1" using assms(3) by (cases zs) auto
  show ?thesis
    using assms(1,2) unfolding z assms(4,5)
    by (cases zs1 rule: rev_cases; cases xs rule: rev_cases; cases ys; clarsimp)
qed

lemma list_swap_apart:
  assumes "dlist h l (xs @ a # zs @ b # ys)" and "zs \<noteq> []" and "h tmp = None"
  shows "\<exists>h'. list_swap tmp h a b = Some h' \<and> dlist h' l (xs @ b # zs @ a # ys)"
proof -
  let ?p = "last (l # xs)" and ?q = "hd (ys @ [l])" and ?z = "hd zs" and ?y = "last zs"
  let ?h0 = "h(tmp \<mapsto> \<lparr>lh_next = ?q, lh_prev = ?y\<rparr>)"
  have dist: "distinct (l # xs @ a # zs @ b # ys)" using assms(1) by (simp add: dlist_def)
  have mem: "?p \<in> set (l # xs)" "?q \<in> set (l # ys)" "?z \<in> set zs" "?y \<in> set zs"
    using assms(2) by (simp, cases ys, simp_all)
  have tmp: "tmp \<notin> set (l # xs @ a # zs @ b # ys)" using dlist_live [OF assms(1)] assms(3) by blast
  have A: "get_prev h a = Some ?p" "get_next h a = Some ?z" "live h a" "live h ?p" "live h ?z"
    using dlist_around [OF assms(1)] assms(2) by simp_all
  have B: "get_prev h b = Some ?y" "get_next h b = Some ?q" "live h b" "live h ?y" "live h ?q"
    using dlist_around [of h l "xs @ a # zs" b ys] assms(1,2) by simp_all
  have ne: "?z \<noteq> b" "?p \<noteq> b" "b \<noteq> a" "?z \<noteq> a" "tmp \<noteq> a" "tmp \<noteq> b" "tmp \<noteq> ?p" "tmp \<noteq> ?z" "tmp \<noteq> ?y" "tmp \<noteq> ?q"
    using dist mem tmp by auto
  have view0: "get_next ?h0 = (get_next h)(tmp \<mapsto> ?q)" "get_prev ?h0 = (get_prev h)(tmp \<mapsto> ?y)"
    by (auto simp: get_next_def get_prev_def)
  have "yields (list_replace ?h0 a b) ((get_next ?h0)(b \<mapsto> ?z, ?p \<mapsto> b)) ((get_prev ?h0)(?z \<mapsto> b, b \<mapsto> ?p))"
    using A B ne by (intro list_replace_ok) (simp_all add: view0 live_iff(1))
  then obtain h1 where 1: "list_replace ?h0 a b = Some h1"
      "get_next h1 = (get_next h)(tmp \<mapsto> ?q, b \<mapsto> ?z, ?p \<mapsto> b)" "get_prev h1 = (get_prev h)(tmp \<mapsto> ?y, ?z \<mapsto> b, b \<mapsto> ?p)"
    by (auto simp: yields_def view0)
  have "yields (list_replace h1 tmp a) ((get_next h1)(a \<mapsto> ?q, ?y \<mapsto> a)) ((get_prev h1)(?q \<mapsto> a, a \<mapsto> ?y))"
    using A B ne by (intro list_replace_ok) (simp_all add: 1 live_iff(1))
  then obtain h2 where 2: "list_replace h1 tmp a = Some h2"
      "get_next h2 = (get_next h1)(a \<mapsto> ?q, ?y \<mapsto> a)" "get_prev h2 = (get_prev h1)(?q \<mapsto> a, a \<mapsto> ?y)"
    by (auto simp: yields_def)
  have "path (get_next h2) (get_prev h2) l (xs @ b # zs @ a # ys) l
      = path ((get_next h)(b \<mapsto> ?z, ?p \<mapsto> b, a \<mapsto> ?q, ?y \<mapsto> a)) ((get_prev h)(?z \<mapsto> b, b \<mapsto> ?p, ?q \<mapsto> a, a \<mapsto> ?y))
          l (xs @ b # zs @ a # ys) l"
    using tmp by (intro path_cong) (auto simp: 1 2)
  moreover have "\<dots>" using assms(1,2) by (intro path_swap) (auto simp: dlist_def)
  ultimately have "dlist h2 l (xs @ b # zs @ a # ys)" using dist by (auto simp: dlist_def)
  then have "dlist (h2(tmp := None)) l (xs @ b # zs @ a # ys)"
    using tmp by (subst dlist_frame [of _ _ _ h2]) auto
  moreover have "list_swap tmp h a b = Some (h2(tmp := None))"
    using A(1,2) B(1,2) ne(1,2) 1(1) 2(1) by (simp add: list_swap_def)
  ultimately show ?thesis by blast
qed

lemma list_swap_adjacent:
  assumes "dlist h l (xs @ a # b # ys)"
  shows "\<exists>h'. list_swap tmp h a b = Some h' \<and> get_next h' b = Some b
    \<and> path (get_next h') ((get_prev h')(b := Some (last (l # xs)))) l xs b"
proof -
  let ?p = "last (l # xs)"
  have dist: "distinct (l # xs @ a # b # ys)" using assms by (simp add: dlist_def)
  have mem: "?p \<in> set (l # xs)" by simp
  then have ne: "a \<noteq> b" "?p \<noteq> a" "?p \<noteq> b" using dist by auto
  have A: "get_prev h a = Some ?p" "get_next h a = Some b" "live h a" "live h ?p" "live h b"
    using dlist_around [OF assms] by simp_all
  have "yields (list_replace h a b) ((get_next h)(b \<mapsto> b, ?p \<mapsto> b)) ((get_prev h)(b \<mapsto> b, b \<mapsto> ?p))"
    using A ne by (intro list_replace_ok) simp_all
  then obtain h1 where 1: "list_replace h a b = Some h1" "get_next h1 = (get_next h)(b \<mapsto> b, ?p \<mapsto> b)"
      "get_prev h1 = (get_prev h)(b \<mapsto> ?p)"
    by (auto simp: yields_def)
  have an: "get_next h1 a = Some b" using A ne by (simp add: 1)
  have "yields (raw_list_add h1 b a b) ((get_next h1)(b \<mapsto> b, a \<mapsto> b)) ((get_prev h1)(b \<mapsto> b, b \<mapsto> a))"
    using A ne by (intro raw_list_add_ok) (simp_all add: live_iff(1) 1)
  then obtain h2 where 2: "raw_list_add h1 b a b = Some h2" "get_next h2 = (get_next h1)(b \<mapsto> b, a \<mapsto> b)"
      "get_prev h2 = (get_prev h1)(b \<mapsto> a)"
    by (auto simp: yields_def)
  have "list_swap tmp h a b = Some h2"
    using A(1,2) 1(1) an 2(1) by (simp add: list_swap_def list_add_def)
  moreover have "get_next h2 b = Some b" using ne by (simp add: 2)
  moreover have "path (get_next h2) ((get_prev h2)(b := Some ?p)) l xs b"
    using assms dist by (cases xs rule: rev_cases) (auto simp: dlist_def 1 2)
  ultimately show ?thesis by blast
qed

section \<open>The list of virtual addresses\<close>

text \<open>
  What the daemon relies on: entries are added at the end and visited in order, or in
  reverse.  \<open>fresh s e\<close> is memory not in use, as \<open>malloc\<close> returns it.
\<close>

fun add_all :: "('e \<Rightarrow> 'v \<Rightarrow> 's \<Rightarrow> 's option) \<Rightarrow> ('e \<times> 'v) list \<Rightarrow> 's \<Rightarrow> 's option" where
  "add_all add [] s = Some s"
| "add_all add ((e, v) # evs) s = add e v s \<bind> add_all add evs"

locale entry_sequence =
  fixes repr :: "'s \<Rightarrow> 'v list \<Rightarrow> bool" and fresh :: "'s \<Rightarrow> 'e \<Rightarrow> bool"
    and add :: "'e \<Rightarrow> 'v \<Rightarrow> 's \<Rightarrow> 's option"
    and forward :: "'s \<Rightarrow> 'v list run option" and backward :: "'s \<Rightarrow> 'v list run option"
  assumes add_repr: "repr s vs \<Longrightarrow> fresh s e \<Longrightarrow>
      \<exists>s'. add e v s = Some s' \<and> repr s' (vs @ [v]) \<and> (\<forall>e'. fresh s e' \<longrightarrow> e' \<noteq> e \<longrightarrow> fresh s' e')"
    and forward_repr: "repr s vs \<Longrightarrow> forward s = Some (Ret vs)"
    and backward_repr: "repr s vs \<Longrightarrow> backward s = Some (Ret (rev vs))"
begin

lemma repr_unique: "repr s vs \<Longrightarrow> repr s vs' \<Longrightarrow> vs = vs'"
  using forward_repr [of s vs] forward_repr [of s vs'] by simp

lemma add_all_repr:
  "repr s vs \<Longrightarrow> distinct (map fst evs) \<Longrightarrow> (\<And>e. e \<in> set (map fst evs) \<Longrightarrow> fresh s e) \<Longrightarrow>
   \<exists>s'. add_all add evs s = Some s' \<and> repr s' (vs @ map snd evs)"
proof (induction evs arbitrary: s vs)
  case (Cons ev evs)
  obtain e v where ev: "ev = (e, v)" by (cases ev)
  have fr: "fresh s e" using Cons.prems(3) ev by simp
  obtain s1 where 1: "add e v s = Some s1" "repr s1 (vs @ [v])" "\<forall>e'. fresh s e' \<longrightarrow> e' \<noteq> e \<longrightarrow> fresh s1 e'"
    using add_repr [OF Cons.prems(1) fr] by blast
  have "\<exists>s'. add_all add evs s1 = Some s' \<and> repr s' ((vs @ [v]) @ map snd evs)"
    using Cons.prems 1(3) ev by (intro Cons.IH [OF 1(2)]) auto
  then show ?case using 1(1) ev by simp
qed simp

lemma add_all_visits:
  assumes "repr s []" and "distinct (map fst evs)" and "\<And>e. e \<in> set (map fst evs) \<Longrightarrow> fresh s e"
  shows "\<exists>s'. add_all add evs s = Some s' \<and> forward s' = Some (Ret (map snd evs))
    \<and> backward s' = Some (Ret (rev (map snd evs)))"
  using add_all_repr [OF assms] forward_repr backward_repr by fastforce

end

text \<open>
  On the heap: a list head at offset \<open>off\<close> of each entry, the contents of the entries
  beside it.  A new entry has arbitrary pointers until it is linked.
\<close>

type_synonym 'v vstore = "lheap \<times> (addr \<Rightarrow> 'v)"

definition vip_repr :: "addr \<Rightarrow> addr \<Rightarrow> 'v vstore \<Rightarrow> 'v list \<Rightarrow> bool" where
  "vip_repr off l s vs \<longleftrightarrow> (\<exists>xs. dlist (fst s) l xs \<and> map (\<lambda>x. snd s (container_of x off)) xs = vs)"

definition vip_fresh :: "addr \<Rightarrow> 'v vstore \<Rightarrow> addr \<Rightarrow> bool" where
  "vip_fresh off s e \<longleftrightarrow> \<not> live (fst s) (e + off)"

definition vip_add :: "addr \<Rightarrow> addr \<Rightarrow> list_head \<Rightarrow> addr \<Rightarrow> 'v \<Rightarrow> 'v vstore \<Rightarrow> 'v vstore option" where
  "vip_add off l junk e v s = do {
     h \<leftarrow> list_add_tail ((fst s)(e + off \<mapsto> junk)) (e + off) l;
     Some (h, (snd s)(e := v)) }"

definition vip_forward :: "addr \<Rightarrow> addr \<Rightarrow> 'v vstore \<Rightarrow> 'v list run option" where
  "vip_forward off l s = list_for_each_entry off (fst s) l (\<lambda>e acc. acc @ [snd s e]) []"

definition vip_backward :: "addr \<Rightarrow> addr \<Rightarrow> 'v vstore \<Rightarrow> 'v list run option" where
  "vip_backward off l s = list_for_each_entry_reverse off (fst s) l (\<lambda>e acc. acc @ [snd s e]) []"

lemma fold_collect: "fold (\<lambda>x acc. acc @ [f x]) xs ys = ys @ map f xs"
  by (induction xs arbitrary: ys) auto

lemma vip_add_repr:
  assumes "vip_repr off l s vs" and "vip_fresh off s e"
  shows "\<exists>s'. vip_add off l junk e v s = Some s' \<and> vip_repr off l s' (vs @ [v])
    \<and> (\<forall>e'. vip_fresh off s e' \<longrightarrow> e' \<noteq> e \<longrightarrow> vip_fresh off s' e')"
proof -
  let ?h = "(fst s)(e + off \<mapsto> junk)"
  obtain xs where xs: "dlist (fst s) l xs" "map (\<lambda>x. snd s (container_of x off)) xs = vs"
    using assms(1) by (auto simp: vip_repr_def)
  have new: "e + off \<notin> set (l # xs)" using dlist_live [OF xs(1), of "e + off"] assms(2) by (auto simp: vip_fresh_def live_def)
  have "dlist ?h l xs" using xs(1) new by (subst dlist_frame [of _ _ _ "fst s"]) auto
  then obtain h' where h': "list_add_tail ?h (e + off) l = Some h'" "dlist h' l (xs @ [e + off])"
      "\<forall>x. x \<notin> set (l # (e + off) # xs) \<longrightarrow> h' x = ?h x"
    using list_add_tail_refines [of ?h l xs "e + off"] new by (auto simp: live_def)
  have "vip_add off l junk e v s = Some (h', (snd s)(e := v))" using h'(1) by (simp add: vip_add_def)
  moreover have "vip_repr off l (h', (snd s)(e := v)) (vs @ [v])"
  proof -
    have "container_of x off \<noteq> e" if "x \<in> set xs" for x using that new by (auto simp: container_of_def)
    then have "map (\<lambda>x. ((snd s)(e := v)) (container_of x off)) (xs @ [e + off]) = vs @ [v]" using xs(2) by auto
    then show ?thesis using h'(2) by (auto simp: vip_repr_def)
  qed
  moreover have "vip_fresh off (h', (snd s)(e := v)) e'" if "vip_fresh off s e'" "e' \<noteq> e" for e'
  proof -
    have "e' + off \<notin> set (l # (e + off) # xs)"
      using that dlist_live [OF xs(1), of "e' + off"] by (auto simp: vip_fresh_def live_def)
    then show ?thesis using h'(3) that by (auto simp: vip_fresh_def live_def)
  qed
  ultimately show ?thesis by blast
qed

interpretation vl: entry_sequence "vip_repr off l" "vip_fresh off" "vip_add off l junk" "vip_forward off l" "vip_backward off l"
  for off l junk
proof
  fix s :: "'a vstore" and vs e v
  show "vip_repr off l s vs \<Longrightarrow> vip_fresh off s e \<Longrightarrow> \<exists>s'. vip_add off l junk e v s = Some s'
      \<and> vip_repr off l s' (vs @ [v]) \<and> (\<forall>e'. vip_fresh off s e' \<longrightarrow> e' \<noteq> e \<longrightarrow> vip_fresh off s' e')"
    by (rule vip_add_repr)
  show "vip_repr off l s vs \<Longrightarrow> vip_forward off l s = Some (Ret vs)"
    by (auto simp: vip_repr_def vip_forward_def list_for_each_visits fold_collect)
  show "vip_repr off l s vs \<Longrightarrow> vip_backward off l s = Some (Ret (rev vs))"
    by (auto simp: vip_repr_def vip_backward_def list_for_each_visits fold_collect rev_map)
qed

text \<open>In the other theories \<open>vip_list\<close> is an HOL list: the same contract.\<close>

interpretation hl: entry_sequence "(=)" "\<lambda>_ (_ :: addr). True" "\<lambda>_ v vs. Some (vs @ [v :: vrrp_ip])"
    "\<lambda>vs. Some (Ret vs)" "\<lambda>vs. Some (Ret (rev vs))"
  by unfold_locales auto

section \<open>Properties\<close>

text \<open>
  C17. Refinement of the list of virtual addresses: when \<open>vrrp_net_vip_set\<close> registers an address, linking a
  freshly allocated entry with that address into the C list gives a list that represents
  the new \<open>vip_list\<close>; \<open>list_for_each_entry\<close> visits it in order of registration and
  \<open>list_for_each_entry_reverse\<close>, which all users but the cleanup functions call, in reverse order.  Both loops end
  and touch live memory only.
\<close>
theorem vip_list_refines:
  assumes "vrrp_net_vip_set os n ip w = (0, n', w')" and "vip_repr off l s (vip_list n)" and "vip_fresh off s e"
  shows "\<exists>s'. vip_add off l junk e (last (vip_list n')) s = Some s' \<and> vip_repr off l s' (vip_list n')
    \<and> vip_forward off l s' = Some (Ret (vip_list n')) \<and> vip_backward off l s' = Some (Ret (rev (vip_list n')))"
proof -
  obtain v where "vip_list n' = vip_list n @ [v]"
    using assms(1) by (auto simp: vrrp_net_vip_set_def split: option.splits sum.splits if_splits)
  then show ?thesis
    using vip_add_repr [OF assms(2,3), of junk v] vl.forward_repr vl.backward_repr by fastforce
qed

text \<open>An empty list of addresses at address 16, and a list of two entries.\<close>

definition ring0 :: lheap where
  "ring0 = [16 \<mapsto> LIST_HEAD_INIT 16]"

definition ring2 :: lheap where
  "ring2 = [16 \<mapsto> \<lparr>lh_next = 32, lh_prev = 48\<rparr>, 32 \<mapsto> \<lparr>lh_next = 48, lh_prev = 16\<rparr>,
     48 \<mapsto> \<lparr>lh_next = 16, lh_prev = 32\<rparr>, 64 \<mapsto> \<lparr>lh_next = 0, lh_prev = 0\<rparr>]"

lemma rings: "dlist ring0 16 []" "dlist ring2 16 [32, 48]" "live ring2 64"
  by (simp_all add: dlist_def ring0_def ring2_def get_next_def get_prev_def LIST_HEAD_INIT_def live_def)

theorem vip_list_refines_witness:
  "case vrrp_net_vip_set quiet_os (vnet0\<lparr>vip_list := []\<rparr>) ''10.0.0.254'' world0 of (r, n', w') \<Rightarrow>
     r = 0 \<and> (\<exists>s'. vip_add 8 16 (LIST_HEAD_INIT 0) 32 (last (vip_list n')) (ring0, \<lambda>_. undefined) = Some s'
       \<and> vip_backward 8 16 s' = Some (Ret (rev (vip_list n'))))"
proof -
  have "split_ip_netmask quiet_os AF_INET ''10.0.0.254'' = Inr ([10, 0, 0, 254], 0)"
    by (simp add: split_ip_netmask_def quiet_os_def AF_INET_def)
  then obtain n' w' where r: "vrrp_net_vip_set quiet_os (vnet0\<lparr>vip_list := []\<rparr>) ''10.0.0.254'' world0 = (0, n', w')"
    by (simp add: vrrp_net_vip_set_def vnet0_def quiet_os_def)
  have "vip_repr 8 16 (ring0, \<lambda>_. undefined) (vip_list (vnet0\<lparr>vip_list := []\<rparr>))"
    using rings(1) by (auto simp: vip_repr_def)
  moreover have "vip_fresh 8 (ring0, \<lambda>_. undefined) 32" by (simp add: vip_fresh_def live_def ring0_def)
  ultimately show ?thesis using vip_list_refines [OF r] r by fastforce
qed





text \<open>
  C19. Release: the loop with which \<open>vrrp_net_cleanup\<close> frees the entries of the list ends, frees every entry once, and
  never follows a pointer of an entry it has freed.
\<close>
theorem vip_cleanup_safe:
  assumes "dlist h l xs"
  shows "list_for_each_entry_safe off l (free_entry off) h = Some (Ret (h |` (- set xs)))"
  using list_for_each_safe_frees(1) [OF assms] .

theorem vip_cleanup_safe_witness:
  "list_for_each_entry_safe 8 16 (free_entry 8) ring2 = Some (Ret (ring2 |` (- {32, 48})))"
  using vip_cleanup_safe [OF rings(2), of 8] by simp

end
