(* ===== verification/Spec2Isabelle.thy ===== *)
theory Spec2Isabelle
  imports Vrrp_Heartbeat Vrrp_List
begin

text \<open>
  Verification of \<^verbatim>\<open>uvrrpd\<close>, a daemon for the Virtual Router Redundancy Protocol (VRRPv2, RFC 3768, and
  VRRPv3, RFC 5798) over IPv4 and IPv6.

  \<^bold>\<open>The program.\<close>  \<open>main\<close> (\<^verbatim>\<open>src/uvrrpd.c\<close>) reads the command line (\<^verbatim>\<open>vrrp_options.c\<close>), creates a pid
  file and a control fifo, opens a raw and a packet socket (\<^verbatim>\<open>vrrp_net.c\<close>), builds once the
  advertisement (\<^verbatim>\<open>vrrp_adv.c\<close>) and one gratuitous ARP (\<^verbatim>\<open>vrrp_arp.c\<close>) or neighbour
  advertisement (\<^verbatim>\<open>vrrp_na.c\<close>) per virtual address, and then calls \<open>vrrp_process\<close> (\<^verbatim>\<open>vrrp.c\<close>) until a
  flag of the control register is cleared.  A step dispatches on the state INIT, BACKUP or
  MASTER (\<^verbatim>\<open>vrrp_state.c\<close>); the last two wait in \<open>pselect\<close> for a packet, a command on the fifo
  (\<^verbatim>\<open>vrrp_ctrl.c\<close>), a signal, or the end of a timer (\<^verbatim>\<open>vrrp_timer.c\<close>).  A packet is classified by
  \<open>vrrp_net_recv\<close> with the help of a table of functions per address family (\<^verbatim>\<open>vrrp_ip4.c\<close>,
  \<^verbatim>\<open>vrrp_ip6.c\<close>, \<^verbatim>\<open>vrrp_ipx.h\<close>).  A transition runs a hook script (\<^verbatim>\<open>vrrp_exec.c\<close>).

  \<^bold>\<open>How it is modelled.\<close>  Structures are records with the fields of the source, enumerations
  are datatypes, fixed-width integers are words; packets, addresses and the buffers of an
  \<open>iovec\<close> are lists of bytes, read and written at the offsets of the packed structures.  A
  function takes the structures it may change and the \<open>world\<close> and returns them with its
  result.  The \<open>world\<close> holds the control register, the number of system calls made, and the
  trace of visible effects.  The kernel and the C library are the parameter \<open>os\<close>: it gives the
  answer of every call, by its number, including failures, the contents of uninitialised memory
  and what arrives on the sockets, the fifo and as signals.  The type \<open>run\<close> distinguishes a return from
  \<open>exit\<close>, undefined behaviour (null or wild pointers, accesses out of bounds, freed memory) and
  a loop that does not end.

  \<^bold>\<open>Theories.\<close>
  \<^item> \<open>Vrrp_Prelude\<close>: integers, bytes, outcomes.  \<open>Vrrp_Types\<close>: the structures of \<^verbatim>\<open>vrrp.h\<close>,
    \<^verbatim>\<open>vrrp_net.h\<close>, \<^verbatim>\<open>vrrp_ctrl.h\<close>, \<^verbatim>\<open>vrrp_rfc.h\<close>, \<^verbatim>\<open>vrrp_state.h\<close>, the environment, and an example.
  \<^item> \<open>Vrrp_Bits\<close> (\<^verbatim>\<open>bits.h\<close>, \<^verbatim>\<open>uvrrpd.h\<close>): the register satisfies the locale \<open>flag_register\<close>:
    operations on one flag leave the others alone.
  \<^item> \<open>Vrrp_Cksum\<close>, \<open>Vrrp_Common\<close> (\<^verbatim>\<open>common.h\<close>): \<open>cksum\<close> over native words is the checksum of RFC 1071 and
    verifies; number parsing inverts printing within its limit.
  \<^item> \<open>Vrrp_Timer\<close>: the locale \<open>deadline_timer\<close> and its interpretation; set timers fire at their
    deadline, updates are exact; bounds of skew time and master-down interval.
  \<^item> \<open>Vrrp_Ipx\<close>: the locale \<open>ipx_module\<close>, interpreted for IPv4, IPv6 and the dispatch; checksums
    against the pseudo headers of the RFCs; address comparison.
  \<^item> \<open>Vrrp_Net\<close>: reception is total, and accepts exactly what the RFC checks accept.
  \<^item> \<open>Vrrp_Adv\<close>: building, sending and rewriting advertisements, and the one configuration in which
    building writes out of bounds.  \<open>Vrrp_Roundtrip\<close>, \<open>Vrrp_Roundtrip6\<close>: what one instance builds its peers
    accept and read back, over IPv4 and IPv6.
  \<^item> \<open>Vrrp_Topology\<close>: gratuitous ARP and neighbour advertisements.  \<open>Vrrp_Exec\<close>: the hook.
    \<open>Vrrp_Ctrl\<close>: the control fifo, with words as pointers into the message buffer.
  \<^item> \<open>Vrrp_State\<close>: the handlers, the invariant \<open>inst_wf\<close> (buffers built, packet and instance
    in agreement, command words null) and \<open>timers_ok\<close> (exactly the timer of the
    state runs), and the effect of each transition.
  \<^item> \<open>Vrrp_Machine\<close>: the abstract router \<open>rfc_step\<close> of RFC 5798 section 6.4 as an inductive step relation, and
    the refinement: each step of \<open>vrrp_process\<close> is a step of it with the
    same frames.  From it: take-over exactly at the deadline, and of two masters
    at most one yields, the lower one.
  \<^item> \<open>Vrrp_Steady\<close>: the invariant \<open>advertises\<close>, that the send buffers hold byte for byte the advertisement of
    the configuration and the current priority; every step keeps it, and the handlers change neither
    configuration nor buffers.  \<open>Vrrp_Wire\<close> composes it with the refinement and the round trips: the packet
    of one running instance, delivered to another, makes that one take the step for the sender's
    priority, interval and address.
  \<^item> \<open>Vrrp_Log\<close>: the global variables and the logging layer (\<^verbatim>\<open>log.c\<close>, \<^verbatim>\<open>log.h\<close>), with what each level
    lets through.
  \<^item> \<open>Vrrp_Getopt\<close>: the option tables of \<^verbatim>\<open>vrrp_options.c\<close> and the scan of \<open>argv\<close> by \<open>getopt_long\<close>, for any spelling
    of the options.  \<open>Vrrp_Options\<close>, \<open>Vrrp_Main\<close>: the command line and \<open>main\<close>; what an accepted command line
    guarantees, that set-up establishes the invariant for both families, that every reachable
    state keeps it, that a signal ends the loop after a master has resigned, and the life of the
    daemon from set-up to the last \<open>unlink\<close>.
  \<^item> \<open>Vrrp_Election\<close>: runs of the loop in an environment where nothing arrives: the daemon becomes master, stays it
    and never stops advertising.  \<open>Vrrp_Heartbeat\<close>: runs in which a master of the group is heard: a backup stays
    backup and silent.
  \<^item> \<open>Vrrp_List\<close> (\<^verbatim>\<open>list.h\<close>): the linked list on a heap of list heads, where using a dead head
    is an error.  All functions refine operations on HOL lists, all loops end on
    well-formed lists.  The locale \<open>entry_sequence\<close> is what the daemon relies on; it is interpreted on the
    heap and on the HOL list that stands for \<open>vip_list\<close> in the other theories.

  \<^bold>\<open>Loops and bounds.\<close>  Loops over buffers, lists and options are structural recursion, the scan of \<open>argv\<close> recursion
  on its length.  Four kinds of loops may run for ever and are partial functions into \<open>option\<close>: waiting for the child, draining the fifo, iterating over a (possibly corrupt)
  linked list, and the main loop.  That they return is proved: the first two under \<open>wait_ends\<close>
  and \<open>fifo_ends\<close> (some later answer ends the wait; an empty fifo), the third for
  well-formed lists, the last for a termination signal; in silence it is proved to run for ever.  There is no fuel.

  \<^bold>\<open>Hypotheses on the environment\<close> are named: \<open>clock_ok\<close> (the clock can be read, with
  normalised nanoseconds), \<open>fork_ok\<close>, \<open>os_recv_ok\<close> (a received IPv6 packet has a source of 16 bytes and packet
  information with an address), \<open>build_os\<close>, \<open>na_os\<close> and \<open>setup_os\<close> (memory, and the multicast addresses can be
  converted), \<open>addr_os\<close> (address sizes), \<open>zeroed\<close> (zeroed memory), \<open>link_up\<close> (frames are sent),
  \<open>silent\<close> and \<open>time_passes\<close> (nothing arrives, the clock passes every bound), \<open>heartbeat\<close> (a master is heard in time),
  \<open>delivery6\<close> (what the kernel hands over beside an IPv6 packet).  Each theorem that uses them has a
  witness on a concrete environment.

  \<^bold>\<open>Where the code differs from its intention\<close>, the theorem states what it does: an
  interval above 255 rejects every packet, the skew time of VRRPv2 is 0, the comparison of distant addresses
  wraps, the first command reads uninitialised pointers, a failed fork breaks
  the next transition, a password over IPv6 in VRRPv2 is written past its buffer, swapping adjacent list
  entries makes a cycle, the log levels below notice filter nothing, and leaving \<open>main\<close> reads a freed
  name.

  \<^bold>\<open>Not modelled.\<close>  The log messages of the components and what they print on standard error, other than
  \<open>vrrp_context\<close> and the command line, and the messages of \<open>getopt_long\<close> (no effect on the daemon); the hook
  script \<^verbatim>\<open>vrrp_switch.sh\<close>, another program; the
  scheduler, memory locking and the second process after \<open>fork\<close> beyond their status; handlers run by
  \<open>exit\<close> on failure; builds without IPv6.  The host is LP64 and little-endian.  What remains of the source is
  licences, includes, prototypes and the two initialisers of the family tables, which are the dispatch functions of
  \<open>Vrrp_Ipx\<close>.
\<close>

end
